(* ===== verification/Prelude.thy ===== *)
theory Prelude
  imports Main "HOL-Library.Word" "HOL-Library.AList" "HOL-Library.Char_ord"
    "HOL-Library.List_Lexorder" "HOL-Library.Multiset"
begin

text \<open>
  Shared vocabulary of the development: the machine integer types of the C++ sources,
  results of code that may throw, the conversion between \<open>std::string\<close> and raw bytes,
  \<open>std::map\<close> as a key-sorted association list and \<open>std::unordered_map\<close> as an
  association list with distinct keys whose order is the (unspecified) iteration order.
\<close>

unbundle bit_operations_syntax

section \<open>Machine integers\<close>

type_synonym byte = "8 word"
type_synonym u16 = "16 word"
type_synonym u32 = "32 word"
type_synonym u64 = "64 word"

text \<open>
  Rewrite rules collected for the components: \<open>wire\<close> holds what the encoders and
  decoders compute on well-placed input, \<open>heap_simps\<close> what the object store and the
  queues compute.
\<close>

named_theorems wire
named_theorems heap_simps

lemma be_step:
  "push_bit 8 (drop_bit (k + 8) v) OR ucast (ucast (drop_bit k v) :: byte)
     = drop_bit k (v :: 'a::len word)"
  by (rule bit_word_eqI) (auto simp: bit_simps not_less add.assoc add.commute)

lemma unat_byte_less [simp]: "unat (b :: byte) < 256"
  using unsigned_less [of b, where ?'a = nat] by simp

lemma unat_u32_less [simp]: "unat (w :: u32) < 4294967296"
  using unsigned_less [of w, where ?'a = nat] by simp

lemma unat_of_nat_u32: "n < 2 ^ 32 \<Longrightarrow> unat (word_of_nat n :: u32) = n"
  by (simp add: unat_of_nat take_bit_nat_eq_self)

lemma unat_of_nat_u64: "n < 2 ^ 64 \<Longrightarrow> unat (word_of_nat n :: u64) = n"
  by (simp add: unat_of_nat take_bit_nat_eq_self)

lemma unat_of_nat_byte: "n < 256 \<Longrightarrow> unat (word_of_nat n :: byte) = n"
  by (simp add: unat_of_nat take_bit_nat_eq_self)

section \<open>Code that throws\<close>

text \<open>
  A call that may throw returns a sum; \<open>bindE\<close> is the sequencing of two such calls,
  an exception of the first one skipping the second.
\<close>

definition bindE :: "'e + 'a \<Rightarrow> ('a \<Rightarrow> 'e + 'b) \<Rightarrow> 'e + 'b" where
  "bindE m f = (case m of Inl e \<Rightarrow> Inl e | Inr a \<Rightarrow> f a)"

lemma bindE_simps [simp]: "bindE (Inl e) f = Inl e" "bindE (Inr a) f = f a"
  by (simp_all add: bindE_def)

lemma bindE_Inr_iff: "bindE m f = Inr y \<longleftrightarrow> (\<exists>x. m = Inr x \<and> f x = Inr y)"
  by (cases m) auto

lemma bindE_Inl_iff: "bindE m f = Inl e \<longleftrightarrow> m = Inl e \<or> (\<exists>x. m = Inr x \<and> f x = Inl e)"
  by (cases m) auto

lemma bindE_cong [fundef_cong]:
  "m = m' \<Longrightarrow> (\<And>x. m' = Inr x \<Longrightarrow> f x = f' x) \<Longrightarrow> bindE m f = bindE m' f'"
  by (cases m') auto

text \<open>\<open>yields R m\<close>: if \<open>m\<close> does not throw, its result satisfies \<open>R\<close>.\<close>

definition yields :: "('a \<Rightarrow> bool) \<Rightarrow> 'e + 'a \<Rightarrow> bool" where
  "yields R m \<longleftrightarrow> (\<forall>x. m = Inr x \<longrightarrow> R x)"

lemma yields_bind: "yields R m \<Longrightarrow> (\<And>x. R x \<Longrightarrow> yields S (f x)) \<Longrightarrow> yields S (bindE m f)"
  by (cases m) (auto simp: yields_def)

lemma yields_Inr [simp]: "yields R (Inr x) \<longleftrightarrow> R x"
  by (simp add: yields_def)

lemma yields_Inl [simp]: "yields R (Inl e)"
  by (simp add: yields_def)

section \<open>Strings and bytes\<close>

definition bytes_of_string :: "string \<Rightarrow> byte list" where
  "bytes_of_string s = map (\<lambda>c. word_of_nat (of_char c)) s"

definition string_of_bytes :: "byte list \<Rightarrow> string" where
  "string_of_bytes bs = map (\<lambda>b. char_of (unat b)) bs"

lemma char_of_unat_of_char [simp]: "char_of (unat (word_of_nat (of_char c) :: byte)) = (c :: char)"
  by (simp add: unat_of_nat)

lemma of_char_char_of_unat [simp]: "word_of_nat (of_char (char_of (unat b) :: char)) = (b :: byte)"
  by (simp add: mod_less)

lemma string_of_bytes_of_string [simp]: "string_of_bytes (bytes_of_string s) = s"
  by (simp add: string_of_bytes_def bytes_of_string_def comp_def)

lemma bytes_of_string_of_bytes [simp]: "bytes_of_string (string_of_bytes bs) = bs"
  by (simp add: string_of_bytes_def bytes_of_string_def comp_def map_idI del: of_char_of)

lemma length_bytes_of_string [simp]: "length (bytes_of_string s) = length s"
  by (simp add: bytes_of_string_def)

lemma length_string_of_bytes [simp]: "length (string_of_bytes bs) = length bs"
  by (simp add: string_of_bytes_def)

section \<open>Decimal numerals\<close>

text \<open>\<open>std::to_string\<close> of an unsigned integer.\<close>

definition digit_char :: "nat \<Rightarrow> char" where
  "digit_char d = char_of (48 + d)"

fun show_nat :: "nat \<Rightarrow> string" where
  "show_nat n = (if n < 10 then [digit_char n] else show_nat (n div 10) @ [digit_char (n mod 10)])"

declare show_nat.simps [simp del]

definition read_nat :: "string \<Rightarrow> nat" where
  "read_nat ds = foldl (\<lambda>v c. 10 * v + (of_char c - 48)) 0 ds"

lemma of_char_digit: "d < 10 \<Longrightarrow> of_char (digit_char d) = 48 + (d :: nat)"
  by (simp add: digit_char_def)

lemma read_show_nat [simp]: "read_nat (show_nat n) = n"
proof (induction n rule: show_nat.induct)
  case (1 n)
  show ?case
  proof (cases "n < 10")
    case False
    then have "read_nat (show_nat (n div 10)) = n div 10" by (rule 1)
    then show ?thesis using False
      by (subst show_nat.simps) (simp add: read_nat_def of_char_digit)
  qed (subst show_nat.simps, simp add: read_nat_def of_char_digit)
qed

lemma show_nat_inject [simp]: "show_nat m = show_nat n \<longleftrightarrow> m = n"
  by (metis read_show_nat)

section \<open>Ordered and unordered maps\<close>

text \<open>
  \<open>std::map\<close>: an association list sorted by key. \<open>emplace\<close> keeps the value of a key
  that is present, \<open>operator[]\<close> followed by an assignment replaces it. The order of
  \<open>std::string\<close> compares bytes lexicographically, which is the order of
  \<open>HOL-Library.List_Lexorder\<close> over that of \<open>HOL-Library.Char_ord\<close>.
\<close>

definition sorted_map :: "('k::linorder \<times> 'v) list \<Rightarrow> bool" where
  "sorted_map m \<longleftrightarrow> sorted_wrt (<) (map fst m)"

fun map_emplace :: "'k::linorder \<Rightarrow> 'v \<Rightarrow> ('k \<times> 'v) list \<Rightarrow> ('k \<times> 'v) list" where
  "map_emplace k v [] = [(k, v)]"
| "map_emplace k v (e # m) =
     (if k < fst e then (k, v) # e # m
      else if k = fst e then e # m
      else e # map_emplace k v m)"

fun map_assign :: "'k::linorder \<Rightarrow> 'v \<Rightarrow> ('k \<times> 'v) list \<Rightarrow> ('k \<times> 'v) list" where
  "map_assign k v [] = [(k, v)]"
| "map_assign k v (e # m) =
     (if k < fst e then (k, v) # e # m
      else if k = fst e then (k, v) # m
      else e # map_assign k v m)"

lemma keys_map_emplace [simp]: "set (map fst (map_emplace k v m)) = insert k (set (map fst m))"
  by (induction m) auto

lemma keys_map_assign [simp]: "set (map fst (map_assign k v m)) = insert k (set (map fst m))"
  by (induction m) auto

lemma sorted_map_Nil [simp]: "sorted_map []"
  by (simp add: sorted_map_def)

lemma sorted_map_Cons [simp]:
  "sorted_map (e # m) \<longleftrightarrow> (\<forall>x \<in> set (map fst m). fst e < x) \<and> sorted_map m"
  by (simp add: sorted_map_def)

lemma sorted_map_emplace: "sorted_map m \<Longrightarrow> sorted_map (map_emplace k v m)"
proof (induction m)
  case (Cons e m)
  then show ?case using keys_map_emplace [of k v m] by (auto simp del: keys_map_emplace)
qed simp

lemma sorted_map_assign: "sorted_map m \<Longrightarrow> sorted_map (map_assign k v m)"
proof (induction m)
  case (Cons e m)
  then show ?case using keys_map_assign [of k v m] by (auto simp del: keys_map_assign)
qed simp

lemma map_of_map_assign: "sorted_map m \<Longrightarrow> map_of (map_assign k v m) = (map_of m)(k \<mapsto> v)"
  by (induction m) (auto simp: fun_eq_iff)

lemma map_of_map_emplace:
  "sorted_map m \<Longrightarrow>
   map_of (map_emplace k v m) = (map_of m)(k \<mapsto> (case map_of m k of None \<Rightarrow> v | Some w \<Rightarrow> w))"
proof (induction m)
  case (Cons e m)
  then have "k < fst e \<Longrightarrow> map_of m k = None"
    by (auto simp: map_of_eq_None_iff)
  with Cons show ?case by (auto simp: fun_eq_iff split: option.splits)
qed simp

lemma map_emplace_last:
  "\<forall>x \<in> set (map fst m). x < k \<Longrightarrow> map_emplace k v m = m @ [(k, v)]"
  by (induction m) auto

text \<open>
  \<open>std::unordered_map\<close>: an association list with distinct keys, updated by
  \<open>AList.update\<close> and erased by \<open>AList.delete\<close>. Its list order is one possible iteration
  order; every order is the order of some state, so a theorem for all states covers all.
\<close>

abbreviation distinct_keys :: "('k \<times> 'v) list \<Rightarrow> bool" where
  "distinct_keys m \<equiv> distinct (map fst m)"

lemma map_of_update [simp]: "map_of (AList.update k v m) = (map_of m)(k \<mapsto> v)"
  by (rule update_conv')

lemma map_of_delete [simp]: "map_of (AList.delete k m) = (map_of m)(k := None)"
  by (rule delete_conv')

lemma map_of_delete_distinct: "distinct_keys m \<Longrightarrow> distinct_keys (AList.delete k m)"
  by (rule distinct_delete)

lemma set_map_of: "distinct_keys m \<Longrightarrow> (k, v) \<in> set m \<longleftrightarrow> map_of m k = Some v"
  by (rule map_of_eq_Some_iff [symmetric])

end
