(* ===== verification/Wire_Buffer.thy ===== *)
theory Wire_Buffer
  imports Prelude
begin

text \<open>
  The cursor over a byte vector through which every AMQP value is read and written:
  class \<open>Buffer\<close> of \<open>src/amqp/types.h\<close>, its bounds check \<open>ensure\<close>, the big-endian
  integers and the short and long strings. The locale \<open>codec\<close> is the contract a
  pair of a write and a read operation meets; each pair of the class is an instance.
\<close>

section \<open>Operations of the class\<close>

datatype amqp_error =
    BufferUnderflow
  | FieldTableDepth
  | UnknownFieldType char
  | FuelExhausted

record Buffer =
  bdata :: "byte list"
  bpos :: nat

definition Buffer_of :: "byte list \<Rightarrow> Buffer" where
  "Buffer_of bs = \<lparr>bdata = bs, bpos = 0\<rparr>"

definition remaining :: "Buffer \<Rightarrow> nat" where
  "remaining b = length (bdata b) - bpos b"

definition position :: "Buffer \<Rightarrow> nat" where
  "position b = bpos b"

definition reset :: "Buffer \<Rightarrow> Buffer" where
  "reset b = b\<lparr>bpos := 0\<rparr>"

definition clear :: "Buffer \<Rightarrow> Buffer" where
  "clear b = b\<lparr>bdata := [], bpos := 0\<rparr>"

definition ensure :: "nat \<Rightarrow> Buffer \<Rightarrow> amqp_error + unit" where
  "ensure n b = (if n > length (bdata b) \<or> bpos b > length (bdata b) - n
                 then Inl BufferUnderflow else Inr ())"

definition readUint8 :: "Buffer \<Rightarrow> amqp_error + byte \<times> Buffer" where
  "readUint8 b = bindE (ensure 1 b) (\<lambda>_. Inr (bdata b ! bpos b, b\<lparr>bpos := bpos b + 1\<rparr>))"

definition readUint16 :: "Buffer \<Rightarrow> amqp_error + u16 \<times> Buffer" where
  "readUint16 b = bindE (ensure 2 b) (\<lambda>_.
     Inr (push_bit 8 (ucast (bdata b ! bpos b)) OR ucast (bdata b ! (bpos b + 1)),
          b\<lparr>bpos := bpos b + 2\<rparr>))"

definition readUint32 :: "Buffer \<Rightarrow> amqp_error + u32 \<times> Buffer" where
  "readUint32 b = bindE (ensure 4 b) (\<lambda>_.
     Inr (push_bit 24 (ucast (bdata b ! bpos b)) OR
          push_bit 16 (ucast (bdata b ! (bpos b + 1))) OR
          push_bit 8 (ucast (bdata b ! (bpos b + 2))) OR
          ucast (bdata b ! (bpos b + 3)),
          b\<lparr>bpos := bpos b + 4\<rparr>))"

definition readUint64 :: "Buffer \<Rightarrow> amqp_error + u64 \<times> Buffer" where
  "readUint64 b = bindE (ensure 8 b) (\<lambda>_.
     Inr (foldl (\<lambda>v i. push_bit 8 v OR ucast (bdata b ! (bpos b + i))) 0 [0..<8],
          b\<lparr>bpos := bpos b + 8\<rparr>))"

text \<open>The signed reads return the same bits; a word is read as signed where it is used.\<close>

definition readInt8 :: "Buffer \<Rightarrow> amqp_error + byte \<times> Buffer" where
  [simp]: "readInt8 = readUint8"

definition readInt16 :: "Buffer \<Rightarrow> amqp_error + u16 \<times> Buffer" where
  [simp]: "readInt16 = readUint16"

definition readInt32 :: "Buffer \<Rightarrow> amqp_error + u32 \<times> Buffer" where
  [simp]: "readInt32 = readUint32"

definition readInt64 :: "Buffer \<Rightarrow> amqp_error + u64 \<times> Buffer" where
  [simp]: "readInt64 = readUint64"

definition readBytes :: "nat \<Rightarrow> Buffer \<Rightarrow> amqp_error + byte list \<times> Buffer" where
  "readBytes n b = bindE (ensure n b) (\<lambda>_.
     Inr (take n (drop (bpos b) (bdata b)), b\<lparr>bpos := bpos b + n\<rparr>))"

definition readShortString :: "Buffer \<Rightarrow> amqp_error + string \<times> Buffer" where
  "readShortString b = bindE (readUint8 b) (\<lambda>(len, b).
     bindE (ensure (unat len) b) (\<lambda>_.
       Inr (string_of_bytes (take (unat len) (drop (bpos b) (bdata b))),
            b\<lparr>bpos := bpos b + unat len\<rparr>)))"

definition readLongString :: "Buffer \<Rightarrow> amqp_error + string \<times> Buffer" where
  "readLongString b = bindE (readUint32 b) (\<lambda>(len, b).
     bindE (ensure (unat len) b) (\<lambda>_.
       Inr (string_of_bytes (take (unat len) (drop (bpos b) (bdata b))),
            b\<lparr>bpos := bpos b + unat len\<rparr>)))"

definition writeUint8 :: "byte \<Rightarrow> Buffer \<Rightarrow> Buffer" where
  "writeUint8 v b = b\<lparr>bdata := bdata b @ [v]\<rparr>"

definition writeUint16 :: "u16 \<Rightarrow> Buffer \<Rightarrow> Buffer" where
  "writeUint16 v b = writeUint8 (ucast v) (writeUint8 (ucast (drop_bit 8 v)) b)"

definition writeUint32 :: "u32 \<Rightarrow> Buffer \<Rightarrow> Buffer" where
  "writeUint32 v b = writeUint8 (ucast v) (writeUint8 (ucast (drop_bit 8 v))
     (writeUint8 (ucast (drop_bit 16 v)) (writeUint8 (ucast (drop_bit 24 v)) b)))"

definition writeUint64 :: "u64 \<Rightarrow> Buffer \<Rightarrow> Buffer" where
  "writeUint64 v b = foldl (\<lambda>b i. writeUint8 (ucast (drop_bit i v)) b) b [56, 48, 40, 32, 24, 16, 8, 0]"

definition writeInt8 :: "byte \<Rightarrow> Buffer \<Rightarrow> Buffer" where
  [simp, wire]: "writeInt8 v = writeUint8 v"

definition writeInt16 :: "u16 \<Rightarrow> Buffer \<Rightarrow> Buffer" where
  [simp, wire]: "writeInt16 v = writeUint16 v"

definition writeInt32 :: "u32 \<Rightarrow> Buffer \<Rightarrow> Buffer" where
  [simp, wire]: "writeInt32 v = writeUint32 v"

definition writeInt64 :: "u64 \<Rightarrow> Buffer \<Rightarrow> Buffer" where
  [simp, wire]: "writeInt64 v = writeUint64 v"

definition writeBytes :: "byte list \<Rightarrow> Buffer \<Rightarrow> Buffer" where
  "writeBytes bs b = b\<lparr>bdata := bdata b @ bs\<rparr>"

definition writeShortString :: "string \<Rightarrow> Buffer \<Rightarrow> Buffer" where
  "writeShortString s b =
     writeBytes (take (min (length s) 255) (bytes_of_string s))
       (writeUint8 (word_of_nat (min (length s) 255)) b)"

definition writeLongString :: "string \<Rightarrow> Buffer \<Rightarrow> Buffer" where
  "writeLongString s b =
     writeBytes (bytes_of_string s) (writeUint32 (word_of_nat (length s)) b)"

text \<open>
  \<open>mapR\<close> post-processes a value read; \<open>readIf\<close> and \<open>writeOpt\<close> are the
  \<open>if (flag) x = buf.read...()\<close> and \<open>if (x) buf.write...(*x)\<close> of optional fields.
\<close>

definition mapR :: "('a \<Rightarrow> 'b) \<Rightarrow> 'e + 'a \<times> Buffer \<Rightarrow> 'e + 'b \<times> Buffer" where
  "mapR f r = bindE r (\<lambda>(v, b). Inr (f v, b))"

definition readIf :: "bool \<Rightarrow> (Buffer \<Rightarrow> 'e + 'a \<times> Buffer) \<Rightarrow> Buffer \<Rightarrow> 'e + 'a option \<times> Buffer" where
  "readIf c rd b = (if c then mapR Some (rd b) else Inr (None, b))"

definition writeOpt :: "('a \<Rightarrow> Buffer \<Rightarrow> Buffer) \<Rightarrow> 'a option \<Rightarrow> Buffer \<Rightarrow> Buffer" where
  "writeOpt wr v b = (case v of Some x \<Rightarrow> wr x b | None \<Rightarrow> b)"

definition enc_opt :: "('a \<Rightarrow> byte list) \<Rightarrow> 'a option \<Rightarrow> byte list" where
  "enc_opt enc v = (case v of Some x \<Rightarrow> enc x | None \<Rightarrow> [])"

lemma mapR_Inr_iff: "mapR f r = Inr (v, b) \<longleftrightarrow> (\<exists>x. r = Inr (x, b) \<and> v = f x)"
  by (cases r) (auto simp: mapR_def split: prod.splits)

lemma mapR_Inl_iff: "mapR f r = Inl e \<longleftrightarrow> r = Inl e"
  by (cases r) (auto simp: mapR_def split: prod.splits)

section \<open>The bytes a write appends\<close>

definition enc16 :: "u16 \<Rightarrow> byte list" where
  "enc16 v = [ucast (drop_bit 8 v), ucast v]"

definition enc32 :: "u32 \<Rightarrow> byte list" where
  "enc32 v = [ucast (drop_bit 24 v), ucast (drop_bit 16 v), ucast (drop_bit 8 v), ucast v]"

definition enc64 :: "u64 \<Rightarrow> byte list" where
  "enc64 v = map (\<lambda>i. ucast (drop_bit i v)) [56, 48, 40, 32, 24, 16, 8, 0]"

definition enc_short :: "string \<Rightarrow> byte list" where
  "enc_short s = word_of_nat (min (length s) 255) # take (min (length s) 255) (bytes_of_string s)"

definition enc_long :: "string \<Rightarrow> byte list" where
  "enc_long s = enc32 (word_of_nat (length s)) @ bytes_of_string s"

lemma length_encs [simp]:
  "length (enc16 a) = 2" "length (enc32 c) = 4" "length (enc64 d) = 8"
  "length (enc_short s) = Suc (min (length s) 255)" "length (enc_long s) = length s + 4"
  by (simp_all add: enc16_def enc32_def enc64_def enc_short_def enc_long_def)

lemma writes_append [wire]:
  "writeUint8 v b = writeBytes [v] b"
  "writeUint16 w b = writeBytes (enc16 w) b"
  "writeUint32 x b = writeBytes (enc32 x) b"
  "writeUint64 y b = writeBytes (enc64 y) b"
  "writeShortString s b = writeBytes (enc_short s) b"
  "writeLongString s b = writeBytes (enc_long s) b"
  by (simp_all add: writeUint8_def writeUint16_def writeUint32_def writeUint64_def
      writeShortString_def writeLongString_def writeBytes_def enc16_def enc32_def enc64_def
      enc_short_def enc_long_def)

lemma writeBytes_writeBytes [simp, wire]: "writeBytes ys (writeBytes xs b) = writeBytes (xs @ ys) b"
  by (simp add: writeBytes_def)

lemma bdata_writeBytes [simp]: "bdata (writeBytes xs b) = bdata b @ xs"
  by (simp add: writeBytes_def)

section \<open>Input at the cursor\<close>

text \<open>
  \<open>at_input b xs\<close>: the bytes from the cursor to the end are \<open>xs\<close>. \<open>advance n b\<close> moves
  the cursor.
\<close>

definition at_input :: "Buffer \<Rightarrow> byte list \<Rightarrow> bool" where
  "at_input b xs \<longleftrightarrow> bpos b \<le> length (bdata b) \<and> drop (bpos b) (bdata b) = xs"

definition advance :: "nat \<Rightarrow> Buffer \<Rightarrow> Buffer" where
  "advance n b = b\<lparr>bpos := bpos b + n\<rparr>"

lemma at_input_Buffer_of [simp]: "at_input (Buffer_of bs) bs"
  by (simp add: at_input_def Buffer_of_def)

lemma advance_advance [simp]: "advance n (advance m b) = advance (m + n) b"
  by (simp add: advance_def add.assoc)

lemma advance_0 [simp]: "advance 0 b = b"
  by (simp add: advance_def)

lemma bpos_advance [simp]: "bpos (advance n b) = bpos b + n"
  by (simp add: advance_def)

lemma bdata_advance [simp]: "bdata (advance n b) = bdata b"
  by (simp add: advance_def)

lemma at_input_advance: "at_input b (xs @ ys) \<Longrightarrow> at_input (advance (length xs) b) ys"
proof (unfold at_input_def, elim conjE, intro conjI)
  assume d: "drop (bpos b) (bdata b) = xs @ ys" and l: "bpos b \<le> length (bdata b)"
  then have "length (bdata b) - bpos b = length xs + length ys"
    by (metis length_append length_drop)
  with l show "bpos (advance (length xs) b) \<le> length (bdata (advance (length xs) b))" by simp
  show "drop (bpos (advance (length xs) b)) (bdata (advance (length xs) b)) = ys"
    using d by (simp add: add.commute flip: drop_drop)
qed

lemma ensure_ok: "at_input b xs \<Longrightarrow> n \<le> length xs \<Longrightarrow> ensure n b = Inr ()"
  by (auto simp: at_input_def ensure_def)

lemma nth_at_input: "at_input b xs \<Longrightarrow> i < length xs \<Longrightarrow> bdata b ! (bpos b + i) = xs ! i"
  by (auto simp: at_input_def)

lemma ensure_iff: "ensure n b = Inr () \<longleftrightarrow> bpos b + n \<le> length (bdata b)"
  by (auto simp: ensure_def)

lemma ensure_Inl_iff:
  "ensure n b = Inl e \<longleftrightarrow> e = BufferUnderflow \<and> length (bdata b) < bpos b + n"
  by (auto simp: ensure_def)

section \<open>The contract of a write and read pair\<close>

text \<open>
  \<open>enc v\<close> is what \<open>wr v\<close> appends; \<open>rd\<close> placed on \<open>enc v\<close> returns \<open>v\<close> and stops right
  behind it, whatever follows. \<open>ok\<close> marks the values that fit the wire format.
\<close>

locale codec =
  fixes ok :: "'a \<Rightarrow> bool"
    and enc :: "'a \<Rightarrow> byte list"
    and wr :: "'a \<Rightarrow> Buffer \<Rightarrow> Buffer"
    and rd :: "Buffer \<Rightarrow> amqp_error + 'a \<times> Buffer"
  assumes wr_append: "wr v b = writeBytes (enc v) b"
    and rd_enc: "ok v \<Longrightarrow> at_input b (enc v @ rest) \<Longrightarrow> rd b = Inr (v, advance (length (enc v)) b)"
begin

lemma rd_whole: "ok v \<Longrightarrow> rd (Buffer_of (enc v)) = Inr (v, advance (length (enc v)) (Buffer_of (enc v)))"
  using rd_enc [of v "Buffer_of (enc v)" "[]"] by simp

lemma rd_wr:
  assumes "ok v" and "bpos b = length (bdata b)"
  shows "rd (wr v b) = Inr (v, advance (length (enc v)) (wr v b))"
  using assms by (intro rd_enc [where rest = "[]"]) (simp_all add: wr_append at_input_def writeBytes_def)

lemma enc_unambiguous:
  assumes "ok v" "ok w" "enc v @ xs = enc w @ ys"
  shows "v = w \<and> xs = ys"
proof -
  have "rd (Buffer_of (enc v @ xs)) = Inr (v, advance (length (enc v)) (Buffer_of (enc v @ xs)))"
    by (rule rd_enc [OF \<open>ok v\<close>, where rest = xs]) simp
  moreover have "rd (Buffer_of (enc v @ xs)) = Inr (w, advance (length (enc w)) (Buffer_of (enc v @ xs)))"
    by (rule rd_enc [OF \<open>ok w\<close>, where rest = ys]) (simp add: assms(3))
  ultimately show ?thesis using assms(3) by simp
qed

lemma rd_then:
  assumes "ok v" "at_input b (enc v @ rest)"
  shows "bindE (rd b) f = f (v, advance (length (enc v)) b)"
    and "at_input (advance (length (enc v)) b) rest"
  using assms by (simp_all add: rd_enc at_input_advance)

text \<open>Optional fields: written when present, read when the writer's flag says so.\<close>

lemma writeOpt_append: "writeOpt wr v b = writeBytes (enc_opt enc v) b"
  by (cases v) (simp_all add: writeOpt_def enc_opt_def wr_append writeBytes_def)

lemma readIf_then:
  assumes "pred_option ok v" "at_input b (enc_opt enc v @ rest)"
  shows "bindE (readIf (v \<noteq> None) rd b) f = f (v, advance (length (enc_opt enc v)) b)"
    and "at_input (advance (length (enc_opt enc v)) b) rest"
  using assms by (cases v; auto simp: readIf_def enc_opt_def mapR_def rd_enc at_input_advance)+

end

section \<open>The pairs of the class meet the contract\<close>

lemma be16:
  "push_bit 8 (ucast (ucast (drop_bit 8 v) :: byte)) OR ucast (ucast v :: byte) = (v :: u16)"
  by (rule bit_word_eqI) (auto simp: bit_simps)

lemma be32:
  "push_bit 24 (ucast (ucast (drop_bit 24 v) :: byte)) OR
   push_bit 16 (ucast (ucast (drop_bit 16 v) :: byte)) OR
   push_bit 8 (ucast (ucast (drop_bit 8 v) :: byte)) OR ucast (ucast v :: byte) = (v :: u32)"
  (is "?l = v")
proof (rule bit_word_eqI)
  fix n assume "n < LENGTH(32)"
  then show "bit ?l n = bit v n"
    by (cases "n < 8"; cases "n < 16"; cases "n < 24") (auto simp: bit_simps)
qed

lemma be64_fold:
  "k \<le> 8 \<Longrightarrow> foldl (\<lambda>v i. push_bit 8 v OR ucast (enc64 w ! i)) 0 [0..<k] = drop_bit (64 - 8 * k) w"
proof (induction k)
  case 0
  show ?case by (rule bit_word_eqI) (simp add: bit_simps)
next
  case (Suc k)
  have "enc64 w ! k = ucast (drop_bit (56 - 8 * k) w)"
  proof -
    from Suc.prems have "k \<in> {0, 1, 2, 3, 4, 5, 6, 7}" by auto
    then show ?thesis by (auto simp: enc64_def)
  qed
  with Suc show ?case
    using be_step [of "56 - 8 * k" w] by (simp add: diff_diff_left [symmetric])
qed

interpretation u8: codec "\<lambda>_. True" "\<lambda>v. [v]" writeUint8 readUint8
proof
  fix v b rest assume "at_input b ([v] @ rest)"
  then show "readUint8 b = Inr (v, advance (length [v]) b)"
    using nth_at_input [of b "v # rest" 0] ensure_ok [of b "v # rest" 1]
    by (simp add: readUint8_def advance_def)
qed (simp add: wire)

interpretation u16: codec "\<lambda>_. True" enc16 writeUint16 readUint16
proof
  fix v b rest assume a: "at_input b (enc16 v @ rest)"
  then show "readUint16 b = Inr (v, advance (length (enc16 v)) b)"
    using nth_at_input [OF a, of 0] nth_at_input [OF a, of 1] ensure_ok [OF a, of 2] be16 [of v]
    by (simp add: readUint16_def advance_def enc16_def)
qed (simp add: wire)

interpretation u32: codec "\<lambda>_. True" enc32 writeUint32 readUint32
proof
  fix v b rest assume a: "at_input b (enc32 v @ rest)"
  then show "readUint32 b = Inr (v, advance (length (enc32 v)) b)"
    using nth_at_input [OF a, of 0] nth_at_input [OF a, of 1] nth_at_input [OF a, of 2]
      nth_at_input [OF a, of 3] ensure_ok [OF a, of 4] be32 [of v]
    by (simp add: readUint32_def advance_def enc32_def)
qed (simp add: wire)

interpretation u64: codec "\<lambda>_. True" enc64 writeUint64 readUint64
proof
  fix v b rest assume a: "at_input b (enc64 v @ rest)"
  have "bdata b ! (bpos b + i) = enc64 v ! i" if "i < 8" for i
    using nth_at_input [OF a, of i] that by (simp add: nth_append)
  then have "foldl (\<lambda>x i. push_bit 8 x OR ucast (bdata b ! (bpos b + i))) 0 [0..<8]
      = foldl (\<lambda>x i. push_bit 8 x OR ucast (enc64 v ! i)) (0 :: u64) [0..<8]"
    by (intro foldl_cong) auto
  then show "readUint64 b = Inr (v, advance (length (enc64 v)) b)"
    using ensure_ok [OF a, of 8] be64_fold [of 8 v] by (simp add: readUint64_def advance_def)
qed (simp add: wire)

lemma take_at_input: "at_input b (xs @ ys) \<Longrightarrow> take (length xs) (drop (bpos b) (bdata b)) = xs"
  by (simp add: at_input_def)

lemma readBytes_at_input:
  "at_input b (xs @ ys) \<Longrightarrow> readBytes (length xs) b = Inr (xs, advance (length xs) b)"
  by (simp add: readBytes_def ensure_ok take_at_input advance_def)

interpretation short_str: codec "\<lambda>s. length s \<le> 255" enc_short writeShortString readShortString
proof
  fix s b rest assume s: "length s \<le> 255" and a: "at_input b (enc_short s @ rest)"
  let ?l = "word_of_nat (length s) :: byte"
  from s a have a': "at_input b ([?l] @ bytes_of_string s @ rest)"
    by (simp add: enc_short_def min_absorb1)
  from s have l: "unat ?l = length (bytes_of_string s)"
    by (simp add: unat_of_nat_byte)
  from u8.rd_then(2) [OF _ a'] have b: "at_input (advance 1 b) (bytes_of_string s @ rest)" by simp
  show "readShortString b = Inr (s, advance (length (enc_short s)) b)"
    unfolding readShortString_def u8.rd_then(1) [OF TrueI a']
    using ensure_ok [OF b, of "length s"] take_at_input [OF b] l s by (simp add: advance_def min_absorb1)
qed (simp add: wire)

interpretation long_str: codec "\<lambda>s. length s < 2 ^ 32" enc_long writeLongString readLongString
proof
  fix s b rest assume s: "length s < 2 ^ 32" and a: "at_input b (enc_long s @ rest)"
  let ?l = "word_of_nat (length s) :: u32"
  from a have a': "at_input b (enc32 ?l @ bytes_of_string s @ rest)"
    by (simp add: enc_long_def)
  from s have l: "unat ?l = length (bytes_of_string s)"
    by (simp add: unat_of_nat_u32)
  from u32.rd_then(2) [OF _ a'] have b: "at_input (advance 4 b) (bytes_of_string s @ rest)" by simp
  show "readLongString b = Inr (s, advance (length (enc_long s)) b)"
    unfolding readLongString_def u32.rd_then(1) [OF TrueI a']
    using ensure_ok [OF b, of "length s"] take_at_input [OF b] l by (simp add: advance_def add.commute)
qed (simp add: wire)

section \<open>Reads stay inside the vector\<close>

text \<open>
  \<open>inside b b'\<close>: the read moved the cursor forward by at least one byte, not past the end,
  and left the data alone. \<open>reader\<close> is the contract every primitive read meets on every
  input: success is \<open>inside\<close> the vector, failure is the bounds check's exception.
\<close>

definition inside :: "Buffer \<Rightarrow> Buffer \<Rightarrow> bool" where
  "inside b b' \<longleftrightarrow> bdata b' = bdata b \<and> bpos b < bpos b' \<and> bpos b' \<le> length (bdata b)"

lemma inside_trans: "inside a b \<Longrightarrow> inside b c \<Longrightarrow> inside a c"
  by (simp add: inside_def)

lemma inside_remaining: "inside b b' \<Longrightarrow> remaining b' < remaining b"
  by (auto simp: inside_def remaining_def)

locale reader =
  fixes rd :: "Buffer \<Rightarrow> amqp_error + 'a \<times> Buffer"
  assumes rd_inside: "rd b = Inr (v, b') \<Longrightarrow> inside b b'"
    and rd_error: "rd b = Inl e \<Longrightarrow> e = BufferUnderflow"
begin

lemma rd_progress: "rd b = Inr (v, b') \<Longrightarrow> remaining b' < remaining b"
  by (rule inside_remaining) (rule rd_inside)

lemma rd_empty: "bpos b \<ge> length (bdata b) \<Longrightarrow> rd b = Inl BufferUnderflow"
proof (cases "rd b")
  case (Inr r)
  then have "inside b (snd r)" by (intro rd_inside [of b "fst r"]) simp
  moreover assume "bpos b \<ge> length (bdata b)"
  ultimately show ?thesis by (simp add: inside_def)
qed (simp add: rd_error)

end

lemmas read_defs = readUint8_def readUint16_def readUint32_def readUint64_def
  readShortString_def readLongString_def

interpretation r8: reader readUint8
  by unfold_locales (auto simp: read_defs bindE_Inr_iff bindE_Inl_iff ensure_iff ensure_Inl_iff inside_def)

interpretation r16: reader readUint16
  by unfold_locales (auto simp: read_defs bindE_Inr_iff bindE_Inl_iff ensure_iff ensure_Inl_iff inside_def)

interpretation r32: reader readUint32
  by unfold_locales (auto simp: read_defs bindE_Inr_iff bindE_Inl_iff ensure_iff ensure_Inl_iff inside_def)

interpretation r64: reader readUint64
  by unfold_locales (auto simp: read_defs bindE_Inr_iff bindE_Inl_iff ensure_iff ensure_Inl_iff inside_def)

interpretation rshort: reader readShortString
  by unfold_locales (auto simp: read_defs bindE_Inr_iff bindE_Inl_iff ensure_iff ensure_Inl_iff inside_def)

interpretation rlong: reader readLongString
  by unfold_locales (auto simp: read_defs bindE_Inr_iff bindE_Inl_iff ensure_iff ensure_Inl_iff inside_def)

end
