(* ===== verification/Float_Bits.thy ===== *)
theory Float_Bits
  imports Prelude "HOL-Library.Log_Nat"
begin

text \<open>
  The conversions between \<open>float\<close> and \<open>double\<close> that \<open>FieldValue\<close> relies on, on IEEE 754
  bit patterns: \<open>f.double_val = v\<close> widens, \<open>static_cast<float>(v.double_val)\<close> rounds to
  nearest, ties to even. \<open>memcpy\<close> between a float and an integer is the identity on bits.
  A NaN comes out quiet, as the hardware conversions deliver it.
\<close>

definition pack64 :: "nat \<Rightarrow> nat \<Rightarrow> nat \<Rightarrow> u64" where
  "pack64 s e m = word_of_nat (s * 2 ^ 63 + e * 2 ^ 52 + m)"

definition pack32 :: "nat \<Rightarrow> nat \<Rightarrow> u32" where
  "pack32 s r = word_of_nat (s * 2 ^ 31 + r)"

text \<open>Rounding away the low \<open>k\<close> bits, to nearest with ties to even.\<close>

definition round_even :: "nat \<Rightarrow> nat \<Rightarrow> nat" where
  "round_even x k =
     (let q = x div 2 ^ k; r = x mod 2 ^ k in
      if 2 * r > 2 ^ k \<or> (2 * r = 2 ^ k \<and> odd q) then Suc q else q)"

definition float_to_double :: "u32 \<Rightarrow> u64" where
  "float_to_double w =
     (let s = unat w div 2 ^ 31; e = unat w div 2 ^ 23 mod 2 ^ 8; m = unat w mod 2 ^ 23 in
      if e = 255 then pack64 s 2047 (if m = 0 then 0 else 2 ^ 51 + m mod 2 ^ 22 * 2 ^ 29)
      else if e = 0 then
        (if m = 0 then pack64 s 0 0
         else let k = floorlog 2 m - 1 in pack64 s (874 + k) ((m - 2 ^ k) * 2 ^ (52 - k)))
      else pack64 s (e + 896) (m * 2 ^ 29))"

definition double_to_float :: "u64 \<Rightarrow> u32" where
  "double_to_float w =
     (let s = unat w div 2 ^ 63; e = unat w div 2 ^ 52 mod 2 ^ 11; m = unat w mod 2 ^ 52 in
      if e = 2047 then pack32 s (255 * 2 ^ 23 + (if m = 0 then 0 else 2 ^ 22 + m div 2 ^ 29 mod 2 ^ 22))
      else if 897 \<le> e then
        pack32 s (min (255 * 2 ^ 23) ((e - 897) * 2 ^ 23 + round_even (2 ^ 52 + m) 29))
      else if e = 0 then pack32 s 0
      else pack32 s (round_even (2 ^ 52 + m) (926 - e)))"

lemma low_digit: "m < b \<Longrightarrow> (x * b + m) mod b = m" "m < b \<Longrightarrow> (x * b + m) div b = (x :: nat)"
  by simp_all

lemma fields64:
  assumes "s < 2" "e < 2 ^ 11" "m < 2 ^ 52"
  shows "unat (pack64 s e m) div 2 ^ 63 = s"
    and "unat (pack64 s e m) div 2 ^ 52 mod 2 ^ 11 = e"
    and "unat (pack64 s e m) mod 2 ^ 52 = m"
proof -
  have "s * 2 ^ 63 + e * 2 ^ 52 + m < 2 ^ 64"
    using assms by simp
  then have u: "unat (pack64 s e m) = s * 2 ^ 63 + e * 2 ^ 52 + m"
    unfolding pack64_def by (rule unat_of_nat_u64)
  then have v: "unat (pack64 s e m) = (s * 2 ^ 11 + e) * 2 ^ 52 + m" by simp
  show "unat (pack64 s e m) div 2 ^ 63 = s" using assms unfolding u by simp
  show "unat (pack64 s e m) mod 2 ^ 52 = m" using assms(3) unfolding v by (rule low_digit)
  have "unat (pack64 s e m) div 2 ^ 52 = s * 2 ^ 11 + e" using assms(3) unfolding v by (rule low_digit)
  then show "unat (pack64 s e m) div 2 ^ 52 mod 2 ^ 11 = e" using low_digit(1) [OF assms(2), of s] by (simp only:)
qed

lemma round_even_exact: "round_even (x * 2 ^ k) k = x"
  by (simp add: round_even_def)

lemma pack32_fields:
  "pack32 (unat w div 2 ^ 31) (unat w div 2 ^ 23 mod 2 ^ 8 * 2 ^ 23 + unat w mod 2 ^ 23) = w"
proof -
  have "unat w div 2 ^ 31 * 2 ^ 31 + (unat w div 2 ^ 23 mod 2 ^ 8 * 2 ^ 23 + unat w mod 2 ^ 23) = unat w"
  proof -
    have "unat w div 8388608 * 8388608 + unat w mod 8388608 = unat w"
      "unat w div 8388608 div 256 * 256 + unat w div 8388608 mod 256 = unat w div 8388608"
      by (rule div_mult_mod_eq)+
    moreover have "unat w div 2147483648 = unat w div 8388608 div 256"
      using div_mult2_eq [of "unat w" 8388608 256] by simp
    ultimately have "unat w div 2147483648 * 2147483648 + (unat w div 8388608 mod 256 * 8388608 + unat w mod 8388608) = unat w"
      by linarith
    then show ?thesis by (simp only: power_numeral_even power_numeral_odd) simp
  qed
  then show ?thesis unfolding pack32_def by simp
qed

lemma narrow_nan:
  assumes "s < 2" "k < 2 ^ 22"
  shows "double_to_float (pack64 s 2047 (2 ^ 51 + k * 2 ^ 29)) = pack32 s (255 * 2 ^ 23 + (2 ^ 22 + k))"
proof -
  let ?M = "2 ^ 51 + k * 2 ^ 29 :: nat"
  have M: "?M < 2 ^ 52" using assms(2) by simp
  have "?M = (2 ^ 22 + k) * 2 ^ 29 + 0" by simp
  then have "?M div 2 ^ 29 = 2 ^ 22 + k"
    by (simp only: low_digit(2) [of 0 "2 ^ 29"] zero_less_power zero_less_numeral)
  then have "?M div 2 ^ 29 mod 2 ^ 22 = k" using assms(2) by simp
  with fields64 [OF assms(1) _ M, of 2047] show ?thesis
    unfolding double_to_float_def Let_def by simp
qed

lemma widen_nan:
  assumes "s < 2" "k < 2 ^ 22"
  shows "float_to_double (pack32 s (255 * 2 ^ 23 + (2 ^ 22 + k))) = pack64 s 2047 (2 ^ 51 + k * 2 ^ 29)"
proof -
  let ?w = "pack32 s (255 * 2 ^ 23 + (2 ^ 22 + k))"
  have "s * 2 ^ 31 + (255 * 2 ^ 23 + (2 ^ 22 + k)) < 2 ^ 32" using assms by simp
  then have "unat ?w = s * 2 ^ 31 + (255 * 2 ^ 23 + (2 ^ 22 + k))"
    unfolding pack32_def by (rule unat_of_nat_u32)
  then have u: "unat ?w = (s * 2 ^ 8 + 255) * 2 ^ 23 + (2 ^ 22 + k)" by simp
  have m: "2 ^ 22 + k < 2 ^ 23" using assms(2) by simp
  have d: "unat ?w div 2 ^ 23 = s * 2 ^ 8 + 255" unfolding u by (rule low_digit [OF m])
  have "unat ?w mod 2 ^ 23 = 2 ^ 22 + k" unfolding u by (rule low_digit [OF m])
  moreover have "unat ?w div 2 ^ 23 mod 2 ^ 8 = 255" unfolding d by (rule low_digit) simp
  moreover have "unat ?w div 2 ^ 31 = s"
    using div_mult2_eq [of "unat ?w" "2 ^ 23" "2 ^ 8"] d by simp
  moreover have "(2 ^ 22 + k) mod 2 ^ 22 = k" using assms(2) by simp
  ultimately show ?thesis unfolding float_to_double_def Let_def by (simp only: if_True refl) simp
qed

lemma narrow_normal:
  assumes "s < 2" "m < 2 ^ 23" "0 < e" "e < 255"
  shows "double_to_float (pack64 s (e + 896) (m * 2 ^ 29)) = pack32 s (e * 2 ^ 23 + m)"
proof -
  have M: "m * 2 ^ 29 < 2 ^ 52" using assms(2) by simp
  have "2 ^ 52 + m * 2 ^ 29 = (2 ^ 23 + m) * 2 ^ 29" by simp
  then have "round_even (2 ^ 52 + m * 2 ^ 29) 29 = 2 ^ 23 + m"
    by (simp only: round_even_exact)
  then show ?thesis
    using fields64 [OF assms(1) _ M, of "e + 896"] assms(2-4) unfolding double_to_float_def Let_def
    by (simp add: algebra_simps)
qed

lemma narrow_subnormal:
  assumes "s < 2" "0 < m" "m < 2 ^ 23" and k: "k = floorlog 2 m - 1"
  shows "double_to_float (pack64 s (874 + k) ((m - 2 ^ k) * 2 ^ (52 - k))) = pack32 s m"
proof -
  let ?M = "(m - 2 ^ k) * 2 ^ (52 - k)"
  have l: "2 ^ k \<le> m" "m < 2 ^ Suc k"
    using floorlog_bounds [of m 2] assms(2) floorlog_ge_SucI [of 2 0 m] by (auto simp: k)
  from l(1) assms(3) have "(2::nat) ^ k < 2 ^ 23" by (rule le_less_trans)
  then have k22: "k \<le> 22" by (simp del: power_numeral)
  have p: "2 ^ k * 2 ^ (52 - k) = (2 ^ 52 :: nat)" using k22 by (simp flip: power_add)
  have "?M < 2 ^ k * 2 ^ (52 - k)" using l by (intro mult_strict_right_mono) auto
  then have M: "?M < 2 ^ 52" by (simp only: p)
  have "2 ^ 52 + ?M = 2 ^ k * 2 ^ (52 - k) + ?M" by (simp only: p)
  also have "\<dots> = m * 2 ^ (52 - k)" using l(1) by (simp flip: add_mult_distrib)
  finally have "round_even (2 ^ 52 + ?M) (926 - (874 + k)) = m"
    using round_even_exact [of m "52 - k"] by simp
  then show ?thesis
    using fields64 [OF assms(1) _ M, of "874 + k"] k22 unfolding double_to_float_def Let_def by simp
qed

text \<open>
  Narrowing undoes widening on every pattern but those of the signalling NaNs, which come
  out quiet.
\<close>

definition signalling_nan :: "u32 \<Rightarrow> bool" where
  "signalling_nan w \<longleftrightarrow>
     unat w div 2 ^ 23 mod 2 ^ 8 = 255 \<and> unat w mod 2 ^ 23 \<noteq> 0 \<and> unat w mod 2 ^ 23 < 2 ^ 22"

lemma double_to_float_to_double:
  assumes "\<not> signalling_nan w"
  shows "double_to_float (float_to_double w) = w"
proof -
  define s e m where "s = unat w div 2 ^ 31" and "e = unat w div 2 ^ 23 mod 2 ^ 8"
    and "m = unat w mod 2 ^ 23"
  note sem = s_def [symmetric] e_def [symmetric] m_def [symmetric]
  have w: "pack32 s (e * 2 ^ 23 + m) = w"
    unfolding s_def e_def m_def by (rule pack32_fields)
  have s: "s < 2" using unat_u32_less [of w] unfolding s_def by (intro less_mult_imp_div_less) simp
  have e: "e < 256" and m: "m < 2 ^ 23" by (simp_all add: e_def m_def)
  note f = float_to_double_def [of w, unfolded Let_def sem]
  consider (nan) "e = 255" "m \<noteq> 0" | (inf) "e = 255" "m = 0" | (zero) "e = 0" "m = 0"
    | (sub) "e = 0" "0 < m" | (normal) "0 < e" "e < 255"
    using e by linarith
  then show ?thesis
  proof cases
    case nan
    with assms have "2 ^ 22 \<le> m" unfolding signalling_nan_def sem by simp
    with m have q: "m = 2 ^ 22 + m mod 2 ^ 22" using low_digit(1) [of "m - 2 ^ 22" "2 ^ 22" 1] by simp
    have "m mod 2 ^ 22 < 2 ^ 22" by simp
    from narrow_nan [OF s this] nan have "double_to_float (float_to_double w)
        = pack32 s (255 * 2 ^ 23 + (2 ^ 22 + m mod 2 ^ 22))" unfolding f by simp
    with w nan show ?thesis by (simp only: q [symmetric])
  next
    case inf
    with fields64 [of s 2047 0] s w show ?thesis unfolding f double_to_float_def Let_def by simp
  next
    case zero
    with fields64 [of s 0 0] s w show ?thesis unfolding f double_to_float_def Let_def by simp
  next
    case sub
    with narrow_subnormal [OF s _ m refl] w show ?thesis unfolding f Let_def by simp
  next
    case normal
    with narrow_normal [OF s m normal] w show ?thesis unfolding f by simp
  qed
qed

lemma float_to_double_stable:
  "float_to_double (double_to_float (float_to_double w)) = float_to_double w"
proof (cases "signalling_nan w")
  case True
  let ?s = "unat w div 2 ^ 31" and ?k = "unat w mod 2 ^ 23 mod 2 ^ 22"
  have s: "?s < 2" using unat_u32_less [of w] by (intro less_mult_imp_div_less) simp
  have k: "?k < 2 ^ 22" by simp
  have f: "float_to_double w = pack64 ?s 2047 (2 ^ 51 + ?k * 2 ^ 29)"
    using True unfolding float_to_double_def signalling_nan_def Let_def by (simp only: if_True if_False refl)
  show ?thesis unfolding f narrow_nan [OF s k] widen_nan [OF s k] ..
qed (simp add: double_to_float_to_double)

end
