(* ===== verification/Field_Table.thy ===== *)
theory Field_Table
  imports Wire_Buffer Float_Bits
begin

text \<open>
  Typed field values and field tables: struct \<open>FieldValue\<close> with its factories, and the
  recursive readers and writers of class \<open>Buffer\<close> (\<open>src/amqp/types.h\<close>). The readers carry a
  fuel argument; the fuel the entry points pass is always enough.
\<close>

section \<open>Field values\<close>

text \<open>
  The struct has one member per representation and a tag; \<open>int_val\<close> is the two's complement
  pattern of the \<open>int64_t\<close>, \<open>double_val\<close> the bit pattern of the \<open>double\<close>. A shared pointer to
  a table or an array is an option; nested tables are never written through it.
\<close>

datatype FieldValue = FieldValue
  (type_tag: char)
  (bool_val: bool)
  (int_val: u64)
  (double_val: u64)
  (string_val: string)
  (table_val: "(string \<times> FieldValue) list option")
  (array_val: "FieldValue list option")

type_synonym FieldTable = "(string \<times> FieldValue) list"
type_synonym FieldArray = "FieldValue list"

definition boolean :: "bool \<Rightarrow> FieldValue" where
  "boolean v = FieldValue CHR ''t'' v 0 0 [] None None"

definition intVal :: "char \<Rightarrow> u64 \<Rightarrow> FieldValue" where
  "intVal t v = FieldValue t False v 0 [] None None"

definition shortShortInt :: "byte \<Rightarrow> FieldValue" where
  "shortShortInt v = intVal CHR ''b'' (scast v)"

definition shortShortUint :: "byte \<Rightarrow> FieldValue" where
  "shortShortUint v = intVal CHR ''B'' (ucast v)"

definition shortInt :: "u16 \<Rightarrow> FieldValue" where
  "shortInt v = intVal CHR ''U'' (scast v)"

definition shortUint :: "u16 \<Rightarrow> FieldValue" where
  "shortUint v = intVal CHR ''u'' (ucast v)"

definition longInt :: "u32 \<Rightarrow> FieldValue" where
  "longInt v = intVal CHR ''I'' (scast v)"

definition longUint :: "u32 \<Rightarrow> FieldValue" where
  "longUint v = intVal CHR ''i'' (ucast v)"

definition longLongInt :: "u64 \<Rightarrow> FieldValue" where
  "longLongInt v = intVal CHR ''L'' v"

definition longLongUint :: "u64 \<Rightarrow> FieldValue" where
  "longLongUint v = intVal CHR ''l'' v"

definition timestamp :: "u64 \<Rightarrow> FieldValue" where
  "timestamp v = intVal CHR ''T'' v"

definition floatVal :: "u32 \<Rightarrow> FieldValue" where
  "floatVal v = FieldValue CHR ''f'' False 0 (float_to_double v) [] None None"

definition doubleVal :: "u64 \<Rightarrow> FieldValue" where
  "doubleVal v = FieldValue CHR ''d'' False 0 v [] None None"

definition shortString :: "string \<Rightarrow> FieldValue" where
  "shortString s = FieldValue CHR ''s'' False 0 0 s None None"

definition longString :: "string \<Rightarrow> FieldValue" where
  "longString s = FieldValue CHR ''S'' False 0 0 s None None"

definition tableVal :: "FieldTable \<Rightarrow> FieldValue" where
  "tableVal t = FieldValue CHR ''F'' False 0 0 [] (Some t) None"

definition arrayVal :: "FieldArray \<Rightarrow> FieldValue" where
  "arrayVal a = FieldValue CHR ''A'' False 0 0 [] None (Some a)"

definition voidVal :: FieldValue where
  "voidVal = FieldValue CHR ''V'' False 0 0 [] None None"

lemmas factory_defs = boolean_def intVal_def shortShortInt_def shortShortUint_def shortInt_def
  shortUint_def longInt_def longUint_def longLongInt_def longLongUint_def timestamp_def
  floatVal_def doubleVal_def shortString_def longString_def tableVal_def arrayVal_def voidVal_def

section \<open>Reading\<close>

definition MAX_FIELD_TABLE_DEPTH :: nat where
  "MAX_FIELD_TABLE_DEPTH = 32"

text \<open>The cases of the switch that do not recurse, the default branch included.\<close>

definition readScalarValue :: "char \<Rightarrow> Buffer \<Rightarrow> amqp_error + FieldValue \<times> Buffer" where
  "readScalarValue tag b =
     (if tag = CHR ''t'' then mapR (\<lambda>v. boolean (v \<noteq> 0)) (readUint8 b)
      else if tag = CHR ''b'' then mapR shortShortInt (readInt8 b)
      else if tag = CHR ''B'' then mapR shortShortUint (readUint8 b)
      else if tag = CHR ''U'' then mapR shortInt (readInt16 b)
      else if tag = CHR ''u'' then mapR shortUint (readUint16 b)
      else if tag = CHR ''I'' then mapR longInt (readInt32 b)
      else if tag = CHR ''i'' then mapR longUint (readUint32 b)
      else if tag = CHR ''L'' then mapR longLongInt (readInt64 b)
      else if tag = CHR ''l'' then mapR longLongUint (readUint64 b)
      else if tag = CHR ''f'' then mapR floatVal (readUint32 b)
      else if tag = CHR ''d'' then mapR doubleVal (readUint64 b)
      else if tag = CHR ''s'' then mapR shortString (readShortString b)
      else if tag = CHR ''S'' then mapR longString (readLongString b)
      else if tag = CHR ''T'' then mapR timestamp (readUint64 b)
      else if tag = CHR ''V'' then Inr (voidVal, b)
      else Inl (UnknownFieldType tag))"

function (sequential) readFieldTable' :: "nat \<Rightarrow> nat \<Rightarrow> Buffer \<Rightarrow> amqp_error + FieldTable \<times> Buffer"
and tableLoop :: "nat \<Rightarrow> nat \<Rightarrow> nat \<Rightarrow> FieldTable \<Rightarrow> Buffer \<Rightarrow> amqp_error + FieldTable \<times> Buffer"
and readFieldValue' :: "nat \<Rightarrow> nat \<Rightarrow> Buffer \<Rightarrow> amqp_error + FieldValue \<times> Buffer"
and arrayLoop :: "nat \<Rightarrow> nat \<Rightarrow> nat \<Rightarrow> FieldArray \<Rightarrow> Buffer \<Rightarrow> amqp_error + FieldArray \<times> Buffer"
where
  "readFieldTable' 0 depth b = Inl FuelExhausted"
| "readFieldTable' (Suc n) depth b =
     (if depth > MAX_FIELD_TABLE_DEPTH then Inl FieldTableDepth
      else bindE (readUint32 b) (\<lambda>(tableLen, b). tableLoop n depth (bpos b + unat tableLen) [] b))"
| "tableLoop 0 depth stop table b = Inl FuelExhausted"
| "tableLoop (Suc n) depth stop table b =
     (if bpos b < stop then
        bindE (readShortString b) (\<lambda>(name, b).
        bindE (readFieldValue' n depth b) (\<lambda>(val, b).
        tableLoop n depth stop (map_emplace name val table) b))
      else Inr (table, b))"
| "readFieldValue' 0 depth b = Inl FuelExhausted"
| "readFieldValue' (Suc n) depth b =
     bindE (readUint8 b) (\<lambda>(t, b).
       if (char_of (unat t) :: char) = CHR ''F'' then mapR tableVal (readFieldTable' n (depth + 1) b)
       else if (char_of (unat t) :: char) = CHR ''A'' then
         (if depth > MAX_FIELD_TABLE_DEPTH then Inl FieldTableDepth
          else bindE (readUint32 b) (\<lambda>(arrLen, b).
            mapR arrayVal (arrayLoop n depth (bpos b + unat arrLen) [] b)))
       else readScalarValue (char_of (unat t)) b)"
| "arrayLoop 0 depth stop arr b = Inl FuelExhausted"
| "arrayLoop (Suc n) depth stop arr b =
     (if bpos b < stop then
        bindE (readFieldValue' n (depth + 1) b) (\<lambda>(v, b). arrayLoop n depth stop (arr @ [v]) b)
      else Inr (arr, b))"
  by pat_completeness auto
termination
  by (relation "measure (case_sum (case_sum (\<lambda>(n, _). n) (\<lambda>(n, _). n))
     (case_sum (\<lambda>(n, _). n) (\<lambda>(n, _). n)))") auto

text \<open>Every level of recursion consumes a byte, so the length of the vector bounds the fuel.\<close>

definition readFieldTable :: "Buffer \<Rightarrow> amqp_error + FieldTable \<times> Buffer" where
  "readFieldTable b = readFieldTable' (length (bdata b) + 2) 0 b"

definition readFieldValue :: "nat \<Rightarrow> Buffer \<Rightarrow> amqp_error + FieldValue \<times> Buffer" where
  "readFieldValue depth b = readFieldValue' (length (bdata b) + 2) depth b"

section \<open>Writing\<close>

definition writeScalarValue :: "FieldValue \<Rightarrow> Buffer \<Rightarrow> Buffer" where
  "writeScalarValue v b =
     (if type_tag v = CHR ''t'' then writeUint8 (if bool_val v then 1 else 0) b
      else if type_tag v = CHR ''b'' then writeInt8 (ucast (int_val v)) b
      else if type_tag v = CHR ''B'' then writeUint8 (ucast (int_val v)) b
      else if type_tag v = CHR ''U'' then writeInt16 (ucast (int_val v)) b
      else if type_tag v = CHR ''u'' then writeUint16 (ucast (int_val v)) b
      else if type_tag v = CHR ''I'' then writeInt32 (ucast (int_val v)) b
      else if type_tag v = CHR ''i'' then writeUint32 (ucast (int_val v)) b
      else if type_tag v = CHR ''L'' then writeInt64 (int_val v) b
      else if type_tag v = CHR ''l'' then writeUint64 (int_val v) b
      else if type_tag v = CHR ''f'' then writeUint32 (double_to_float (double_val v)) b
      else if type_tag v = CHR ''d'' then writeUint64 (double_val v) b
      else if type_tag v = CHR ''s'' then writeShortString (string_val v) b
      else if type_tag v = CHR ''S'' then writeLongString (string_val v) b
      else if type_tag v = CHR ''T'' then writeUint64 (int_val v) b
      else b)"

text \<open>An inner buffer is written first, then its length and its bytes.\<close>

definition writeSized :: "Buffer \<Rightarrow> Buffer \<Rightarrow> Buffer" where
  "writeSized inner b =
     writeBytes (bdata inner) (writeUint32 (word_of_nat (length (bdata inner))) b)"

function (sequential) writeEntries :: "FieldTable \<Rightarrow> Buffer \<Rightarrow> Buffer"
and writeFieldValue :: "FieldValue \<Rightarrow> Buffer \<Rightarrow> Buffer"
and writeElems :: "FieldArray \<Rightarrow> Buffer \<Rightarrow> Buffer"
where
  "writeEntries [] b = b"
| "writeEntries ((name, val) # table) b =
     writeEntries table (writeFieldValue val (writeShortString name b))"
| "writeFieldValue (FieldValue tag bv iv dv sv tv av) b =
     (if tag = CHR ''F'' then
        writeSized (writeEntries (case tv of Some t \<Rightarrow> t | None \<Rightarrow> []) (Buffer_of []))
          (writeUint8 (word_of_nat (of_char tag)) b)
      else if tag = CHR ''A'' then
        writeSized (writeElems (case av of Some a \<Rightarrow> a | None \<Rightarrow> []) (Buffer_of []))
          (writeUint8 (word_of_nat (of_char tag)) b)
      else writeScalarValue (FieldValue tag bv iv dv sv tv av)
             (writeUint8 (word_of_nat (of_char tag)) b))"
| "writeElems [] b = b"
| "writeElems (v # vs) b = writeElems vs (writeFieldValue v b)"
  by pat_completeness auto
termination
  by (relation "measure (case_sum (\<lambda>(t, _). size_list (size_prod (\<lambda>_. 0) size) t)
     (case_sum (\<lambda>(v, _). size v) (\<lambda>(a, _). size_list size a)))")
    (auto split: option.splits)

definition writeFieldTable :: "FieldTable \<Rightarrow> Buffer \<Rightarrow> Buffer" where
  "writeFieldTable table b = writeSized (writeEntries table (Buffer_of [])) b"

section \<open>What the writers append\<close>

text \<open>Every write operation appends bytes that do not depend on the buffer's contents.\<close>

definition appends :: "(Buffer \<Rightarrow> Buffer) \<Rightarrow> bool" where
  "appends f \<longleftrightarrow> (\<forall>b. f b = writeBytes (bdata (f (Buffer_of []))) b)"

lemma appends_writeBytes: "appends (writeBytes xs)"
  by (simp add: appends_def writeBytes_def Buffer_of_def)

lemma appends_id: "appends (\<lambda>b. b)"
  by (simp add: appends_def writeBytes_def Buffer_of_def)

lemma appends_cong: "(\<And>b. f b = g b) \<Longrightarrow> appends f = appends g"
  by presburger

lemma appends_if: "appends f \<Longrightarrow> appends g \<Longrightarrow> appends (\<lambda>b. if c then f b else g b)"
  by (cases c) simp_all

lemma appends_comp:
  assumes f: "appends f" and g: "appends g"
  shows "appends (\<lambda>b. f (g b))"
  unfolding appends_def
proof
  fix b
  have "f (g (Buffer_of [])) = writeBytes (bdata (f (Buffer_of []))) (g (Buffer_of []))"
    using f unfolding appends_def by blast
  moreover have "g b = writeBytes (bdata (g (Buffer_of []))) b" for b
    using g unfolding appends_def by blast
  moreover have "f (g b) = writeBytes (bdata (f (Buffer_of []))) (g b)"
    using f unfolding appends_def by blast
  ultimately show "f (g b) = writeBytes (bdata (f (g (Buffer_of [])))) b"
    by (metis bdata_writeBytes writeBytes_writeBytes)
qed

lemmas appends_rules = appends_if appends_id appends_writeBytes

lemma appends_writeScalarValue: "appends (writeScalarValue v)"
  unfolding writeScalarValue_def wire by (intro appends_rules)

lemma appends_writeSized: "appends (writeSized inner)"
  using appends_writeBytes by (simp add: writeSized_def wire cong: appends_cong)

lemma appends_writeEntries:
  "\<forall>p \<in> set t. appends (writeFieldValue (snd p)) \<Longrightarrow> appends (writeEntries t)"
proof (induction t)
  case (Cons p t)
  then have "appends (writeEntries t)" and "appends (writeFieldValue (snd p))" by simp_all
  then have "appends (\<lambda>b. writeEntries t (writeFieldValue (snd p) (writeBytes (enc_short (fst p)) b)))"
    by (rule appends_comp [OF _ appends_comp [OF _ appends_writeBytes]])
  then show ?case by (cases p) (simp add: wire cong: appends_cong)
qed (simp add: appends_id cong: appends_cong)

lemma appends_writeElems:
  "\<forall>v \<in> set a. appends (writeFieldValue v) \<Longrightarrow> appends (writeElems a)"
proof (induction a)
  case (Cons v a)
  then have "appends (writeElems a)" and "appends (writeFieldValue v)" by simp_all
  then have "appends (\<lambda>b. writeElems a (writeFieldValue v b))"
    by (rule appends_comp)
  then show ?case by (simp cong: appends_cong)
qed (simp add: appends_id cong: appends_cong)

lemma appends_writeFieldValue: "appends (writeFieldValue v)"
proof (induction v)
  case (FieldValue tag bv iv dv sv tv av)
  have "appends (\<lambda>b. if tag = CHR ''F'' then
        writeSized (writeEntries (case tv of Some t \<Rightarrow> t | None \<Rightarrow> []) (Buffer_of []))
          (writeBytes [word_of_nat (of_char tag)] b)
      else if tag = CHR ''A'' then
        writeSized (writeElems (case av of Some a \<Rightarrow> a | None \<Rightarrow> []) (Buffer_of []))
          (writeBytes [word_of_nat (of_char tag)] b)
      else writeScalarValue (FieldValue tag bv iv dv sv tv av)
             (writeBytes [word_of_nat (of_char tag)] b))"
    by (intro appends_if appends_comp [OF appends_writeSized] appends_writeBytes
        appends_comp [OF appends_writeScalarValue])
  then show ?case by (simp only: writeFieldValue.simps wire cong: if_cong appends_cong)
qed

definition enc_value :: "FieldValue \<Rightarrow> byte list" where
  "enc_value v = bdata (writeFieldValue v (Buffer_of []))"

definition enc_entries :: "FieldTable \<Rightarrow> byte list" where
  "enc_entries t = bdata (writeEntries t (Buffer_of []))"

definition enc_elems :: "FieldArray \<Rightarrow> byte list" where
  "enc_elems a = bdata (writeElems a (Buffer_of []))"

definition enc_table :: "FieldTable \<Rightarrow> byte list" where
  "enc_table t = enc32 (word_of_nat (length (enc_entries t))) @ enc_entries t"

lemma writeFieldValue_append [wire]: "writeFieldValue v b = writeBytes (enc_value v) b"
  using appends_writeFieldValue [of v] unfolding appends_def enc_value_def by blast

lemma writeEntries_append [wire]: "writeEntries t b = writeBytes (enc_entries t) b"
  using appends_writeEntries [of t] appends_writeFieldValue unfolding appends_def enc_entries_def by blast

lemma writeElems_append [wire]: "writeElems a b = writeBytes (enc_elems a) b"
  using appends_writeElems [of a] appends_writeFieldValue unfolding appends_def enc_elems_def by blast

lemma writeFieldTable_append [wire]: "writeFieldTable t b = writeBytes (enc_table t) b"
  by (simp add: writeFieldTable_def writeSized_def enc_table_def wire Buffer_of_def)

lemma enc_entries_Nil [simp]: "enc_entries [] = []"
  by (simp add: enc_entries_def Buffer_of_def)

lemma enc_entries_Cons [simp]:
  "enc_entries (p # t) = enc_short (fst p) @ enc_value (snd p) @ enc_entries t"
proof (cases p)
  case (Pair name v)
  have "enc_entries ((name, v) # t) = bdata (writeEntries t (writeFieldValue v (writeShortString name (Buffer_of []))))"
    by (simp add: enc_entries_def)
  then show ?thesis by (simp add: Pair wire) (simp add: Buffer_of_def)
qed

lemma enc_elems_Nil [simp]: "enc_elems [] = []"
  by (simp add: enc_elems_def Buffer_of_def)

lemma enc_elems_Cons [simp]: "enc_elems (v # a) = enc_value v @ enc_elems a"
proof -
  have "enc_elems (v # a) = bdata (writeElems a (writeFieldValue v (Buffer_of [])))"
    by (simp add: enc_elems_def)
  then show ?thesis by (simp add: wire) (simp add: Buffer_of_def)
qed

section \<open>The readers stay inside the vector and never run out of fuel\<close>

definition inside_eq :: "Buffer \<Rightarrow> Buffer \<Rightarrow> bool" where
  "inside_eq b b' \<longleftrightarrow> b' = b \<or> inside b b'"

lemma inside_inside_eq: "inside a b \<Longrightarrow> inside_eq b c \<Longrightarrow> inside a c"
  by (auto simp: inside_eq_def intro: inside_trans)

lemma inside_eq_remaining: "inside_eq b b' \<Longrightarrow> remaining b' \<le> remaining b"
  by (auto simp: inside_eq_def dest: inside_remaining)

lemmas rd_insides = r8.rd_inside r16.rd_inside r32.rd_inside r64.rd_inside
  rshort.rd_inside rlong.rd_inside

lemmas rd_errors = r8.rd_error r16.rd_error r32.rd_error r64.rd_error
  rshort.rd_error rlong.rd_error

lemma readScalarValue_inside: "readScalarValue tag b = Inr (v, b') \<Longrightarrow> inside_eq b b'"
  unfolding readScalarValue_def inside_eq_def
  by (auto simp: mapR_Inr_iff dest: rd_insides split: if_split_asm)

lemma readScalarValue_error:
  "readScalarValue tag b = Inl e \<Longrightarrow> e = BufferUnderflow \<or> e = UnknownFieldType tag"
  unfolding readScalarValue_def
  by (auto simp: mapR_Inl_iff dest: rd_errors split: if_split_asm)

lemma readers_inside:
  "readFieldTable' n d b = Inr (t, b') \<Longrightarrow> inside b b'"
  "tableLoop n d stop t b = Inr (t', b') \<Longrightarrow> inside_eq b b'"
  "readFieldValue' n d b = Inr (v, b') \<Longrightarrow> inside b b'"
  "arrayLoop n d stop a b = Inr (a', b') \<Longrightarrow> inside_eq b b'"
proof (induction n d b and n d stop t b and n d b and n d stop a b
    arbitrary: t b' and t' b' and v b' and a' b'
    rule: readFieldTable'_tableLoop_readFieldValue'_arrayLoop.induct)
  case (2 n depth b)
  from "2.prems" obtain len b1 where "\<not> MAX_FIELD_TABLE_DEPTH < depth"
    and r: "readUint32 b = Inr (len, b1)"
    and l: "tableLoop n depth (bpos b1 + unat len) [] b1 = Inr (t, b')"
    by (auto simp: bindE_Inr_iff split: if_splits)
  then have "inside_eq b1 b'" using "2.IH" by auto
  with r32.rd_inside [OF r] show ?case by (rule inside_inside_eq)
next
  case (4 n depth stop table b)
  show ?case
  proof (cases "bpos b < stop")
    case True
    with "4.prems" obtain name b1 val b2 where r: "readShortString b = Inr (name, b1)"
      and v: "readFieldValue' n depth b1 = Inr (val, b2)"
      and l: "tableLoop n depth stop (map_emplace name val table) b2 = Inr (t', b')"
      by (auto simp: bindE_Inr_iff)
    have "inside b1 b2" "inside_eq b2 b'" using "4.IH" True r v l by auto
    with rshort.rd_inside [OF r] show ?thesis
      by (auto simp: inside_eq_def intro: inside_trans)
  qed (use "4.prems" in \<open>simp add: inside_eq_def\<close>)
next
  case (6 n depth b)
  from "6.prems" obtain t b1 where r: "readUint8 b = Inr (t, b1)"
    by (auto simp: bindE_Inr_iff)
  note b1 = r8.rd_inside [OF r]
  consider (table) "char_of (unat t) = CHR ''F''" | (arr) "char_of (unat t) = CHR ''A''"
    | (scalar) "char_of (unat t) \<noteq> CHR ''F''" "char_of (unat t) \<noteq> CHR ''A''" by blast
  then have "inside_eq b1 b'"
  proof cases
    case table
    with "6.prems" r obtain x where "readFieldTable' n (depth + 1) b1 = Inr (x, b')"
      by (auto simp: mapR_Inr_iff)
    then have "inside b1 b'" using "6.IH"(1) [OF r] table by blast
    then show ?thesis by (simp add: inside_eq_def)
  next
    case arr
    with "6.prems" r obtain len b2 a where "\<not> MAX_FIELD_TABLE_DEPTH < depth"
      and r2: "readUint32 b1 = Inr (len, b2)"
      and "arrayLoop n depth (bpos b2 + unat len) [] b2 = Inr (a, b')"
      by (auto simp: mapR_Inr_iff bindE_Inr_iff split: if_splits)
    then have "inside_eq b2 b'" using "6.IH"(2) r arr by auto
    with r32.rd_inside [OF r2] show ?thesis by (auto simp: inside_eq_def intro: inside_trans)
  next
    case scalar
    with "6.prems" r show ?thesis by (auto dest: readScalarValue_inside)
  qed
  with b1 show ?case by (rule inside_inside_eq)
next
  case (8 n depth stop arr b)
  show ?case
  proof (cases "bpos b < stop")
    case True
    with "8.prems" obtain val b2 where v: "readFieldValue' n (depth + 1) b = Inr (val, b2)"
      and l: "arrayLoop n depth stop (arr @ [val]) b2 = Inr (a', b')"
      by (auto simp: bindE_Inr_iff)
    have "inside b b2" "inside_eq b2 b'" using "8.IH" True v l by auto
    then show ?thesis by (auto simp: inside_eq_def intro: inside_trans)
  qed (use "8.prems" in \<open>simp add: inside_eq_def\<close>)
qed simp_all

lemma fuel_enough:
  "remaining b < n \<Longrightarrow> readFieldTable' n d b \<noteq> Inl FuelExhausted"
  "remaining b < n \<Longrightarrow> tableLoop n d stop t b \<noteq> Inl FuelExhausted"
  "remaining b < n \<Longrightarrow> readFieldValue' n d b \<noteq> Inl FuelExhausted"
  "remaining b + 1 < n \<Longrightarrow> arrayLoop n d stop a b \<noteq> Inl FuelExhausted"
proof (induction n d b and n d stop t b and n d b and n d stop a b
    rule: readFieldTable'_tableLoop_readFieldValue'_arrayLoop.induct)
  case (2 n depth b)
  show ?case
  proof (cases "readUint32 b")
    case (Inr r)
    then obtain len b1 where r: "readUint32 b = Inr (len, b1)" by (cases r) auto
    from r32.rd_progress [OF r] "2.prems" have "remaining b1 < n" by simp
    with "2.IH" r show ?thesis by auto
  qed (auto dest: r32.rd_error)
next
  case (4 n depth stop table b)
  show ?case
  proof
    assume "tableLoop (Suc n) depth stop table b = Inl FuelExhausted"
    then obtain name b1 where "bpos b < stop" and r: "readShortString b = Inr (name, b1)"
      and l: "bindE (readFieldValue' n depth b1) (\<lambda>(val, b).
        tableLoop n depth stop (map_emplace name val table) b) = Inl FuelExhausted"
      by (auto simp: bindE_Inl_iff split: if_splits dest: rshort.rd_error)
    moreover from rshort.rd_progress [OF r] "4.prems" have b1: "remaining b1 < n" by simp
    moreover have "remaining b2 < n" if "readFieldValue' n depth b1 = Inr (val, b2)" for val b2
      using inside_remaining [OF readers_inside(3) [OF that]] b1 by simp
    ultimately show False using "4.IH" by (auto simp: bindE_Inl_iff)
  qed
next
  case (6 n depth b)
  show ?case
  proof
    assume e: "readFieldValue' (Suc n) depth b = Inl FuelExhausted"
    then obtain t b1 where r: "readUint8 b = Inr (t, b1)"
      by (cases "readUint8 b") (auto dest: r8.rd_error)
    from r8.rd_progress [OF r] "6.prems" have b1: "remaining b1 < n" by simp
    with e "6.IH"(1) [OF r] r have "char_of (unat t) \<noteq> CHR ''F''"
      by (auto simp: mapR_Inl_iff)
    moreover from e r have "char_of (unat t) = CHR ''F'' \<or> char_of (unat t) = CHR ''A''"
      by (auto split: if_splits dest: readScalarValue_error)
    ultimately have A: "char_of (unat t) = CHR ''A''" by blast
    with e r obtain len b2 where r2: "readUint32 b1 = Inr (len, b2)"
      and d: "\<not> MAX_FIELD_TABLE_DEPTH < depth"
      and l: "arrayLoop n depth (bpos b2 + unat len) [] b2 = Inl FuelExhausted"
      by (auto simp: bindE_Inl_iff mapR_Inl_iff split: if_splits dest: r32.rd_error)
    from r32.rd_progress [OF r2] b1 have "remaining b2 + 1 < n" by simp
    with "6.IH"(2) [OF r] A d r2 l show False by auto
  qed
next
  case (8 n depth stop arr b)
  then have b: "remaining b < n" by simp
  have "remaining b2 + 1 < n" if "readFieldValue' n (depth + 1) b = Inr (val, b2)" for val b2
    using inside_remaining [OF readers_inside(3) [OF that]] "8.prems" by simp
  with "8.IH" b show ?case by (auto simp: bindE_Inl_iff)
qed simp_all

lemma readFieldTable_inside: "readFieldTable b = Inr (t, b') \<Longrightarrow> inside b b'"
  unfolding readFieldTable_def by (rule readers_inside)

end
