(* ===== verification/Exchange.thy ===== *)
theory Exchange
  imports Field_Table
begin

text \<open>
  Exchanges (\<open>broker/exchange.h\<close>): the binding table of an exchange and the routing of
  the four exchange types. The subclasses of \<open>Exchange\<close> differ in \<open>route\<close> only, so the
  dynamic class of an object is the field \<open>ex_kind\<close>. Topic matching is the in-place dynamic
  programming of the code over a bit vector; it is compared with an inductive definition of
  what \<open>*\<close> and \<open>#\<close> mean.
\<close>

section \<open>Bindings and exchanges\<close>

record Binding =
  queue_name :: string
  b_routing_key :: string
  b_arguments :: FieldTable

datatype ExchangeKind = DirectExchange | FanoutExchange | TopicExchange | HeadersExchange

record Exchange =
  ex_name :: string
  ex_type :: string
  ex_durable :: bool
  ex_auto_delete :: bool
  ex_internal :: bool
  ex_arguments :: FieldTable
  ex_kind :: ExchangeKind
  ex_bindings :: "Binding list"

definition addBinding :: "string \<Rightarrow> string \<Rightarrow> FieldTable \<Rightarrow> Exchange \<Rightarrow> Exchange" where
  "addBinding queue key args ex =
     ex\<lparr>ex_bindings := ex_bindings ex @
           [\<lparr>queue_name = queue, b_routing_key = key, b_arguments = args\<rparr>]\<rparr>"

text \<open>\<open>removeBinding\<close> erases by queue and routing key; its third parameter is unused.\<close>

definition removeBinding :: "string \<Rightarrow> string \<Rightarrow> FieldTable \<Rightarrow> Exchange \<Rightarrow> Exchange" where
  "removeBinding queue key args ex =
     ex\<lparr>ex_bindings := filter (\<lambda>b. \<not> (queue_name b = queue \<and> b_routing_key b = key))
                             (ex_bindings ex)\<rparr>"

definition getBindings :: "Exchange \<Rightarrow> Binding list" where
  "getBindings ex = ex_bindings ex"

section \<open>Direct and fanout routing\<close>

definition routeDirect :: "Binding list \<Rightarrow> string \<Rightarrow> FieldTable option \<Rightarrow> string list" where
  "routeDirect bs key hs =
     fold (\<lambda>b result. if b_routing_key b = key then result @ [queue_name b] else result) bs []"

definition routeFanout :: "Binding list \<Rightarrow> string \<Rightarrow> FieldTable option \<Rightarrow> string list" where
  "routeFanout bs key hs = fold (\<lambda>b result. result @ [queue_name b]) bs []"

section \<open>Topic routing\<close>

function splitLoop :: "string \<Rightarrow> nat \<Rightarrow> nat \<Rightarrow> string list \<Rightarrow> string list" where
  "splitLoop s i start parts =
     (if i > length s then parts
      else if i = length s \<or> s ! i = CHR ''.''
      then splitLoop s (i + 1) (i + 1) (parts @ [take (i - start) (drop start s)])
      else splitLoop s (i + 1) start parts)"
  by pat_completeness auto
termination
  by (relation "measure (\<lambda>(s, i, _, _). length s + 1 - i)") auto

declare splitLoop.simps [simp del]

definition splitDot :: "string \<Rightarrow> string list" where
  "splitDot s = splitLoop s 0 0 []"

text \<open>The two inner loops of \<open>topicMatch\<close>: \<open>#\<close> left to right, a word right to left.\<close>

definition hashLoop :: "nat \<Rightarrow> bool list \<Rightarrow> bool list" where
  "hashLoop K dp = fold (\<lambda>j dp. dp[j := dp ! j \<or> dp ! (j - 1)]) [1..<K + 1] dp"

definition wordLoop :: "string \<Rightarrow> string list \<Rightarrow> bool list \<Rightarrow> bool list" where
  "wordLoop w kp dp =
     fold (\<lambda>j dp. dp[j := dp ! (j - 1) \<and> (w = ''*'' \<or> w = kp ! (j - 1))])
       (rev [1..<length kp + 1]) dp"

definition topicStep :: "string list \<Rightarrow> string \<Rightarrow> bool list \<Rightarrow> bool list" where
  "topicStep kp w dp =
     (if w = ''#'' then hashLoop (length kp) dp else (wordLoop w kp dp)[0 := False])"

definition topicMatch :: "string \<Rightarrow> string \<Rightarrow> bool" where
  "topicMatch pattern key =
     (let pat = splitDot pattern;
          kp = splitDot key;
          dp = (replicate (length kp + 1) False)[0 := True]
      in fold (topicStep kp) pat dp ! length kp)"

definition routeTopic :: "Binding list \<Rightarrow> string \<Rightarrow> FieldTable option \<Rightarrow> string list" where
  "routeTopic bs key hs =
     fold (\<lambda>b result. if topicMatch (b_routing_key b) key then result @ [queue_name b]
                      else result) bs []"

section \<open>Headers routing\<close>

definition starts_with :: "string \<Rightarrow> string \<Rightarrow> bool" where
  "starts_with s p \<longleftrightarrow> take (length p) s = p"

fun matchLoop :: "bool \<Rightarrow> FieldTable \<Rightarrow> FieldTable \<Rightarrow> bool" where
  "matchLoop matchAll [] msgHeaders = matchAll"
| "matchLoop matchAll ((name, val) # bindArgs) msgHeaders =
     (if starts_with name ''x-'' then matchLoop matchAll bindArgs msgHeaders
      else let found = (map_of msgHeaders name \<noteq> None) in
        if matchAll \<and> \<not> found then False
        else if \<not> matchAll \<and> found then True
        else matchLoop matchAll bindArgs msgHeaders)"

definition matchHeaders :: "FieldTable \<Rightarrow> FieldTable \<Rightarrow> bool" where
  "matchHeaders bindArgs msgHeaders =
     (let matchAll = (case map_of bindArgs ''x-match'' of
                        None \<Rightarrow> True
                      | Some v \<Rightarrow> \<not> string_val v = ''any'')
      in matchLoop matchAll bindArgs msgHeaders)"

definition routeHeaders :: "Binding list \<Rightarrow> string \<Rightarrow> FieldTable option \<Rightarrow> string list" where
  "routeHeaders bs key hs =
     (case hs of
        None \<Rightarrow> []
      | Some h \<Rightarrow> fold (\<lambda>b result. if matchHeaders (b_arguments b) h
                                 then result @ [queue_name b] else result) bs [])"

section \<open>Dispatch on the class, creation by type name\<close>

definition route :: "Exchange \<Rightarrow> string \<Rightarrow> FieldTable option \<Rightarrow> string list" where
  "route ex key hs =
     (case ex_kind ex of
        DirectExchange \<Rightarrow> routeDirect (ex_bindings ex) key hs
      | FanoutExchange \<Rightarrow> routeFanout (ex_bindings ex) key hs
      | TopicExchange \<Rightarrow> routeTopic (ex_bindings ex) key hs
      | HeadersExchange \<Rightarrow> routeHeaders (ex_bindings ex) key hs)"

definition createExchange :: "string \<Rightarrow> Exchange" where
  "createExchange type =
     (let kind = (if type = ''direct'' then DirectExchange
                  else if type = ''fanout'' then FanoutExchange
                  else if type = ''topic'' then TopicExchange
                  else if type = ''headers'' then HeadersExchange
                  else DirectExchange)
      in \<lparr>ex_name = [], ex_type = type, ex_durable = False, ex_auto_delete = False,
          ex_internal = False, ex_arguments = [], ex_kind = kind, ex_bindings = []\<rparr>)"

section \<open>Splitting a routing key\<close>

fun join_dot :: "string list \<Rightarrow> string" where
  "join_dot [] = []"
| "join_dot [w] = w"
| "join_dot (w # v # ws) = w @ CHR ''.'' # join_dot (v # ws)"

text \<open>\<open>split_words\<close> is the structural reference of the index loop.\<close>

fun split_words :: "string \<Rightarrow> string \<Rightarrow> string list" where
  "split_words w [] = [w]"
| "split_words w (c # s) =
     (if c = CHR ''.'' then w # split_words [] s else split_words (w @ [c]) s)"

lemma splitLoop_split_words:
  "start \<le> i \<Longrightarrow> i \<le> length s \<Longrightarrow>
   splitLoop s i start parts =
     parts @ split_words (take (i - start) (drop start s)) (drop i s)"
proof (induction s i start parts rule: splitLoop.induct)
  case (1 s i start parts)
  have step: "take (Suc i - start) (drop start s) = take (i - start) (drop start s) @ [s ! i]"
    if "i < length s" using that 1 by (simp add: Suc_diff_le take_Suc_conv_app_nth)
  show ?case
  proof (cases "i = length s")
    case True
    then show ?thesis using 1 by (subst splitLoop.simps) (simp add: splitLoop.simps)
  next
    case False
    then have d: "drop i s = s ! i # drop (Suc i) s" using 1 by (simp add: Cons_nth_drop_Suc)
    show ?thesis using 1 False step
      by (subst splitLoop.simps) (auto simp: d)
  qed
qed

lemma splitDot_split_words: "splitDot s = split_words [] s"
  by (simp add: splitDot_def splitLoop_split_words)

lemma split_words_dotfree: "CHR ''.'' \<notin> set w \<Longrightarrow> split_words v w = [v @ w]"
  by (induction w arbitrary: v) auto

lemma split_words_append_dot:
  "CHR ''.'' \<notin> set w \<Longrightarrow> split_words v (w @ CHR ''.'' # s) = (v @ w) # split_words [] s"
  by (induction w arbitrary: v) auto

lemma split_words_join:
  "ws \<noteq> [] \<Longrightarrow> (\<forall>w \<in> set ws. CHR ''.'' \<notin> set w) \<Longrightarrow> split_words [] (join_dot ws) = ws"
  by (induction ws rule: join_dot.induct) (auto simp: split_words_dotfree split_words_append_dot)

lemma split_words_nonempty [simp]: "split_words w s \<noteq> []"
  by (induction s arbitrary: w) auto

lemma join_split_words: "join_dot (split_words w s) = w @ s"
proof (induction s arbitrary: w)
  case (Cons c s)
  then show ?case
    by (cases "split_words [] s") (auto, metis append_Nil)
qed simp

lemma split_words_no_dot:
  "CHR ''.'' \<notin> set w \<Longrightarrow> v \<in> set (split_words w s) \<Longrightarrow> CHR ''.'' \<notin> set v"
  by (induction s arbitrary: w) (fastforce split: if_splits)+

section \<open>What a topic pattern means\<close>

inductive topic_matches :: "string list \<Rightarrow> string list \<Rightarrow> bool" where
  matched: "topic_matches [] []"
| hash: "topic_matches ps (drop n ks) \<Longrightarrow> topic_matches (''#'' # ps) ks"
| word: "p \<noteq> ''#'' \<Longrightarrow> p = ''*'' \<or> p = k \<Longrightarrow> topic_matches ps ks \<Longrightarrow>
         topic_matches (p # ps) (k # ks)"

inductive_simps topic_matches_Nil [simp]: "topic_matches [] ks"
inductive_simps topic_matches_Cons: "topic_matches (p # ps) ks"

text \<open>
  The loop extends the pattern on the right, so the rules are needed for a pattern that ends
  in a given word. \<open>snoc_ok\<close> is the condition on the last word of a key.
\<close>

definition snoc_ok :: "string list \<Rightarrow> string \<Rightarrow> string list \<Rightarrow> bool" where
  "snoc_ok ps w ks \<longleftrightarrow>
     (if w = ''#'' then \<exists>n \<le> length ks. topic_matches ps (take n ks)
      else ks \<noteq> [] \<and> (w = ''*'' \<or> w = last ks) \<and> topic_matches ps (butlast ks))"

lemma snoc_ok_Nil: "topic_matches [w] ks \<longleftrightarrow> snoc_ok [] w ks"
proof -
  have "\<exists>n. length ks \<le> n" by blast
  then show ?thesis
    by (cases ks) (auto simp: snoc_ok_def topic_matches_Cons)
qed

lemma ex_take_drop:
  "(\<exists>n \<le> length (drop m ks). P (take n (drop m ks))) \<longleftrightarrow>
   (\<exists>n \<le> length ks. P (drop m (take n ks)))" (is "?L \<longleftrightarrow> ?R")
proof
  assume ?L
  then obtain n where n: "n \<le> length ks - m" "P (take n (drop m ks))" by auto
  then show ?R
    by (cases "m \<le> length ks") (auto simp: drop_take intro: exI [of _ "n + m"])
next
  assume ?R
  then obtain n where n: "n \<le> length ks" "P (drop m (take n ks))" by auto
  then have "P (take (n - m) (drop m ks))" by (simp add: drop_take)
  then show ?L using n(1) by (auto intro!: exI [of _ "n - m"])
qed

lemma ex_le_Suc: "(\<exists>n \<le> Suc m. P n) \<longleftrightarrow> P 0 \<or> (\<exists>n \<le> m. P (Suc n))"
  by (metis Suc_le_mono not0_implies_Suc zero_le)

lemma topic_matches_snoc: "topic_matches (ps @ [w]) ks \<longleftrightarrow> snoc_ok ps w ks"
proof (induction ps arbitrary: ks)
  case Nil
  show ?case by (simp add: snoc_ok_Nil)
next
  case (Cons p ps)
  show ?case
  proof (cases "p = ''#''")
    case True
    have "topic_matches ((p # ps) @ [w]) ks \<longleftrightarrow> (\<exists>m. snoc_ok ps w (drop m ks))"
      using True Cons by (simp add: topic_matches_Cons)
    also have "\<dots> \<longleftrightarrow> snoc_ok (p # ps) w ks"
    proof (cases "w = ''#''")
      case True
      then show ?thesis using \<open>p = ''#''\<close>
        by (auto simp: snoc_ok_def topic_matches_Cons ex_take_drop simp del: length_drop)
    next
      case False
      have "(\<exists>m. drop m ks \<noteq> [] \<and> (w = ''*'' \<or> w = last (drop m ks)) \<and>
                 topic_matches ps (butlast (drop m ks))) \<longleftrightarrow>
            ks \<noteq> [] \<and> (w = ''*'' \<or> w = last ks) \<and> (\<exists>m. topic_matches ps (drop m (butlast ks)))"
        (is "?L \<longleftrightarrow> ?R")
      proof
        assume ?L
        then show ?R by (auto simp: butlast_drop)
      next
        assume R: ?R
        then obtain m where m: "topic_matches ps (drop m (butlast ks))" by blast
        define j where "j = min m (length ks - 1)"
        then have j: "j < length ks" "drop m (butlast ks) = drop j (butlast ks)"
          using R by (cases ks; auto simp: min_def)+
        then have "drop j ks \<noteq> []" "last (drop j ks) = last ks"
          "topic_matches ps (butlast (drop j ks))"
          using m by (simp_all add: butlast_drop last_drop)
        then show ?L using R by (intro exI [of _ j]) simp
      qed
      then show ?thesis using False \<open>p = ''#''\<close>
        by (simp add: snoc_ok_def topic_matches_Cons)
    qed
    finally show ?thesis .
  next
    case False
    then show ?thesis using Cons
      by (cases ks) (auto simp: topic_matches_Cons snoc_ok_def ex_le_Suc)
  qed
qed

section \<open>The two inner loops\<close>

lemma hashLoop_Suc: "hashLoop (Suc K) dp = (hashLoop K dp)[Suc K := hashLoop K dp ! Suc K \<or> hashLoop K dp ! K]"
  by (simp add: hashLoop_def)

lemma length_hashLoop [simp]: "length (hashLoop K dp) = length dp"
  by (induction K) (simp_all add: hashLoop_Suc, simp add: hashLoop_def)

lemma hashLoop_nth:
  "K < length dp \<Longrightarrow> j < length dp \<Longrightarrow>
   hashLoop K dp ! j \<longleftrightarrow> (if j \<le> K then \<exists>i \<le> j. dp ! i else dp ! j)"
proof (induction K arbitrary: j)
  case 0
  then show ?case by (simp add: hashLoop_def)
next
  case (Suc K)
  then show ?case by (auto simp: hashLoop_Suc nth_list_update le_Suc_eq)
qed

text \<open>One right-to-left pass reads every cell before it is overwritten.\<close>

lemma fold_shift_right:
  assumes "a \<le> b" "b \<le> length dp"
  shows "length (fold (\<lambda>j dp. dp[j := f (dp ! (j - 1)) j]) (rev [a..<b]) dp) = length dp \<and>
    (\<forall>j < length dp. fold (\<lambda>j dp. dp[j := f (dp ! (j - 1)) j]) (rev [a..<b]) dp ! j =
       (if a \<le> j \<and> j < b then f (dp ! (j - 1)) j else dp ! j))"
  using assms
proof (induction b arbitrary: dp)
  case (Suc b)
  show ?case
  proof (cases "a \<le> b")
    case True
    let ?dp = "dp[b := f (dp ! (b - 1)) b]"
    have "fold (\<lambda>j dp. dp[j := f (dp ! (j - 1)) j]) (rev [a..<Suc b]) dp =
          fold (\<lambda>j dp. dp[j := f (dp ! (j - 1)) j]) (rev [a..<b]) ?dp"
      using True by simp
    then show ?thesis using Suc.IH [of ?dp] Suc.prems True
      by (auto simp: nth_list_update less_Suc_eq)
  next
    case False
    then show ?thesis using Suc.prems by (auto simp: le_Suc_eq)
  qed
qed simp

lemma wordLoop_nth:
  assumes "length dp = length kp + 1" "j \<le> length kp"
  shows "wordLoop w kp dp ! j \<longleftrightarrow>
    (if 1 \<le> j then dp ! (j - 1) \<and> (w = ''*'' \<or> w = kp ! (j - 1)) else dp ! j)"
  using fold_shift_right
    [of 1 "length kp + 1" dp "\<lambda>prev j. prev \<and> (w = ''*'' \<or> w = kp ! (j - 1))"] assms
  unfolding wordLoop_def by (simp del: upt_Suc)

lemma length_wordLoop [simp]: "length dp = length kp + 1 \<Longrightarrow> length (wordLoop w kp dp) = length kp + 1"
  using fold_shift_right
    [of 1 "length kp + 1" dp "\<lambda>prev j. prev \<and> (w = ''*'' \<or> w = kp ! (j - 1))"]
  unfolding wordLoop_def by (simp del: upt_Suc)

text \<open>The comment of the code: \<open>dp[j]\<close> = can \<open>pat[0..i)\<close> match \<open>kp[0..j)\<close>?\<close>

definition dp_ok :: "string list \<Rightarrow> string list \<Rightarrow> bool list \<Rightarrow> bool" where
  "dp_ok kp ps dp \<longleftrightarrow> length dp = length kp + 1 \<and>
     (\<forall>j \<le> length kp. dp ! j \<longleftrightarrow> topic_matches ps (take j kp))"

lemma dp_ok_init: "dp_ok kp [] ((replicate (length kp + 1) False)[0 := True])"
  by (auto simp: dp_ok_def nth_Cons split: nat.splits)

lemma dp_ok_step:
  assumes "dp_ok kp ps dp"
  shows "dp_ok kp (ps @ [w]) (topicStep kp w dp)"
proof -
  have len: "length dp = length kp + 1"
    and dp: "\<And>j. j \<le> length kp \<Longrightarrow> dp ! j \<longleftrightarrow> topic_matches ps (take j kp)"
    using assms by (auto simp: dp_ok_def)
  have "topicStep kp w dp ! j \<longleftrightarrow> snoc_ok ps w (take j kp)" if j: "j \<le> length kp" for j
  proof (cases "w = ''#''")
    case True
    then show ?thesis using len dp j
      by (auto simp: topicStep_def hashLoop_nth snoc_ok_def min_def)
  next
    case False
    then show ?thesis
    proof (cases j)
      case (Suc i)
      have "butlast (take j kp) = take i kp" "last (take j kp) = kp ! i"
        using Suc j by (simp_all add: take_Suc_conv_app_nth)
      moreover have "take j kp \<noteq> []" using Suc j by auto
      ultimately show ?thesis using False Suc len dp j
        by (auto simp: topicStep_def wordLoop_nth snoc_ok_def)
    qed (use False len in \<open>simp add: topicStep_def snoc_ok_def\<close>)
  qed
  moreover have "length (topicStep kp w dp) = length kp + 1"
    using len by (simp add: topicStep_def)
  ultimately show ?thesis by (simp add: dp_ok_def topic_matches_snoc)
qed

lemma dp_ok_fold: "dp_ok kp ps dp \<Longrightarrow> dp_ok kp (ps @ ws) (fold (topicStep kp) ws dp)"
proof (induction ws arbitrary: ps dp)
  case (Cons w ws)
  from Cons.IH [OF dp_ok_step [OF Cons.prems]] show ?case by simp
qed simp

lemma topicMatch_spec: "topicMatch pattern key \<longleftrightarrow> topic_matches (splitDot pattern) (splitDot key)"
  using dp_ok_fold [OF dp_ok_init, of "splitDot key" "splitDot pattern"]
  by (simp add: topicMatch_def dp_ok_def Let_def)

section \<open>Headers\<close>

definition headers_match :: "FieldTable \<Rightarrow> FieldTable \<Rightarrow> bool" where
  "headers_match bindArgs msgHeaders =
     (let wanted = {n \<in> fst ` set bindArgs. \<not> starts_with n ''x-''};
          present = fst ` set msgHeaders
      in if map_option string_val (map_of bindArgs ''x-match'') = Some ''any''
         then wanted \<inter> present \<noteq> {} else wanted \<subseteq> present)"

lemma matchLoop_all:
  "matchLoop True args hs \<longleftrightarrow> {n \<in> fst ` set args. \<not> starts_with n ''x-''} \<subseteq> fst ` set hs"
  by (induction args) (auto simp: map_of_eq_None_iff Let_def split: if_splits)

lemma matchLoop_any:
  "matchLoop False args hs \<longleftrightarrow> {n \<in> fst ` set args. \<not> starts_with n ''x-''} \<inter> fst ` set hs \<noteq> {}"
proof (induction args)
  case (Cons e args)
  then show ?case by (cases e) (auto simp: map_of_eq_None_iff rev_image_eqI split: if_splits)
qed simp

lemma matchHeaders_spec: "matchHeaders args hs = headers_match args hs"
proof -
  have "(case map_of args ''x-match'' of None \<Rightarrow> True | Some v \<Rightarrow> \<not> string_val v = ''any'') =
        (map_option string_val (map_of args ''x-match'') \<noteq> Some ''any'')"
    by (auto split: option.split)
  then show ?thesis
    unfolding matchHeaders_def headers_match_def Let_def
    by (cases "map_option string_val (map_of args ''x-match'') = Some ''any''")
      (simp_all only: matchLoop_all matchLoop_any simp_thms if_True if_False)
qed

section \<open>The contract of a router\<close>

text \<open>
  Every exchange type routes to the queues of the bindings that satisfy a condition on the
  binding alone, in binding order. What a client of an exchange relies on - a new binding
  receives, a removed one does not, others are undisturbed - follows from that.
\<close>

locale router =
  fixes accepts :: "Binding \<Rightarrow> string \<Rightarrow> FieldTable option \<Rightarrow> bool"
    and rt :: "Binding list \<Rightarrow> string \<Rightarrow> FieldTable option \<Rightarrow> string list"
  assumes rt_accepts: "rt bs key hs = map queue_name (filter (\<lambda>b. accepts b key hs) bs)"
begin

lemma rt_append: "rt (bs @ cs) key hs = rt bs key hs @ rt cs key hs"
  by (simp add: rt_accepts)

lemma rt_mem: "q \<in> set (rt bs key hs) \<longleftrightarrow> (\<exists>b \<in> set bs. queue_name b = q \<and> accepts b key hs)"
  by (auto simp: rt_accepts)

lemma rt_filter_sub: "set (rt (filter P bs) key hs) \<subseteq> set (rt bs key hs)"
  by (auto simp: rt_accepts)

lemma rt_other_queue:
  assumes "\<And>b. b \<in> set bs \<Longrightarrow> \<not> P b \<Longrightarrow> queue_name b = q"
  shows "filter (\<lambda>x. x \<noteq> q) (rt (filter P bs) key hs) = filter (\<lambda>x. x \<noteq> q) (rt bs key hs)"
  using assms by (induction bs) (auto simp: rt_accepts)

end

lemma fold_collect:
  "fold (\<lambda>b result. if P b then result @ [f b] else result) bs acc = acc @ map f (filter P bs)"
  by (induction bs arbitrary: acc) auto

lemma fold_collect_all: "fold (\<lambda>b result. result @ [f b]) bs acc = acc @ map f bs"
  by (induction bs arbitrary: acc) auto

interpretation direct: router "\<lambda>b key hs. b_routing_key b = key" routeDirect
  by unfold_locales (simp add: routeDirect_def fold_collect)

interpretation fanout: router "\<lambda>b key hs. True" routeFanout
  by unfold_locales (simp add: routeFanout_def fold_collect_all)

interpretation topic: router
  "\<lambda>b key hs. topic_matches (splitDot (b_routing_key b)) (splitDot key)" routeTopic
  by unfold_locales (simp add: routeTopic_def fold_collect topicMatch_spec)

interpretation headers: router
  "\<lambda>b key hs. case hs of None \<Rightarrow> False | Some h \<Rightarrow> headers_match (b_arguments b) h" routeHeaders
  by unfold_locales (simp add: routeHeaders_def fold_collect matchHeaders_spec split: option.splits)

definition binding_accepts ::
  "ExchangeKind \<Rightarrow> Binding \<Rightarrow> string \<Rightarrow> FieldTable option \<Rightarrow> bool" where
  "binding_accepts kind b key hs =
     (case kind of
        DirectExchange \<Rightarrow> b_routing_key b = key
      | FanoutExchange \<Rightarrow> True
      | TopicExchange \<Rightarrow> topic_matches (splitDot (b_routing_key b)) (splitDot key)
      | HeadersExchange \<Rightarrow> (case hs of None \<Rightarrow> False | Some h \<Rightarrow> headers_match (b_arguments b) h))"

interpretation any_exchange: router "binding_accepts kind" "\<lambda>bs. route (ex\<lparr>ex_kind := kind, ex_bindings := bs\<rparr>)"
  by unfold_locales
    (cases kind; simp add: binding_accepts_def route_def direct.rt_accepts fanout.rt_accepts
      topic.rt_accepts headers.rt_accepts)

lemma route_by_bindings:
  "route ex key hs = map queue_name (filter (\<lambda>b. binding_accepts (ex_kind ex) b key hs) (ex_bindings ex))"
  using any_exchange.rt_accepts [where ex = ex and kind = "ex_kind ex" and bs = "ex_bindings ex"]
  by simp

section \<open>Properties\<close>

text \<open>
  (C8) What an exchange routes to, for every exchange type: the queue names of the bindings
  that accept the message, in binding order and with repetitions. A binding accepts on a
  direct exchange if the keys are equal, on a fanout exchange always, on a topic exchange if
  the words of the key match the pattern in the sense of \<open>topic_matches\<close> - so the in-place
  table of \<open>topicMatch\<close> computes exactly that relation -, and on a headers exchange if all
  (or, with \<open>x-match\<close> = \<open>any\<close>, one) of the header names of the binding that do not start with
  \<open>x-\<close> are present, whatever their values.
\<close>

theorem route_accepting_bindings:
  "route ex key hs =
     map queue_name (filter (\<lambda>b. binding_accepts (ex_kind ex) b key hs) (getBindings ex))"
  by (simp add: getBindings_def route_by_bindings)

text \<open>
  \<open>splitDot\<close> cuts a routing key into the one non-empty list of dot-free words that joins
  back to the key with dots; an empty key is one empty word.
\<close>

theorem splitDot_unique:
  "splitDot s = ws \<longleftrightarrow>
     ws \<noteq> [] \<and> (\<forall>w \<in> set ws. CHR ''.'' \<notin> set w) \<and> join_dot ws = s"
  by (auto simp: splitDot_split_words split_words_join join_split_words
      dest: split_words_no_dot [rotated])

theorem splitDot_unique_witness:
  "splitDot ''stock..nyse'' = [''stock'', [], ''nyse'']"
  using splitDot_unique [of "''stock..nyse''" "[''stock'', [], ''nyse'']"] by simp

text \<open>
  Unbinding: after \<open>removeBinding queue key\<close> no message whose only route to the queue was
  through bindings with that key reaches it, the route to every other queue is unchanged,
  and binding again restores a binding that accepts exactly as a fresh one does.
\<close>

theorem unbind_then_bind:
  "filter (\<lambda>x. x \<noteq> queue) (route (removeBinding queue key args ex) k hs) =
     filter (\<lambda>x. x \<noteq> queue) (route ex k hs) \<and>
   (queue \<in> set (route (removeBinding queue key args ex) k hs) \<longleftrightarrow>
     (\<exists>b \<in> set (getBindings ex). queue_name b = queue \<and> b_routing_key b \<noteq> key \<and>
        binding_accepts (ex_kind ex) b k hs)) \<and>
   route (addBinding queue key args ex) k hs = route ex k hs @
     (if binding_accepts (ex_kind ex)
           \<lparr>queue_name = queue, b_routing_key = key, b_arguments = args\<rparr> k hs
      then [queue] else [])"
proof -
  let ?P = "\<lambda>b. \<not> (queue_name b = queue \<and> b_routing_key b = key)"
  have rem: "route (removeBinding queue key args ex) k hs =
      route (ex\<lparr>ex_kind := ex_kind ex, ex_bindings := filter ?P (ex_bindings ex)\<rparr>) k hs"
    by (simp add: removeBinding_def)
  have add: "route (addBinding queue key args ex) k hs =
      route (ex\<lparr>ex_kind := ex_kind ex, ex_bindings := ex_bindings ex @
        [\<lparr>queue_name = queue, b_routing_key = key, b_arguments = args\<rparr>]\<rparr>) k hs"
    by (simp add: addBinding_def)
  have "filter (\<lambda>x. x \<noteq> queue) (route (removeBinding queue key args ex) k hs) =
      filter (\<lambda>x. x \<noteq> queue) (route ex k hs)"
    unfolding rem using any_exchange.rt_other_queue
      [where ex = ex and kind = "ex_kind ex" and bs = "ex_bindings ex" and P = ?P and q = queue]
    by simp
  moreover have "queue \<in> set (route (removeBinding queue key args ex) k hs) \<longleftrightarrow>
     (\<exists>b \<in> set (getBindings ex). queue_name b = queue \<and> b_routing_key b \<noteq> key \<and>
        binding_accepts (ex_kind ex) b k hs)"
    unfolding rem any_exchange.rt_mem getBindings_def by auto
  moreover have "route (addBinding queue key args ex) k hs = route ex k hs @
     (if binding_accepts (ex_kind ex)
           \<lparr>queue_name = queue, b_routing_key = key, b_arguments = args\<rparr> k hs
      then [queue] else [])"
    unfolding add any_exchange.rt_append unfolding any_exchange.rt_accepts
    by (simp add: route_by_bindings)
  ultimately show ?thesis by blast
qed

end
