(* ===== verification/Field_Table_Roundtrip.thy ===== *)
theory Field_Table_Roundtrip
  imports Field_Table
begin

text \<open>
  Field tables survive the wire: what \<open>writeFieldTable\<close> appends, \<open>readFieldTable\<close> reads back,
  for every table built by the factories within the limits of the format; and whatever
  \<open>readFieldTable\<close> accepts is such a table.
\<close>

section \<open>Well-formed values and the round trip\<close>

text \<open>
  \<open>wf_value d v\<close>: \<open>v\<close> was built by the factories, its strings and tables fit their length
  fields, and it may stand at nesting depth \<open>d\<close>.
\<close>

inductive wf_value :: "nat \<Rightarrow> FieldValue \<Rightarrow> bool" where
  wf_boolean: "wf_value d (boolean x)"
| wf_shortShortInt: "wf_value d (shortShortInt i8)"
| wf_shortShortUint: "wf_value d (shortShortUint i8)"
| wf_shortInt: "wf_value d (shortInt i16)"
| wf_shortUint: "wf_value d (shortUint i16)"
| wf_longInt: "wf_value d (longInt i32)"
| wf_longUint: "wf_value d (longUint i32)"
| wf_longLongInt: "wf_value d (longLongInt i64)"
| wf_longLongUint: "wf_value d (longLongUint i64)"
| wf_timestamp: "wf_value d (timestamp i64)"
| wf_floatVal: "double_to_float (float_to_double w) = w \<Longrightarrow> wf_value d (floatVal w)"
| wf_doubleVal: "wf_value d (doubleVal i64)"
| wf_shortString: "length s \<le> 255 \<Longrightarrow> wf_value d (shortString s)"
| wf_longString: "length s < 2 ^ 32 \<Longrightarrow> wf_value d (longString s)"
| wf_voidVal: "wf_value d voidVal"
| wf_tableVal: "d + 1 \<le> MAX_FIELD_TABLE_DEPTH \<Longrightarrow> sorted_map t \<Longrightarrow> length (enc_entries t) < 2 ^ 32 \<Longrightarrow>
    \<forall>p \<in> set t. length (fst p) \<le> 255 \<and> wf_value (d + 1) (snd p) \<Longrightarrow> wf_value d (tableVal t)"
| wf_arrayVal: "d \<le> MAX_FIELD_TABLE_DEPTH \<Longrightarrow> length (enc_elems a) < 2 ^ 32 \<Longrightarrow>
    \<forall>v \<in> set a. wf_value (d + 1) v \<Longrightarrow> wf_value d (arrayVal a)"

definition wf_table :: "FieldTable \<Rightarrow> bool" where
  "wf_table t \<longleftrightarrow> sorted_map t \<and> length (enc_entries t) < 2 ^ 32 \<and>
     (\<forall>p \<in> set t. length (fst p) \<le> 255 \<and> wf_value 0 (snd p))"

definition reads_back :: "nat \<Rightarrow> FieldValue \<Rightarrow> bool" where
  "reads_back d v \<longleftrightarrow> (\<forall>n b rest. length (enc_value v) \<le> n \<longrightarrow> at_input b (enc_value v @ rest) \<longrightarrow>
     readFieldValue' n d b = Inr (v, advance (length (enc_value v)) b))"

lemma reads_backD:
  "reads_back d v \<Longrightarrow> length (enc_value v) \<le> n \<Longrightarrow> at_input b (enc_value v @ rest) \<Longrightarrow>
   readFieldValue' n d b = Inr (v, advance (length (enc_value v)) b)"
  unfolding reads_back_def by blast

lemma tableLoop_reads_back:
  assumes "\<forall>p \<in> set t. length (fst p) \<le> 255 \<and> reads_back d (snd p)" "sorted_map (acc @ t)"
    "length (enc_entries t) < n" "at_input b (enc_entries t @ rest)"
  shows "tableLoop n d (bpos b + length (enc_entries t)) acc b
    = Inr (acc @ t, advance (length (enc_entries t)) b)"
  using assms
proof (induction t arbitrary: acc b n)
  case Nil
  then obtain m where "n = Suc m" by (cases n) auto
  then show ?case by simp
next
  case (Cons p t)
  obtain k v where p: "p = (k, v)" by (cases p)
  obtain m where n: "n = Suc m" using Cons.prems(3) by (cases n) auto
  from Cons.prems(1,4) have k: "length k \<le> 255" and v: "reads_back d v"
    and a: "at_input b (enc_short k @ enc_value v @ enc_entries t @ rest)"
    by (simp_all add: p)
  let ?b1 = "advance (length (enc_short k)) b"
  let ?b2 = "advance (length (enc_value v)) ?b1"
  have a1: "at_input ?b1 (enc_value v @ enc_entries t @ rest)" by (rule at_input_advance [OF a])
  have a2: "at_input ?b2 (enc_entries t @ rest)" by (rule at_input_advance [OF a1])
  have rv: "readFieldValue' m d ?b1 = Inr (v, ?b2)"
    using Cons.prems(3) by (intro reads_backD [OF v _ a1]) (simp add: n p)
  have "\<forall>x \<in> set (map fst acc). x < k" and s: "sorted_map ((acc @ [(k, v)]) @ t)"
    using Cons.prems(2) by (auto simp: sorted_map_def sorted_wrt_append p)
  then have em: "map_emplace k v acc = acc @ [(k, v)]" by (intro map_emplace_last)
  have "tableLoop m d (bpos ?b2 + length (enc_entries t)) (acc @ [(k, v)]) ?b2
      = Inr ((acc @ [(k, v)]) @ t, advance (length (enc_entries t)) ?b2)"
    using Cons.prems(1,3) s a2 by (intro Cons.IH) (auto simp: n p)
  then show ?case
    using short_str.rd_enc [OF k a] rv em by (simp add: n p add.assoc)
qed

lemma arrayLoop_reads_back:
  assumes "\<forall>v \<in> set a. reads_back (d + 1) v" "length (enc_elems a) < n" "at_input b (enc_elems a @ rest)"
  shows "arrayLoop n d (bpos b + length (enc_elems a)) acc b
    = Inr (acc @ a, advance (length (enc_elems a)) b)"
  using assms
proof (induction a arbitrary: acc b n)
  case Nil
  then obtain m where "n = Suc m" by (cases n) auto
  then show ?case by simp
next
  case (Cons v a)
  obtain m where n: "n = Suc m" using Cons.prems(2) by (cases n) auto
  from Cons.prems(1,3) have v: "reads_back (d + 1) v" and i: "at_input b (enc_value v @ enc_elems a @ rest)"
    by simp_all
  let ?b1 = "advance (length (enc_value v)) b"
  have rv: "readFieldValue' m (d + 1) b = Inr (v, ?b1)"
    using Cons.prems(2) by (intro reads_backD [OF v _ i]) (simp add: n)
  then have "inside b ?b1" by (rule readers_inside)
  then have "0 < length (enc_value v)" by (simp add: inside_def)
  with Cons.prems(2) have l: "length (enc_elems a) < m" "bpos b < bpos b + length (enc_elems (v # a))"
    by (simp_all add: n del: length_greater_0_conv)
  have "arrayLoop m d (bpos ?b1 + length (enc_elems a)) (acc @ [v]) ?b1
      = Inr ((acc @ [v]) @ a, advance (length (enc_elems a)) ?b1)"
    using Cons.prems(1) at_input_advance [OF i] l(1) by (intro Cons.IH) auto
  then show ?case using rv l(2) by (simp add: n add.assoc)
qed

lemma enc_value_scalar:
  assumes "type_tag v \<noteq> CHR ''F''" "type_tag v \<noteq> CHR ''A''"
  shows "enc_value v = word_of_nat (of_char (type_tag v)) # bdata (writeScalarValue v (Buffer_of []))"
proof -
  let ?b = "writeUint8 (word_of_nat (of_char (type_tag v))) (Buffer_of [])"
  have "enc_value v = bdata (writeScalarValue v ?b)"
    using assms unfolding enc_value_def by (cases v) simp
  also have "writeScalarValue v ?b = writeBytes (bdata (writeScalarValue v (Buffer_of []))) ?b"
    using appends_writeScalarValue [of v] unfolding appends_def by blast
  finally show ?thesis by (simp add: writeUint8_def Buffer_of_def)
qed

lemma enc_value_tableVal:
  "enc_value (tableVal t) = word_of_nat (of_char CHR ''F'') # enc_table t"
  unfolding enc_value_def tableVal_def writeFieldValue.simps
  by (simp add: writeSized_def enc_table_def writes_append writeEntries_append Buffer_of_def)

lemma enc_value_arrayVal:
  "enc_value (arrayVal a) = word_of_nat (of_char CHR ''A'') #
     enc32 (word_of_nat (length (enc_elems a))) @ enc_elems a"
  unfolding enc_value_def arrayVal_def writeFieldValue.simps
  by (simp add: writeSized_def writes_append writeElems_append Buffer_of_def)

lemma reads_back_scalar:
  assumes t: "type_tag v \<noteq> CHR ''F''" "type_tag v \<noteq> CHR ''A''"
    and r: "\<And>b rest. at_input b (bdata (writeScalarValue v (Buffer_of [])) @ rest) \<Longrightarrow>
      readScalarValue (type_tag v) b = Inr (v, advance (length (bdata (writeScalarValue v (Buffer_of [])))) b)"
  shows "reads_back d v"
  unfolding reads_back_def
proof (intro allI impI)
  fix n b rest
  assume n: "length (enc_value v) \<le> n" and a: "at_input b (enc_value v @ rest)"
  let ?t = "word_of_nat (of_char (type_tag v)) :: byte"
  from n obtain m where m: "n = Suc m" by (cases n) (simp_all add: enc_value_scalar [OF t])
  from a have a': "at_input b ([?t] @ bdata (writeScalarValue v (Buffer_of [])) @ rest)"
    by (simp add: enc_value_scalar [OF t])
  from u8.rd_then(2) [OF TrueI a'] have "at_input (advance 1 b) (bdata (writeScalarValue v (Buffer_of [])) @ rest)"
    by simp
  from r [OF this] show "readFieldValue' n d b = Inr (v, advance (length (enc_value v)) b)"
    using t unfolding m readFieldValue'.simps u8.rd_then(1) [OF TrueI a']
    by (simp add: enc_value_scalar [OF t])
qed

lemma ucast_scast_ids [simp]:
  "ucast (scast (i8 :: byte) :: u64) = i8" "ucast (scast (i16 :: u16) :: u64) = i16"
  "ucast (scast (i32 :: u32) :: u64) = i32"
  by (rule bit_word_eqI; auto simp: bit_simps)+

lemma ucast_ucast_ids [simp]:
  "ucast (ucast (i8 :: byte) :: u64) = i8" "ucast (ucast (i16 :: u16) :: u64) = i16"
  "ucast (ucast (i32 :: u32) :: u64) = i32"
  by (rule bit_word_eqI; auto simp: bit_simps)+

lemmas scalar_codecs = u8.rd_enc [OF TrueI, simplified] u16.rd_enc [OF TrueI] u32.rd_enc [OF TrueI]
  u64.rd_enc [OF TrueI]

lemma reads_back_table:
  assumes "sorted_map t" "length (enc_entries t) < 2 ^ 32"
    "\<forall>p \<in> set t. length (fst p) \<le> 255 \<and> reads_back d' (snd p)" "d' \<le> MAX_FIELD_TABLE_DEPTH"
    "length (enc_table t) \<le> n" "at_input b (enc_table t @ rest)"
  shows "readFieldTable' n d' b = Inr (t, advance (length (enc_table t)) b)"
proof -
  let ?l = "word_of_nat (length (enc_entries t)) :: u32"
  from assms(5) obtain m where n: "n = Suc m" and m: "length (enc_entries t) < m"
    by (cases n) (auto simp: enc_table_def)
  from assms(6) have a: "at_input b (enc32 ?l @ enc_entries t @ rest)" by (simp add: enc_table_def)
  have l: "unat ?l = length (enc_entries t)" using assms(2) by (rule unat_of_nat_u32)
  have "tableLoop m d' (bpos (advance 4 b) + length (enc_entries t)) [] (advance 4 b)
    = Inr ([] @ t, advance (length (enc_entries t)) (advance 4 b))"
    using assms(1,3) m at_input_advance [OF a] by (intro tableLoop_reads_back) simp_all
  then show ?thesis using assms(4) u32.rd_enc [OF TrueI a] l by (simp add: n enc_table_def)
qed

lemma wf_value_reads_back: "wf_value d v \<Longrightarrow> reads_back d v"
proof (induction rule: wf_value.induct)
  case (wf_tableVal d t)
  show ?case unfolding reads_back_def
  proof (intro allI impI)
    fix n b rest
    assume n: "length (enc_value (tableVal t)) \<le> n" and "at_input b (enc_value (tableVal t) @ rest)"
    then have a: "at_input b ([word_of_nat (of_char CHR ''F'')] @ enc_table t @ rest)"
      by (simp add: enc_value_tableVal)
    from n obtain m where m: "n = Suc m" by (cases n) (auto simp: enc_value_tableVal)
    have "readFieldTable' m (d + 1) (advance 1 b) = Inr (t, advance (length (enc_table t)) (advance 1 b))"
      using wf_tableVal n at_input_advance [OF a]
      by (intro reads_back_table) (auto simp: m enc_value_tableVal)
    then show "readFieldValue' n d b = Inr (tableVal t, advance (length (enc_value (tableVal t))) b)"
      unfolding m readFieldValue'.simps u8.rd_then(1) [OF TrueI a] prod.case char_of_unat_of_char
      by (simp add: enc_value_tableVal mapR_def)
  qed
next
  case (wf_arrayVal d a)
  show ?case unfolding reads_back_def
  proof (intro allI impI)
    fix n b rest
    let ?l = "word_of_nat (length (enc_elems a)) :: u32"
    assume n: "length (enc_value (arrayVal a)) \<le> n" and "at_input b (enc_value (arrayVal a) @ rest)"
    then have i: "at_input b ([word_of_nat (of_char CHR ''A'')] @ enc32 ?l @ enc_elems a @ rest)"
      by (simp add: enc_value_arrayVal)
    from n obtain m where m: "n = Suc m" by (cases n) (auto simp: enc_value_arrayVal)
    have l: "unat ?l = length (enc_elems a)" using wf_arrayVal(2) by (rule unat_of_nat_u32)
    note i1 = at_input_advance [OF i]
    have "arrayLoop m d (bpos (advance 5 b) + length (enc_elems a)) [] (advance 5 b)
        = Inr ([] @ a, advance (length (enc_elems a)) (advance 5 b))"
      using wf_arrayVal(3) n at_input_advance [OF i1]
      by (intro arrayLoop_reads_back) (auto simp: m enc_value_arrayVal)
    then show "readFieldValue' n d b = Inr (arrayVal a, advance (length (enc_value (arrayVal a))) b)"
      using u32.rd_enc [OF TrueI i1] l wf_arrayVal(1)
      unfolding m readFieldValue'.simps u8.rd_then(1) [OF TrueI i] prod.case char_of_unat_of_char
      by (simp add: enc_value_arrayVal mapR_def)
  qed
qed (rule reads_back_scalar; simp add: factory_defs writeScalarValue_def readScalarValue_def mapR_def writes_append
    scalar_codecs short_str.rd_enc long_str.rd_enc Buffer_of_def; fail)+

interpretation field_table: codec wf_table enc_table writeFieldTable readFieldTable
proof
  fix t b rest
  assume w: "wf_table t" and a: "at_input b (enc_table t @ rest)"
  then have "length (enc_table t) \<le> length (drop (bpos b) (bdata b))" by (simp add: at_input_def)
  then have "length (enc_table t) \<le> length (bdata b) + 2" by simp
  with w a show "readFieldTable b = Inr (t, advance (length (enc_table t)) b)"
    unfolding readFieldTable_def wf_table_def by (intro reads_back_table) (auto intro: wf_value_reads_back)
qed (simp add: wire)

section \<open>What is read is well-formed\<close>

lemma read_positions:
  "readUint8 b = Inr (v8, b') \<Longrightarrow> bpos b' = bpos b + 1"
  "readUint16 b = Inr (v16, b') \<Longrightarrow> bpos b' = bpos b + 2"
  "readUint32 b = Inr (v32, b') \<Longrightarrow> bpos b' = bpos b + 4"
  "readUint64 b = Inr (v64, b') \<Longrightarrow> bpos b' = bpos b + 8"
  by (auto simp: read_defs bindE_Inr_iff)

lemma read_string_positions:
  "readShortString b = Inr (s, b') \<Longrightarrow> bpos b' = bpos b + 1 + length s \<and> length s \<le> 255"
  "readLongString b = Inr (s, b') \<Longrightarrow> bpos b' = bpos b + 4 + length s \<and> length s < 2 ^ 32"
proof -
  have "unat (w :: byte) \<le> 255" for w using unat_byte_less [of w] by linarith
  then show "readShortString b = Inr (s, b') \<Longrightarrow> bpos b' = bpos b + 1 + length s \<and> length s \<le> 255"
    by (auto simp: readShortString_def readUint8_def bindE_Inr_iff ensure_iff min_absorb2)
  show "readLongString b = Inr (s, b') \<Longrightarrow> bpos b' = bpos b + 4 + length s \<and> length s < 2 ^ 32"
    by (auto simp: readLongString_def readUint32_def bindE_Inr_iff ensure_iff min_absorb2)
qed

text \<open>A read value costs at least as many bytes as its encoding.\<close>

definition reads_wf :: "nat \<Rightarrow> FieldValue \<Rightarrow> Buffer \<Rightarrow> Buffer \<Rightarrow> bool" where
  "reads_wf d v b b' \<longleftrightarrow> wf_value d v \<and> bpos b + length (enc_value v) \<le> bpos b'"

lemma floatVal_stable: "floatVal w = floatVal (double_to_float (float_to_double w))"
  by (simp add: floatVal_def float_to_double_stable)

lemma wf_value_floatVal: "wf_value d (floatVal w)"
  by (subst floatVal_stable, rule wf_floatVal) (simp add: float_to_double_stable)

lemma length_enc_scalar:
  "length (enc_value (boolean x)) = 2" "length (enc_value (shortShortInt i8)) = 2"
  "length (enc_value (shortShortUint i8)) = 2" "length (enc_value (shortInt i16)) = 3"
  "length (enc_value (shortUint i16)) = 3" "length (enc_value (longInt i32)) = 5"
  "length (enc_value (longUint i32)) = 5" "length (enc_value (longLongInt i64)) = 9"
  "length (enc_value (longLongUint i64)) = 9" "length (enc_value (timestamp i64)) = 9"
  "length (enc_value (floatVal i32)) = 5" "length (enc_value (doubleVal i64)) = 9"
  "length (enc_value (shortString s)) = 2 + min (length s) 255"
  "length (enc_value (longString s)) = 5 + length s" "length (enc_value voidVal) = 1"
  by (subst enc_value_scalar; simp add: factory_defs writeScalarValue_def writes_append Buffer_of_def)+

lemma readScalarValue_wf:
  "readScalarValue tag b = Inr (v, b') \<Longrightarrow> wf_value d v \<and> bpos b + length (enc_value v) \<le> bpos b' + 1"
  unfolding readScalarValue_def
  by (auto simp: mapR_Inr_iff length_enc_scalar intro: wf_value.intros wf_value_floatVal
      dest!: read_positions read_string_positions split: if_split_asm)

lemma length_enc_entries_emplace:
  "length (enc_entries (map_emplace k v t)) \<le> length (enc_short k) + length (enc_value v) + length (enc_entries t)"
  by (induction t) auto

lemma map_emplace_set: "set (map_emplace k v t) \<subseteq> insert (k, v) (set t)"
  by (induction t) auto

lemma enc_elems_snoc: "enc_elems (a @ [v]) = enc_elems a @ enc_value v"
  by (induction a) simp_all

definition entries_ok :: "nat \<Rightarrow> FieldTable \<Rightarrow> bool" where
  "entries_ok d t \<longleftrightarrow> sorted_map t \<and> (\<forall>p \<in> set t. length (fst p) \<le> 255 \<and> wf_value d (snd p))"

lemma readers_wf:
  "length (bdata b) < 2 ^ 32 \<Longrightarrow> readFieldTable' n d b = Inr (t, b') \<Longrightarrow>
   d \<le> MAX_FIELD_TABLE_DEPTH \<and> entries_ok d t \<and> bpos b + 4 + length (enc_entries t) \<le> bpos b'"
  "length (bdata b) < 2 ^ 32 \<Longrightarrow> tableLoop n d stop t b = Inr (t', b') \<Longrightarrow> entries_ok d t \<Longrightarrow>
   entries_ok d t' \<and> bpos b + length (enc_entries t') \<le> bpos b' + length (enc_entries t)"
  "length (bdata b) < 2 ^ 32 \<Longrightarrow> readFieldValue' n d b = Inr (v, b') \<Longrightarrow> reads_wf d v b b'"
  "length (bdata b) < 2 ^ 32 \<Longrightarrow> arrayLoop n d stop a b = Inr (a', b') \<Longrightarrow> \<forall>v \<in> set a. wf_value (d + 1) v \<Longrightarrow>
   (\<forall>v \<in> set a'. wf_value (d + 1) v) \<and> bpos b + length (enc_elems a') \<le> bpos b' + length (enc_elems a)"
proof (induction n d b and n d stop t b and n d b and n d stop a b
    arbitrary: t b' and t' b' and v b' and a' b'
    rule: readFieldTable'_tableLoop_readFieldValue'_arrayLoop.induct)
  case (2 n depth b)
  from "2.prems" obtain len b1 where d: "\<not> MAX_FIELD_TABLE_DEPTH < depth"
    and r: "readUint32 b = Inr (len, b1)"
    and l: "tableLoop n depth (bpos b1 + unat len) [] b1 = Inr (t, b')"
    by (auto simp: bindE_Inr_iff split: if_splits)
  from r32.rd_inside [OF r] have "bdata b1 = bdata b" by (simp add: inside_def)
  then show ?case using "2.IH" [OF d r refl _ l] "2.prems"(1) d read_positions(3) [OF r]
    by (auto simp: entries_ok_def)
next
  case (4 n depth stop table b)
  show ?case
  proof (cases "bpos b < stop")
    case True
    with "4.prems" obtain name b1 val b2 where r: "readShortString b = Inr (name, b1)"
      and v: "readFieldValue' n depth b1 = Inr (val, b2)"
      and l: "tableLoop n depth stop (map_emplace name val table) b2 = Inr (t', b')"
      by (auto simp: bindE_Inr_iff)
    from r have b1: "bdata b1 = bdata b" using rshort.rd_inside [OF r] by (simp add: inside_def)
    from v have b2: "bdata b2 = bdata b" using readers_inside(3) [OF v] b1 by (simp add: inside_def)
    have w: "reads_wf depth val b1 b2" using "4.IH"(1) [OF True r refl _ v] "4.prems"(1) b1 by simp
    have "entries_ok depth (map_emplace name val table)"
      using "4.prems"(3) w read_string_positions(1) [OF r] map_emplace_set [of name val table]
      by (auto simp: entries_ok_def reads_wf_def sorted_map_emplace)
    with "4.IH"(2) [OF True r refl v refl _ l] "4.prems"(1) b2
    have "entries_ok depth t' \<and>
        bpos b2 + length (enc_entries t') \<le> bpos b' + length (enc_entries (map_emplace name val table))"
      by simp
    then show ?thesis
      using w read_string_positions(1) [OF r] length_enc_entries_emplace [of name val table]
      by (auto simp: reads_wf_def)
  qed (use "4.prems" in simp)
next
  case (6 n depth b)
  from "6.prems" obtain t b1 where r: "readUint8 b = Inr (t, b1)"
    by (auto simp: bindE_Inr_iff)
  have b1: "bdata b1 = bdata b" "bpos b1 = bpos b + 1"
    using r8.rd_inside [OF r] read_positions(1) [OF r] by (simp_all add: inside_def)
  consider (table) "char_of (unat t) = CHR ''F''" | (arr) "char_of (unat t) = CHR ''A''"
    | (scalar) "char_of (unat t) \<noteq> CHR ''F''" "char_of (unat t) \<noteq> CHR ''A''" by blast
  then show ?case
  proof cases
    case table
    with "6.prems" r obtain x where x: "readFieldTable' n (depth + 1) b1 = Inr (x, b')" and v: "v = tableVal x"
      by (auto simp: mapR_Inr_iff)
    have "bpos b' \<le> length (bdata b)" using readers_inside(1) [OF x] b1 by (simp add: inside_def)
    then show ?thesis using "6.IH"(1) [OF r refl table _ x] "6.prems"(1) b1
      by (auto simp: v reads_wf_def entries_ok_def enc_value_tableVal enc_table_def intro!: wf_tableVal)
  next
    case arr
    with "6.prems" r obtain len b2 a where d: "\<not> MAX_FIELD_TABLE_DEPTH < depth"
      and r2: "readUint32 b1 = Inr (len, b2)"
      and l: "arrayLoop n depth (bpos b2 + unat len) [] b2 = Inr (a, b')" and v: "v = arrayVal a"
      by (auto simp: mapR_Inr_iff bindE_Inr_iff split: if_splits)
    from r32.rd_inside [OF r2] b1 have b2: "bdata b2 = bdata b" by (simp add: inside_def)
    have "bpos b' \<le> length (bdata b)"
      using readers_inside(4) [OF l] r32.rd_inside [OF r2] b2 by (auto simp: inside_eq_def inside_def)
    moreover have "(\<forall>v \<in> set a. wf_value (depth + 1) v) \<and> bpos b2 + length (enc_elems a) \<le> bpos b'"
      using "6.IH"(2) [OF r refl _ arr d r2 refl _ l] "6.prems"(1) b2 arr by simp
    ultimately show ?thesis using read_positions(3) [OF r2] b1 d "6.prems"(1)
      by (auto simp: v reads_wf_def enc_value_arrayVal intro!: wf_arrayVal)
  next
    case scalar
    with "6.prems" r have "readScalarValue (char_of (unat t)) b1 = Inr (v, b')" by auto
    from readScalarValue_wf [OF this, of depth] b1 show ?thesis by (simp add: reads_wf_def)
  qed
next
  case (8 n depth stop arr b)
  show ?case
  proof (cases "bpos b < stop")
    case True
    with "8.prems" obtain val b2 where v: "readFieldValue' n (depth + 1) b = Inr (val, b2)"
      and l: "arrayLoop n depth stop (arr @ [val]) b2 = Inr (a', b')"
      by (auto simp: bindE_Inr_iff)
    from readers_inside(3) [OF v] have b2: "bdata b2 = bdata b" by (simp add: inside_def)
    have w: "reads_wf (depth + 1) val b b2" using "8.IH"(1) [OF True _ v] "8.prems"(1) by simp
    have "(\<forall>v \<in> set a'. wf_value (depth + 1) v) \<and>
        bpos b2 + length (enc_elems a') \<le> bpos b' + length (enc_elems (arr @ [val]))"
      using "8.prems"(1,3) b2 w by (intro "8.IH"(2) [OF True v refl _ l]) (auto simp: reads_wf_def)
    with w show ?thesis by (simp add: reads_wf_def enc_elems_snoc)
  qed (use "8.prems" in simp)
qed simp_all

lemma readFieldTable_wf:
  assumes "length (bdata b) < 2 ^ 32" "readFieldTable b = Inr (t, b')"
  shows "wf_table t"
proof -
  from assms(2) have r: "readFieldTable' (length (bdata b) + 2) 0 b = Inr (t, b')"
    by (simp add: readFieldTable_def)
  have "bpos b' \<le> length (bdata b)" using readers_inside(1) [OF r] by (simp add: inside_def)
  with readers_wf(1) [OF assms(1) r] assms(1) show ?thesis
    by (simp add: wf_table_def entries_ok_def)
qed

lemma tableLoop_sorted: "sorted_map t \<Longrightarrow> tableLoop n d stop t b = Inr (t', b') \<Longrightarrow> sorted_map t'"
proof (induction n arbitrary: t b)
  case (Suc n)
  then show ?case
    by (auto simp: bindE_Inr_iff split: if_splits intro: Suc.IH [OF sorted_map_emplace])
qed simp

lemma readFieldTable_sorted: "readFieldTable' n d b = Inr (t, b') \<Longrightarrow> sorted_map t"
  by (cases n) (auto simp: bindE_Inr_iff split: if_splits intro: tableLoop_sorted [OF sorted_map_Nil])

section \<open>Properties\<close>

text \<open>
  (C9) a field table of well-formed values, written to a fresh buffer, is read back unchanged,
  and the reader stops exactly at the end of what was written. Nested tables and arrays,
  numbers of every width, floats and both string types are covered.
\<close>

theorem field_table_roundtrip:
  assumes "wf_table t"
  shows "readFieldTable (writeFieldTable t (Buffer_of []))
    = Inr (t, advance (length (enc_table t)) (writeFieldTable t (Buffer_of [])))"
  using assms by (rule field_table.rd_wr) (simp add: Buffer_of_def)

definition sample_table :: FieldTable where
  "sample_table =
     [(''a'', tableVal [(''k'', longString ''v''), (''n'', longInt (- 7))]),
      (''b'', arrayVal [boolean True, voidVal]), (''c'', floatVal 0x3FC00000)]"

lemma wf_sample_table: "wf_table sample_table"
proof -
  have e: "enc_entries sample_table = bdata (writeEntries sample_table (Buffer_of []))"
    by (simp add: enc_entries_def)
  have "wf_value 1 (longString ''v'')" "wf_value 1 (longInt (- 7))" "wf_value 1 (boolean True)"
    "wf_value 1 voidVal"
    by (auto intro: wf_value.intros)
  then have "wf_value 0 (tableVal [(''k'', longString ''v''), (''n'', longInt (- 7))])"
    "wf_value 0 (arrayVal [boolean True, voidVal])"
    by (auto intro!: wf_tableVal wf_arrayVal simp: MAX_FIELD_TABLE_DEPTH_def length_enc_scalar)
  then show ?thesis
    by (auto simp: wf_table_def sample_table_def wf_value_floatVal enc_value_tableVal enc_value_arrayVal
        enc_table_def length_enc_scalar)
qed

theorem field_table_roundtrip_witness:
  "wf_table sample_table \<and> readFieldTable (writeFieldTable sample_table (Buffer_of []))
    = Inr (sample_table, advance (length (enc_table sample_table)) (writeFieldTable sample_table (Buffer_of [])))"
  using wf_sample_table field_table_roundtrip [OF wf_sample_table] by blast

text \<open>
  (C10) on arbitrary bytes \<open>readFieldTable\<close> terminates with a table, having moved the cursor
  forward without leaving the vector or changing it, or throws one of its own exceptions: a
  bounds violation, an exceeded nesting depth or an unknown type tag.
\<close>

theorem readFieldTable_outcomes:
  "(\<exists>t b'. readFieldTable b = Inr (t, b') \<and> sorted_map t \<and> bdata b' = bdata b \<and>
      bpos b < bpos b' \<and> bpos b' \<le> length (bdata b)) \<or>
   (\<exists>e. readFieldTable b = Inl e \<and>
      (e = BufferUnderflow \<or> e = FieldTableDepth \<or> (\<exists>tag. e = UnknownFieldType tag)))"
proof (cases "readFieldTable b")
  case (Inl e)
  have "remaining b < length (bdata b) + 2" by (simp add: remaining_def)
  from fuel_enough(1) [OF this, of 0] Inl have "e \<noteq> FuelExhausted"
    by (auto simp: readFieldTable_def)
  with Inl show ?thesis by (cases e) auto
next
  case (Inr r)
  then obtain t b' where r: "readFieldTable' (length (bdata b) + 2) 0 b = Inr (t, b')"
    by (cases r) (auto simp: readFieldTable_def)
  from readers_inside(1) [OF r] readFieldTable_sorted [OF r] r show ?thesis
    by (auto simp: readFieldTable_def inside_def)
qed

text \<open>
  A table that came off the wire (in a payload below 4 GiB) can be written again, by a
  dead-letter, a delivery or the log, and reading that copy gives the same table: the reader
  accepts only tables within the limits of the format, quiets signalling NaNs and drops
  duplicate names.
\<close>

theorem field_table_reencode:
  assumes "length (bdata b) < 2 ^ 32" "readFieldTable b = Inr (t, b')"
  shows "readFieldTable (writeFieldTable t (Buffer_of []))
    = Inr (t, advance (length (enc_table t)) (writeFieldTable t (Buffer_of [])))"
  using readFieldTable_wf [OF assms] by (rule field_table.rd_wr) (simp add: Buffer_of_def)

text \<open>The duplicate name in this payload is dropped by the first read.\<close>

definition sample_payload :: "byte list" where
  "sample_payload = [0, 0, 0, 8, 1, 0x61, 0x74, 1, 1, 0x61, 0x74, 0]"

lemma read_sample_payload:
  "readFieldTable (Buffer_of sample_payload) = Inr ([(''a'', boolean True)], advance 12 (Buffer_of sample_payload))"
  by code_simp

theorem field_table_reencode_witness:
  "length (bdata (Buffer_of sample_payload)) < 2 ^ 32 \<and>
   readFieldTable (writeFieldTable [(''a'', boolean True)] (Buffer_of []))
    = Inr ([(''a'', boolean True)], advance (length (enc_table [(''a'', boolean True)]))
        (writeFieldTable [(''a'', boolean True)] (Buffer_of [])))"
proof -
  have l: "length (bdata (Buffer_of sample_payload)) < 2 ^ 32"
    by (simp add: Buffer_of_def sample_payload_def)
  with field_table_reencode [OF l read_sample_payload] show ?thesis by blast
qed

end
