(* ===== verification/Basic_Properties.thy ===== *)
theory Basic_Properties
  imports Field_Table_Roundtrip
begin

text \<open>
  The properties of a message's content header: struct \<open>BasicProperties\<close> of
  \<open>src/amqp/content.h\<close>, \<open>decode\<close> and \<open>encode\<close>, with the flag word that says which fields
  are present. The continuation bit (bit 0) and bit 1 are not interpreted by the code.
\<close>

definition PROP_CONTENT_TYPE :: u16 where
  "PROP_CONTENT_TYPE = push_bit 15 1"

definition PROP_CONTENT_ENCODING :: u16 where
  "PROP_CONTENT_ENCODING = push_bit 14 1"

definition PROP_HEADERS :: u16 where
  "PROP_HEADERS = push_bit 13 1"

definition PROP_DELIVERY_MODE :: u16 where
  "PROP_DELIVERY_MODE = push_bit 12 1"

definition PROP_PRIORITY :: u16 where
  "PROP_PRIORITY = push_bit 11 1"

definition PROP_CORRELATION_ID :: u16 where
  "PROP_CORRELATION_ID = push_bit 10 1"

definition PROP_REPLY_TO :: u16 where
  "PROP_REPLY_TO = push_bit 9 1"

definition PROP_EXPIRATION :: u16 where
  "PROP_EXPIRATION = push_bit 8 1"

definition PROP_MESSAGE_ID :: u16 where
  "PROP_MESSAGE_ID = push_bit 7 1"

definition PROP_TIMESTAMP :: u16 where
  "PROP_TIMESTAMP = push_bit 6 1"

definition PROP_TYPE :: u16 where
  "PROP_TYPE = push_bit 5 1"

definition PROP_USER_ID :: u16 where
  "PROP_USER_ID = push_bit 4 1"

definition PROP_APP_ID :: u16 where
  "PROP_APP_ID = push_bit 3 1"

definition PROP_CLUSTER_ID :: u16 where
  "PROP_CLUSTER_ID = push_bit 2 1"

record BasicProperties =
  content_type :: "string option"
  content_encoding :: "string option"
  headers :: "FieldTable option"
  delivery_mode :: "byte option"
  priority :: "byte option"
  correlation_id :: "string option"
  reply_to :: "string option"
  expiration :: "string option"
  message_id :: "string option"
  p_timestamp :: "u64 option"
  p_type :: "string option"
  user_id :: "string option"
  app_id :: "string option"
  cluster_id :: "string option"

definition no_properties :: BasicProperties where
  "no_properties = \<lparr>content_type = None, content_encoding = None, headers = None, delivery_mode = None, priority = None,
     correlation_id = None, reply_to = None, expiration = None, message_id = None,
     p_timestamp = None, p_type = None, user_id = None, app_id = None, cluster_id = None\<rparr>"

definition decode :: "Buffer \<Rightarrow> amqp_error + BasicProperties \<times> Buffer" where
  "decode b =
     bindE (readUint16 b) (\<lambda>(flags, b).
     bindE (readIf (flags AND PROP_CONTENT_TYPE \<noteq> 0) readShortString b) (\<lambda>(x0, b).
     bindE (readIf (flags AND PROP_CONTENT_ENCODING \<noteq> 0) readShortString b) (\<lambda>(x1, b).
     bindE (readIf (flags AND PROP_HEADERS \<noteq> 0) readFieldTable b) (\<lambda>(x2, b).
     bindE (readIf (flags AND PROP_DELIVERY_MODE \<noteq> 0) readUint8 b) (\<lambda>(x3, b).
     bindE (readIf (flags AND PROP_PRIORITY \<noteq> 0) readUint8 b) (\<lambda>(x4, b).
     bindE (readIf (flags AND PROP_CORRELATION_ID \<noteq> 0) readShortString b) (\<lambda>(x5, b).
     bindE (readIf (flags AND PROP_REPLY_TO \<noteq> 0) readShortString b) (\<lambda>(x6, b).
     bindE (readIf (flags AND PROP_EXPIRATION \<noteq> 0) readShortString b) (\<lambda>(x7, b).
     bindE (readIf (flags AND PROP_MESSAGE_ID \<noteq> 0) readShortString b) (\<lambda>(x8, b).
     bindE (readIf (flags AND PROP_TIMESTAMP \<noteq> 0) readUint64 b) (\<lambda>(x9, b).
     bindE (readIf (flags AND PROP_TYPE \<noteq> 0) readShortString b) (\<lambda>(x10, b).
     bindE (readIf (flags AND PROP_USER_ID \<noteq> 0) readShortString b) (\<lambda>(x11, b).
     bindE (readIf (flags AND PROP_APP_ID \<noteq> 0) readShortString b) (\<lambda>(x12, b).
     bindE (readIf (flags AND PROP_CLUSTER_ID \<noteq> 0) readShortString b) (\<lambda>(x13, b).
     Inr (\<lparr>content_type = x0, content_encoding = x1, headers = x2, delivery_mode = x3, priority = x4, correlation_id = x5, reply_to = x6, expiration = x7, message_id = x8, p_timestamp = x9, p_type = x10, user_id = x11, app_id = x12, cluster_id = x13\<rparr>, b))))))))))))))))"

text \<open>\<open>if (x) flags |= PROP_X\<close>\<close>

definition orFlag :: "'a option \<Rightarrow> u16 \<Rightarrow> u16 \<Rightarrow> u16" where
  "orFlag v m flags = (if v \<noteq> None then flags OR m else flags)"

definition flagsOf :: "BasicProperties \<Rightarrow> u16" where
  "flagsOf p =
     orFlag (cluster_id p) PROP_CLUSTER_ID
     (orFlag (app_id p) PROP_APP_ID
     (orFlag (user_id p) PROP_USER_ID
     (orFlag (p_type p) PROP_TYPE
     (orFlag (p_timestamp p) PROP_TIMESTAMP
     (orFlag (message_id p) PROP_MESSAGE_ID
     (orFlag (expiration p) PROP_EXPIRATION
     (orFlag (reply_to p) PROP_REPLY_TO
     (orFlag (correlation_id p) PROP_CORRELATION_ID
     (orFlag (priority p) PROP_PRIORITY
     (orFlag (delivery_mode p) PROP_DELIVERY_MODE
     (orFlag (headers p) PROP_HEADERS
     (orFlag (content_encoding p) PROP_CONTENT_ENCODING
     (orFlag (content_type p) PROP_CONTENT_TYPE
     (0))))))))))))))"

definition encode :: "BasicProperties \<Rightarrow> Buffer \<Rightarrow> Buffer" where
  "encode p b =
     writeOpt writeShortString (cluster_id p)
     (writeOpt writeShortString (app_id p)
     (writeOpt writeShortString (user_id p)
     (writeOpt writeShortString (p_type p)
     (writeOpt writeUint64 (p_timestamp p)
     (writeOpt writeShortString (message_id p)
     (writeOpt writeShortString (expiration p)
     (writeOpt writeShortString (reply_to p)
     (writeOpt writeShortString (correlation_id p)
     (writeOpt writeUint8 (priority p)
     (writeOpt writeUint8 (delivery_mode p)
     (writeOpt writeFieldTable (headers p)
     (writeOpt writeShortString (content_encoding p)
     (writeOpt writeShortString (content_type p)
     (writeUint16 (flagsOf p) b))))))))))))))"

section \<open>The flag word\<close>

lemmas prop_flag_defs = PROP_CONTENT_TYPE_def PROP_CONTENT_ENCODING_def PROP_HEADERS_def PROP_DELIVERY_MODE_def PROP_PRIORITY_def PROP_CORRELATION_ID_def PROP_REPLY_TO_def PROP_EXPIRATION_def PROP_MESSAGE_ID_def PROP_TIMESTAMP_def PROP_TYPE_def PROP_USER_ID_def PROP_APP_ID_def PROP_CLUSTER_ID_def

lemma bit_orFlag: "bit (orFlag v (push_bit n 1) w) k = (v \<noteq> None \<and> n = k \<and> k < 16 \<or> bit w k)"
  by (auto simp: orFlag_def bit_simps)

lemma flagsOf_flags:
  "flagsOf p AND PROP_CONTENT_TYPE \<noteq> 0 \<longleftrightarrow> content_type p \<noteq> None"
  "flagsOf p AND PROP_CONTENT_ENCODING \<noteq> 0 \<longleftrightarrow> content_encoding p \<noteq> None"
  "flagsOf p AND PROP_HEADERS \<noteq> 0 \<longleftrightarrow> headers p \<noteq> None"
  "flagsOf p AND PROP_DELIVERY_MODE \<noteq> 0 \<longleftrightarrow> delivery_mode p \<noteq> None"
  "flagsOf p AND PROP_PRIORITY \<noteq> 0 \<longleftrightarrow> priority p \<noteq> None"
  "flagsOf p AND PROP_CORRELATION_ID \<noteq> 0 \<longleftrightarrow> correlation_id p \<noteq> None"
  "flagsOf p AND PROP_REPLY_TO \<noteq> 0 \<longleftrightarrow> reply_to p \<noteq> None"
  "flagsOf p AND PROP_EXPIRATION \<noteq> 0 \<longleftrightarrow> expiration p \<noteq> None"
  "flagsOf p AND PROP_MESSAGE_ID \<noteq> 0 \<longleftrightarrow> message_id p \<noteq> None"
  "flagsOf p AND PROP_TIMESTAMP \<noteq> 0 \<longleftrightarrow> p_timestamp p \<noteq> None"
  "flagsOf p AND PROP_TYPE \<noteq> 0 \<longleftrightarrow> p_type p \<noteq> None"
  "flagsOf p AND PROP_USER_ID \<noteq> 0 \<longleftrightarrow> user_id p \<noteq> None"
  "flagsOf p AND PROP_APP_ID \<noteq> 0 \<longleftrightarrow> app_id p \<noteq> None"
  "flagsOf p AND PROP_CLUSTER_ID \<noteq> 0 \<longleftrightarrow> cluster_id p \<noteq> None"
  unfolding flagsOf_def prop_flag_defs bit_iff_and_push_bit_not_eq_0 [symmetric] bit_orFlag
  by simp_all

section \<open>The encoding\<close>

definition enc_props :: "BasicProperties \<Rightarrow> byte list" where
  "enc_props p = enc16 (flagsOf p) @ enc_opt enc_short (content_type p) @ enc_opt enc_short (content_encoding p) @ enc_opt enc_table (headers p) @ enc_opt (\<lambda>v. [v]) (delivery_mode p) @ enc_opt (\<lambda>v. [v]) (priority p) @ enc_opt enc_short (correlation_id p) @ enc_opt enc_short (reply_to p) @ enc_opt enc_short (expiration p) @ enc_opt enc_short (message_id p) @ enc_opt enc64 (p_timestamp p) @ enc_opt enc_short (p_type p) @ enc_opt enc_short (user_id p) @ enc_opt enc_short (app_id p) @ enc_opt enc_short (cluster_id p)"

definition wf_props :: "BasicProperties \<Rightarrow> bool" where
  "wf_props p \<longleftrightarrow> pred_option wf_table (headers p) \<and>
     list_all (pred_option (\<lambda>s. length s \<le> 255))
       [content_type p, content_encoding p, correlation_id p, reply_to p, expiration p, message_id p, p_type p, user_id p, app_id p, cluster_id p]"

lemma encode_append [wire]: "encode p b = writeBytes (enc_props p) b"
  unfolding encode_def enc_props_def
  by (simp add: short_str.writeOpt_append field_table.writeOpt_append u8.writeOpt_append
      u64.writeOpt_append u16.wr_append)

lemma decode_enc_props:
  assumes "wf_props p" and a: "at_input b (enc_props p @ rest)"
  shows "decode b = Inr (p, advance (length (enc_props p)) b)"
proof -
  have ok: "pred_option (\<lambda>s. length s \<le> 255) (content_type p)" "pred_option (\<lambda>s. length s \<le> 255) (content_encoding p)" "pred_option (\<lambda>s. length s \<le> 255) (correlation_id p)" "pred_option (\<lambda>s. length s \<le> 255) (reply_to p)" "pred_option (\<lambda>s. length s \<le> 255) (expiration p)" "pred_option (\<lambda>s. length s \<le> 255) (message_id p)" "pred_option (\<lambda>s. length s \<le> 255) (p_type p)" "pred_option (\<lambda>s. length s \<le> 255) (user_id p)" "pred_option (\<lambda>s. length s \<le> 255) (app_id p)" "pred_option (\<lambda>s. length s \<le> 255) (cluster_id p)"
    and h: "pred_option wf_table (headers p)"
    using assms(1) by (simp_all add: wf_props_def)
  have T8: "pred_option (\<lambda>_ :: byte. True) v" for v by (cases v) simp_all
  have T64: "pred_option (\<lambda>_ :: u64. True) v" for v by (cases v) simp_all
  note a0 = u16.rd_then(2) [OF TrueI a [unfolded enc_props_def append_assoc]]
  note a1 = short_str.readIf_then(2) [OF ok(1) a0]
  note a2 = short_str.readIf_then(2) [OF ok(2) a1]
  note a3 = field_table.readIf_then(2) [OF h a2]
  note a4 = u8.readIf_then(2) [OF T8 a3]
  note a5 = u8.readIf_then(2) [OF T8 a4]
  note a6 = short_str.readIf_then(2) [OF ok(3) a5]
  note a7 = short_str.readIf_then(2) [OF ok(4) a6]
  note a8 = short_str.readIf_then(2) [OF ok(5) a7]
  note a9 = short_str.readIf_then(2) [OF ok(6) a8]
  note a10 = u64.readIf_then(2) [OF T64 a9]
  note a11 = short_str.readIf_then(2) [OF ok(7) a10]
  note a12 = short_str.readIf_then(2) [OF ok(8) a11]
  note a13 = short_str.readIf_then(2) [OF ok(9) a12]
  note a14 = short_str.readIf_then(2) [OF ok(10) a13]
  show ?thesis
    unfolding decode_def u16.rd_then(1) [OF TrueI a [unfolded enc_props_def append_assoc]] prod.case flagsOf_flags
      short_str.readIf_then(1) [OF ok(1) a0] prod.case
      short_str.readIf_then(1) [OF ok(2) a1] prod.case
      field_table.readIf_then(1) [OF h a2] prod.case
      u8.readIf_then(1) [OF T8 a3] prod.case
      u8.readIf_then(1) [OF T8 a4] prod.case
      short_str.readIf_then(1) [OF ok(3) a5] prod.case
      short_str.readIf_then(1) [OF ok(4) a6] prod.case
      short_str.readIf_then(1) [OF ok(5) a7] prod.case
      short_str.readIf_then(1) [OF ok(6) a8] prod.case
      u64.readIf_then(1) [OF T64 a9] prod.case
      short_str.readIf_then(1) [OF ok(7) a10] prod.case
      short_str.readIf_then(1) [OF ok(8) a11] prod.case
      short_str.readIf_then(1) [OF ok(9) a12] prod.case
      short_str.readIf_then(1) [OF ok(10) a13] prod.case
    by (simp add: enc_props_def)
qed

interpretation props: codec wf_props enc_props encode decode
  by unfold_locales (simp_all add: wire decode_enc_props)

section \<open>What is decoded is well-formed\<close>

lemma yields_read:
  assumes "bdata b = D"
  shows "yields (\<lambda>x. bdata (snd x) = D \<and> True) (readUint16 b)"
    and "yields (\<lambda>x. bdata (snd x) = D \<and> True) (readIf c readUint8 b)"
    and "yields (\<lambda>x. bdata (snd x) = D \<and> True) (readIf c readUint64 b)"
    and "yields (\<lambda>x. bdata (snd x) = D \<and> pred_option (\<lambda>s. length s \<le> 255) (fst x)) (readIf c readShortString b)"
    and "length D < 2 ^ 32 \<Longrightarrow>
      yields (\<lambda>x. bdata (snd x) = D \<and> pred_option wf_table (fst x)) (readIf c readFieldTable b)"
  using assms
  by (auto simp: yields_def readIf_def mapR_Inr_iff inside_def split: if_splits
      dest: rshort.rd_inside r8.rd_inside r16.rd_inside r64.rd_inside read_string_positions
        readFieldTable_inside intro: readFieldTable_wf [simplified])

lemma yields_bind_read:
  assumes "yields (\<lambda>x. bdata (snd x) = D \<and> P (fst x)) m"
    and "\<And>v b. bdata b = D \<Longrightarrow> P v \<Longrightarrow> yields S (g v b)"
  shows "yields S (bindE m (\<lambda>(v, b). g v b))"
  using assms(1) by (rule yields_bind) (use assms(2) in \<open>auto simp: prod_eq_iff\<close>)

lemma decode_wf:
  assumes "length (bdata b) < 2 ^ 32" "decode b = Inr (p, b')"
  shows "wf_props p"
proof -
  have "yields (\<lambda>x. wf_props (fst x)) (decode b)"
    unfolding decode_def
    by (intro yields_read [THEN yields_bind_read [where D = "bdata b"]])
      (use assms(1) in \<open>simp_all add: wf_props_def\<close>)
  with assms(2) show ?thesis by (simp add: yields_def)
qed

section \<open>Properties\<close>


definition sample_props :: BasicProperties where
  "sample_props = no_properties\<lparr>content_type := Some ''text/plain'', headers := Some sample_table,
     delivery_mode := Some 2, p_timestamp := Some 1700000000\<rparr>"


text \<open>
  Properties decoded from any payload below 4 GiB can be re-encoded (into a delivery, a
  returned message or the log) and decode to the same record again.
\<close>

theorem basic_properties_reencode:
  assumes "length (bdata b) < 2 ^ 32" "decode b = Inr (p, b')"
  shows "decode (encode p (Buffer_of [])) = Inr (p, advance (length (enc_props p)) (encode p (Buffer_of [])))"
  using decode_wf [OF assms] by (rule props.rd_wr) (simp add: Buffer_of_def)

theorem basic_properties_reencode_witness:
  "decode (encode (no_properties\<lparr>priority := Some 5\<rparr>) (Buffer_of []))
    = Inr (no_properties\<lparr>priority := Some 5\<rparr>, advance (length (enc_props (no_properties\<lparr>priority := Some 5\<rparr>)))
        (encode (no_properties\<lparr>priority := Some 5\<rparr>) (Buffer_of [])))"
proof -
  have l: "length (bdata (Buffer_of [8, 0, 5])) < 2 ^ 32" by (simp add: Buffer_of_def)
  have "decode (Buffer_of [8, 0, 5]) = Inr (no_properties\<lparr>priority := Some 5\<rparr>, advance 3 (Buffer_of [8, 0, 5]))"
    by code_simp
  from basic_properties_reencode [OF l this] show ?thesis .
qed

end
