(* ===== verification/Broker_Objects.thy ===== *)
theory Broker_Objects
  imports Basic_Properties "HOL-Library.Signed_Division"
begin

text \<open>
  The objects that several components share by \<open>std::shared_ptr\<close>: messages
  (\<open>broker/message.h\<close>) and consumers (\<open>broker/consumer.h\<close>). Sharing is observable - a dead
  letter routed to two queues is one \<open>Message\<close> whose counters both queues change, a
  consumer's \<open>in_flight\<close> is changed by the queue and by the channel -, so pointers are
  addresses into an explicit store. The store also holds the readings of
  \<open>std::chrono::steady_clock\<close> still to come (in nanoseconds) and the tasks that delivery
  callbacks have posted to connection strands, oldest first.
\<close>

section \<open>Messages and consumers\<close>

type_synonym addr = nat

record Message =
  m_exchange :: string
  m_routing_key :: string
  m_mandatory :: bool
  m_immediate :: bool
  m_properties :: BasicProperties
  m_body :: "byte list"
  m_redelivered :: bool
  m_enqueued_at :: int
  m_wal_id :: u64
  m_source_connection_id :: u32
  m_dlx_hops :: u32

definition new_Message :: Message where
  "new_Message = \<lparr>m_exchange = [], m_routing_key = [], m_mandatory = False,
     m_immediate = False, m_properties = no_properties, m_body = [], m_redelivered = False,
     m_enqueued_at = 0, m_wal_id = 0, m_source_connection_id = 0, m_dlx_hops = 0\<rparr>"

definition isPersistent :: "Message \<Rightarrow> bool" where
  "isPersistent m \<longleftrightarrow> delivery_mode (m_properties m) = Some 2"

definition effectivePriority :: "Message \<Rightarrow> byte" where
  "effectivePriority m = (case priority (m_properties m) of None \<Rightarrow> 0 | Some p \<Rightarrow> p)"

text \<open>
  \<open>on_deliver\<close> is a closure over a channel object and a queue name, or null. Channel objects
  are numbered; a channel number that is closed and opened again is another object.
\<close>

record Consumer =
  c_tag :: string
  c_queue_name :: string
  c_no_local :: bool
  c_no_ack :: bool
  c_exclusive :: bool
  c_channel_id :: u16
  c_connection_id :: u32
  c_prefetch_count :: u16
  c_in_flight :: u32
  c_on_deliver :: "(nat \<times> string) option"

record DeliveryTask =
  t_channel :: nat
  t_tag :: string
  t_exchange :: string
  t_routing_key :: string
  t_redelivered :: bool
  t_props :: BasicProperties
  t_body :: "byte list"
  t_queue :: string
  t_msg :: addr

section \<open>The store\<close>

record Heap =
  h_messages :: "Message list"
  h_consumers :: "Consumer list"
  h_clock :: "nat \<Rightarrow> int"
  h_posted :: "DeliveryTask list"

definition msg_at :: "Heap \<Rightarrow> addr \<Rightarrow> Message" where
  "msg_at h a = h_messages h ! a"

definition con_at :: "Heap \<Rightarrow> addr \<Rightarrow> Consumer" where
  "con_at h a = h_consumers h ! a"

definition put_msg :: "addr \<Rightarrow> Message \<Rightarrow> Heap \<Rightarrow> Heap" where
  "put_msg a m h = h\<lparr>h_messages := (h_messages h)[a := m]\<rparr>"

definition put_con :: "addr \<Rightarrow> Consumer \<Rightarrow> Heap \<Rightarrow> Heap" where
  "put_con a c h = h\<lparr>h_consumers := (h_consumers h)[a := c]\<rparr>"

text \<open>\<open>std::make_shared\<close>: a fresh address, the old ones undisturbed.\<close>

definition alloc_msg :: "Message \<Rightarrow> Heap \<Rightarrow> addr \<times> Heap" where
  "alloc_msg m h = (length (h_messages h), h\<lparr>h_messages := h_messages h @ [m]\<rparr>)"

definition alloc_con :: "Consumer \<Rightarrow> Heap \<Rightarrow> addr \<times> Heap" where
  "alloc_con c h = (length (h_consumers h), h\<lparr>h_consumers := h_consumers h @ [c]\<rparr>)"

definition now :: "Heap \<Rightarrow> int \<times> Heap" where
  "now h = (h_clock h 0, h\<lparr>h_clock := \<lambda>n. h_clock h (Suc n)\<rparr>)"

definition post :: "DeliveryTask \<Rightarrow> Heap \<Rightarrow> Heap" where
  "post t h = h\<lparr>h_posted := h_posted h @ [t]\<rparr>"

definition msg_ok :: "Heap \<Rightarrow> addr \<Rightarrow> bool" where
  "msg_ok h a \<longleftrightarrow> a < length (h_messages h)"

definition con_ok :: "Heap \<Rightarrow> addr \<Rightarrow> bool" where
  "con_ok h a \<longleftrightarrow> a < length (h_consumers h)"

lemma msg_at_put_msg [heap_simps]:
  "msg_ok h a \<Longrightarrow> msg_at (put_msg a m h) b = (if a = b then m else msg_at h b)"
  by (simp add: msg_at_def put_msg_def msg_ok_def)

lemma con_at_put_con [heap_simps]:
  "con_ok h a \<Longrightarrow> con_at (put_con a c h) b = (if a = b then c else con_at h b)"
  by (simp add: con_at_def put_con_def con_ok_def)

lemma msg_at_alloc [heap_simps]:
  "msg_ok h b \<Longrightarrow> msg_at (snd (alloc_msg m h)) b = msg_at h b"
  "msg_at (snd (alloc_msg m h)) (fst (alloc_msg m h)) = m"
  by (simp_all add: msg_at_def alloc_msg_def msg_ok_def nth_append)

lemma store_frames [heap_simps]:
  "msg_at (put_con x c h) b = msg_at h b"
  "con_at (put_msg a m h) y = con_at h y"
  "con_at (snd (alloc_msg m h)) y = con_at h y"
  "msg_at (snd (now h)) b = msg_at h b"
  "con_at (snd (now h)) y = con_at h y"
  "msg_at (post t h) b = msg_at h b"
  "con_at (post t h) y = con_at h y"
  "h_posted (put_con x c h) = h_posted h"
  "h_posted (put_msg a m h) = h_posted h"
  "h_posted (snd (alloc_msg m h)) = h_posted h"
  "h_posted (snd (now h)) = h_posted h"
  "h_posted (post t h) = h_posted h @ [t]"
  by (simp_all add: msg_at_def con_at_def put_con_def put_msg_def alloc_msg_def now_def post_def)

lemma store_ok [heap_simps]:
  "msg_ok (put_con x c h) b = msg_ok h b"
  "msg_ok (put_msg a m h) b = msg_ok h b"
  "msg_ok (snd (now h)) b = msg_ok h b"
  "msg_ok (post t h) b = msg_ok h b"
  "con_ok (put_con x c h) y = con_ok h y"
  "con_ok (put_msg a m h) y = con_ok h y"
  "con_ok (snd (alloc_msg m h)) y = con_ok h y"
  "con_ok (snd (now h)) y = con_ok h y"
  "con_ok (post t h) y = con_ok h y"
  by (simp_all add: msg_ok_def con_ok_def put_con_def put_msg_def alloc_msg_def now_def post_def)

lemma msg_ok_alloc [heap_simps]: "msg_ok h b \<Longrightarrow> msg_ok (snd (alloc_msg m h)) b"
  by (simp add: msg_ok_def alloc_msg_def)

end
