(* ===== verification/Message_Queue.thy ===== *)
theory Message_Queue
  imports Broker_Objects
begin

text \<open>
  Queues (\<open>broker/queue.h\<close>): the configuration of a queue, priority order, expiry, the round
  robin dispatch to consumers under their prefetch limits, and dead-lettering. An operation
  takes the store and the queue and returns both. The dead-letter handler is a callback into
  the virtual host that may call back into queues, so an operation that dead-letters is split
  where the code releases its lock: the first part returns the messages to dead-letter,
  and \<open>deadLetter\<close> returns the call of the handler, which the virtual host performs.
\<close>

section \<open>The queue object\<close>

record MessageQueue =
  q_name :: string
  q_durable :: bool
  q_exclusive :: bool
  q_auto_delete :: bool
  q_arguments :: FieldTable
  q_owner_connection :: u32
  q_messages :: "addr list"
  q_consumers :: "addr list"
  q_roundRobinIdx :: u64
  q_queueTtlMs :: int
  q_maxPriority :: byte
  q_dlxExchange :: string
  q_dlxRoutingKey :: string
  q_deadLetterFn :: bool

type_synonym dead_letters = "(addr \<times> string) list"

definition new_MessageQueue :: "string \<Rightarrow> MessageQueue" where
  "new_MessageQueue qname = \<lparr>q_name = qname, q_durable = False, q_exclusive = False,
     q_auto_delete = False, q_arguments = [], q_owner_connection = 0, q_messages = [],
     q_consumers = [], q_roundRobinIdx = 0, q_queueTtlMs = - 1, q_maxPriority = 0,
     q_dlxExchange = [], q_dlxRoutingKey = [], q_deadLetterFn = False\<rparr>"

definition configure :: "MessageQueue \<Rightarrow> MessageQueue" where
  "configure q =
     (let arg = map_of (q_arguments q);
          q1 = (case arg ''x-message-ttl'' of None \<Rightarrow> q
                | Some v \<Rightarrow> q\<lparr>q_queueTtlMs := sint (int_val v)\<rparr>);
          q2 = (case arg ''x-max-priority'' of None \<Rightarrow> q1
                | Some v \<Rightarrow> q1\<lparr>q_maxPriority := word_of_int (min 255 (sint (int_val v)))\<rparr>);
          q3 = (case arg ''x-dead-letter-exchange'' of None \<Rightarrow> q2
                | Some v \<Rightarrow> q2\<lparr>q_dlxExchange := string_val v\<rparr>)
      in case arg ''x-dead-letter-routing-key'' of None \<Rightarrow> q3
         | Some v \<Rightarrow> q3\<lparr>q_dlxRoutingKey := string_val v\<rparr>)"

definition setDeadLetterHandler :: "MessageQueue \<Rightarrow> MessageQueue" where
  "setDeadLetterHandler q = q\<lparr>q_deadLetterFn := True\<rparr>"

definition messageCount :: "MessageQueue \<Rightarrow> u32" where
  "messageCount q = word_of_nat (length (q_messages q))"

definition consumerCount :: "MessageQueue \<Rightarrow> u32" where
  "consumerCount q = word_of_nat (length (q_consumers q))"

section \<open>Expiry\<close>

text \<open>
  \<open>std::stoll\<close>: white space, an optional sign, decimal digits, the rest ignored; \<open>None\<close>
  stands for the two exceptions (no digit, out of range of \<open>long long\<close>).
\<close>

definition isspace :: "char \<Rightarrow> bool" where
  "isspace c \<longleftrightarrow> (let n = (of_char c :: nat) in n = 32 \<or> 9 \<le> n \<and> n \<le> 13)"

definition isdigit :: "char \<Rightarrow> bool" where
  "isdigit c \<longleftrightarrow> (let n = (of_char c :: nat) in 48 \<le> n \<and> n \<le> 57)"

definition digits_value :: "string \<Rightarrow> int" where
  "digits_value ds = foldl (\<lambda>v c. 10 * v + (of_char c - 48)) 0 ds"

definition stoll :: "string \<Rightarrow> int option" where
  "stoll s =
     (let s1 = dropWhile isspace s;
          neg = (s1 \<noteq> [] \<and> hd s1 = CHR ''-'');
          s2 = (if s1 \<noteq> [] \<and> (hd s1 = CHR ''-'' \<or> hd s1 = CHR ''+'') then tl s1 else s1);
          ds = takeWhile isdigit s2;
          v = (if neg then - digits_value ds else digits_value ds)
      in if ds = [] \<or> v < - (2 ^ 63) \<or> v \<ge> 2 ^ 63 then None else Some v)"

definition effectiveTtl :: "MessageQueue \<Rightarrow> Message \<Rightarrow> int" where
  "effectiveTtl q m =
     (let perMsg = (case expiration (m_properties m) of
                      None \<Rightarrow> - 1
                    | Some e \<Rightarrow> (case stoll e of None \<Rightarrow> - 1 | Some v \<Rightarrow> v));
          queueTtl = q_queueTtlMs q
      in if perMsg \<ge> 0 \<and> queueTtl \<ge> 0 then min perMsg queueTtl
         else if perMsg \<ge> 0 then perMsg
         else queueTtl)"

definition hasPerMessageTtl :: "Heap \<Rightarrow> MessageQueue \<Rightarrow> bool" where
  "hasPerMessageTtl h q \<longleftrightarrow>
     list_ex (\<lambda>a. expiration (m_properties (msg_at h a)) \<noteq> None) (q_messages q)"

text \<open>\<open>duration_cast\<close> to milliseconds of a difference of nanosecond counts truncates.\<close>

definition age_ms :: "int \<Rightarrow> Message \<Rightarrow> int" where
  "age_ms t m = (t - m_enqueued_at m) sdiv 1000000"

fun expireLoop :: "Heap \<Rightarrow> MessageQueue \<Rightarrow> int \<Rightarrow> addr list \<Rightarrow> dead_letters \<Rightarrow>
    addr list \<times> dead_letters" where
  "expireLoop h q t [] dlq = ([], dlq)"
| "expireLoop h q t (a # as) dlq =
     (let ttl = effectiveTtl q (msg_at h a) in
      if ttl < 0 then (a # as, dlq)
      else if age_ms t (msg_at h a) < ttl then (a # as, dlq)
      else expireLoop h q t as (dlq @ [(a, ''expired'')]))"

definition collectExpired :: "Heap \<Rightarrow> MessageQueue \<Rightarrow> Heap \<times> MessageQueue \<times> dead_letters" where
  "collectExpired h q =
     (if q_queueTtlMs q < 0 \<and> \<not> hasPerMessageTtl h q then (h, q, [])
      else let (t, h1) = now h;
               (as, dlq) = expireLoop h1 q t (q_messages q) []
           in (h1, q\<lparr>q_messages := as\<rparr>, dlq))"

section \<open>Dispatch to consumers\<close>

text \<open>
  The callback that \<open>basic.consume\<close> installs (\<open>channel.cpp\<close>): it copies the payload into a
  message of its own and posts a task to the strand of the channel's connection.
\<close>

definition on_deliver :: "nat \<times> string \<Rightarrow> string \<Rightarrow> Message \<Rightarrow> Heap \<Rightarrow> Heap" where
  "on_deliver closure tag taken h =
     (let (a, h1) = alloc_msg (new_Message\<lparr>m_exchange := m_exchange taken,
              m_routing_key := m_routing_key taken, m_properties := m_properties taken,
              m_body := m_body taken, m_redelivered := m_redelivered taken\<rparr>) h
      in post \<lparr>t_channel = fst closure, t_tag = tag, t_exchange = m_exchange taken,
               t_routing_key = m_routing_key taken, t_redelivered = m_redelivered taken,
               t_props = m_properties taken, t_body = m_body taken,
               t_queue = snd closure, t_msg = a\<rparr> h1)"

text \<open>The three reasons for which the loop passes over a consumer.\<close>

definition prefetchFull :: "Consumer \<Rightarrow> bool" where
  "prefetchFull c \<longleftrightarrow> c_prefetch_count c > 0 \<and> c_in_flight c \<ge> ucast (c_prefetch_count c)"

definition localBlocked :: "Consumer \<Rightarrow> Message \<Rightarrow> bool" where
  "localBlocked c m \<longleftrightarrow> c_no_local c \<and> m_source_connection_id m = c_connection_id c"

definition deliverTo :: "addr \<Rightarrow> nat \<times> string \<Rightarrow> addr \<Rightarrow> Heap \<Rightarrow> Heap" where
  "deliverTo ci closure a h =
     (let c = con_at h ci;
          h1 = (if \<not> c_no_ack c then put_con ci (c\<lparr>c_in_flight := c_in_flight c + 1\<rparr>) h else h)
      in on_deliver closure (c_tag c) (msg_at h a) h1)"

text \<open>
  The inner loop. It runs on a non-empty queue only; the branch for an empty one is there
  because the definition is total.
\<close>

fun tryConsumers :: "nat \<Rightarrow> Heap \<Rightarrow> MessageQueue \<Rightarrow> bool \<times> Heap \<times> MessageQueue" where
  "tryConsumers 0 h q = (False, h, q)"
| "tryConsumers (Suc n) h q =
     (let ci = q_consumers q ! (unat (q_roundRobinIdx q) mod length (q_consumers q));
          c = con_at h ci;
          q1 = q\<lparr>q_roundRobinIdx := q_roundRobinIdx q + 1\<rparr>
      in case c_on_deliver c of
           None \<Rightarrow> tryConsumers n h q1
         | Some closure \<Rightarrow>
             if prefetchFull c then tryConsumers n h q1
             else (case q_messages q of
                     [] \<Rightarrow> tryConsumers n h q1
                   | a # as \<Rightarrow>
                       if localBlocked c (msg_at h a) then tryConsumers n h q1
                       else (True, deliverTo ci closure a h, q1\<lparr>q_messages := as\<rparr>)))"

lemma tryConsumers_pops:
  "tryConsumers n h q = (True, h', q') \<Longrightarrow> length (q_messages q') < length (q_messages q)"
proof (induction n arbitrary: q)
  case (Suc n)
  from Suc.prems Suc.IH [of "q\<lparr>q_roundRobinIdx := q_roundRobinIdx q + 1\<rparr>"] show ?case
    by (force simp: Let_def split: option.splits list.splits if_splits)
qed simp

function dispatchLoop :: "Heap \<Rightarrow> MessageQueue \<Rightarrow> Heap \<times> MessageQueue" where
  "dispatchLoop h q =
     (if q_messages q = [] then (h, q)
      else case tryConsumers (length (q_consumers q)) h q of
             (True, h', q') \<Rightarrow> dispatchLoop h' q'
           | (False, h', q') \<Rightarrow> (h', q'))"
  by pat_completeness auto
termination
  by (relation "measure (\<lambda>(h, q). length (q_messages q))") (auto dest: tryConsumers_pops [OF sym])

declare dispatchLoop.simps [simp del]

definition dispatchLocked :: "Heap \<Rightarrow> MessageQueue \<Rightarrow> Heap \<times> MessageQueue" where
  "dispatchLocked h q = (if q_consumers q = [] then (h, q) else dispatchLoop h q)"

section \<open>The operations\<close>

text \<open>
  The comparator of \<open>std::stable_sort\<close> puts higher priorities first; \<open>sort_key\<close> is stable.
\<close>

definition prioritySort :: "Heap \<Rightarrow> addr list \<Rightarrow> addr list" where
  "prioritySort h as = sort_key (\<lambda>a. 255 - unat (effectivePriority (msg_at h a))) as"

definition enqueueLocked :: "addr \<Rightarrow> Heap \<Rightarrow> MessageQueue \<Rightarrow> Heap \<times> MessageQueue \<times> dead_letters" where
  "enqueueLocked a h q =
     (let (t, h1) = now h;
          h2 = put_msg a ((msg_at h1 a)\<lparr>m_enqueued_at := t\<rparr>) h1;
          as = q_messages q @ [a];
          q1 = q\<lparr>q_messages := if q_maxPriority q > 0 then prioritySort h2 as else as\<rparr>;
          (h3, q2, dlq) = collectExpired h2 q1;
          (h4, q3) = dispatchLocked h3 q2
      in (h4, q3, dlq))"

definition addConsumer :: "addr \<Rightarrow> Heap \<Rightarrow> MessageQueue \<Rightarrow> Heap \<times> MessageQueue" where
  "addConsumer ci h q = dispatchLocked h (q\<lparr>q_consumers := q_consumers q @ [ci]\<rparr>)"

definition clear_on_deliver :: "addr \<Rightarrow> Heap \<Rightarrow> Heap" where
  "clear_on_deliver ci h = put_con ci ((con_at h ci)\<lparr>c_on_deliver := None\<rparr>) h"

definition removeConsumer :: "string \<Rightarrow> Heap \<Rightarrow> MessageQueue \<Rightarrow> bool \<times> Heap \<times> MessageQueue" where
  "removeConsumer tag h q =
     (let cs = q_consumers q;
          i = length (takeWhile (\<lambda>ci. c_tag (con_at h ci) \<noteq> tag) cs)
      in if i = length cs then (False, h, q)
         else (True, clear_on_deliver (cs ! i) h,
               q\<lparr>q_consumers := take i cs @ drop (Suc i) cs\<rparr>))"

definition removeConsumersByConnection ::
  "u32 \<Rightarrow> Heap \<Rightarrow> MessageQueue \<Rightarrow> Heap \<times> MessageQueue" where
  "removeConsumersByConnection connId h q =
     (let h1 = fold (\<lambda>ci h. if c_connection_id (con_at h ci) = connId
                            then clear_on_deliver ci h else h) (q_consumers q) h
      in (h1, q\<lparr>q_consumers := filter (\<lambda>ci. c_connection_id (con_at h1 ci) \<noteq> connId)
                                     (q_consumers q)\<rparr>))"

definition getLocked ::
  "Heap \<Rightarrow> MessageQueue \<Rightarrow> addr option \<times> Heap \<times> MessageQueue \<times> dead_letters" where
  "getLocked h q =
     (let (h1, q1, dlq) = collectExpired h q
      in case q_messages q1 of
           [] \<Rightarrow> (None, h1, q1, dlq)
         | a # as \<Rightarrow> (Some a, h1, q1\<lparr>q_messages := as\<rparr>, dlq))"

definition purge :: "MessageQueue \<Rightarrow> u32 \<times> MessageQueue" where
  "purge q = (word_of_nat (length (q_messages q)), q\<lparr>q_messages := []\<rparr>)"

text \<open>The requeue branch of \<open>reject\<close>; the other branch is \<open>deadLetter\<close> with \<open>rejected\<close>.\<close>

definition requeueLocked :: "addr \<Rightarrow> Heap \<Rightarrow> MessageQueue \<Rightarrow> Heap \<times> MessageQueue" where
  "requeueLocked a h q =
     dispatchLocked (put_msg a ((msg_at h a)\<lparr>m_redelivered := True\<rparr>) h)
       (q\<lparr>q_messages := a # q_messages q\<rparr>)"

definition flushLocked :: "Heap \<Rightarrow> MessageQueue \<Rightarrow> Heap \<times> MessageQueue \<times> dead_letters" where
  "flushLocked h q =
     (let (h1, q1, dlq) = collectExpired h q;
          (h2, q2) = dispatchLocked h1 q1
      in (h2, q2, dlq))"

definition MAX_DLX_HOPS :: u32 where
  "MAX_DLX_HOPS = 20"

text \<open>
  \<open>deadLetter\<close> returns the store and, unless the message is dropped, the arguments with which
  the dead-letter handler is called.
\<close>

definition deadLetter ::
  "MessageQueue \<Rightarrow> addr \<Rightarrow> string \<Rightarrow> Heap \<Rightarrow> Heap \<times> (string \<times> string \<times> addr) option" where
  "deadLetter q a reason h =
     (if q_dlxExchange q = [] \<or> \<not> q_deadLetterFn q then (h, None)
      else let m = (msg_at h a)\<lparr>m_dlx_hops := m_dlx_hops (msg_at h a) + 1\<rparr> in
        if m_dlx_hops m > MAX_DLX_HOPS then (put_msg a m h, None)
        else let hs0 = (case headers (m_properties m) of None \<Rightarrow> [] | Some t \<Rightarrow> t);
                 hs1 = map_assign ''x-first-death-reason'' (longString reason) hs0;
                 hs2 = map_assign ''x-first-death-queue'' (longString (q_name q)) hs1;
                 hs3 = map_assign ''x-first-death-exchange'' (longString (m_exchange m)) hs2;
                 m' = m\<lparr>m_properties := (m_properties m)\<lparr>headers := Some hs3\<rparr>\<rparr>;
                 rk = (if q_dlxRoutingKey q = [] then m_routing_key m else q_dlxRoutingKey q)
             in (put_msg a m' h, Some (q_dlxExchange q, rk, a)))"

end
