(* ===== verification/Queue_Delivery.thy ===== *)
theory Queue_Delivery
  imports Message_Queue
begin

text \<open>
  Correctness of the dispatch loop of \<open>broker/queue.h\<close>. The loop is refined to a step
  relation in which any eligible consumer takes the message at the head of the queue; what the
  relation preserves - order, payload, prefetch limits - is proved by rule induction and holds
  of every operation that dispatches. That the loop does not stop early, and the round robin
  order, are properties of the loop itself.
\<close>

section \<open>One delivery\<close>

definition task_payload where
  "task_payload t = (t_exchange t, t_routing_key t, t_redelivered t, t_props t, t_body t)"

definition msg_payload where
  "msg_payload m = (m_exchange m, m_routing_key m, m_redelivered m, m_properties m, m_body m)"

lemma con_at_deliverTo [heap_simps]:
  "con_ok h ci \<Longrightarrow> con_at (deliverTo ci cl a h) x =
     (if x = ci \<and> \<not> c_no_ack (con_at h ci)
      then (con_at h ci)\<lparr>c_in_flight := c_in_flight (con_at h ci) + 1\<rparr> else con_at h x)"
  by (auto simp: deliverTo_def on_deliver_def Let_def heap_simps split_beta)

lemma msg_at_deliverTo [heap_simps]: "msg_ok h b \<Longrightarrow> msg_at (deliverTo ci cl a h) b = msg_at h b"
  by (auto simp: deliverTo_def on_deliver_def Let_def heap_simps split_beta)

lemma deliverTo_ok [heap_simps]:
  "msg_ok h b \<Longrightarrow> msg_ok (deliverTo ci cl a h) b"
  "con_ok (deliverTo ci cl a h) x = con_ok h x"
  by (auto simp: deliverTo_def on_deliver_def Let_def heap_simps split_beta)

lemma deliverTo_clock [heap_simps]: "h_clock (deliverTo ci cl a h) = h_clock h"
  by (auto simp: deliverTo_def on_deliver_def Let_def alloc_msg_def post_def put_con_def)

lemma posted_deliverTo:
  obtains t where "h_posted (deliverTo ci cl a h) = h_posted h @ [t]"
    "task_payload t = msg_payload (msg_at h a)" "t_tag t = c_tag (con_at h ci)"
    "t_channel t = fst cl" "t_queue t = snd cl"
  by (auto simp: deliverTo_def on_deliver_def Let_def heap_simps split_beta task_payload_def
      msg_payload_def)

section \<open>The step relation\<close>

definition eligible :: "Heap \<Rightarrow> addr \<Rightarrow> addr \<Rightarrow> bool" where
  "eligible h ci a \<longleftrightarrow> c_on_deliver (con_at h ci) \<noteq> None \<and> \<not> prefetchFull (con_at h ci) \<and>
     \<not> localBlocked (con_at h ci) (msg_at h a)"

inductive delivery_step :: "Heap \<times> MessageQueue \<Rightarrow> Heap \<times> MessageQueue \<Rightarrow> bool" where
  skip: "delivery_step (h, q) (h, q\<lparr>q_roundRobinIdx := r\<rparr>)"
| take: "q_messages q = a # as \<Longrightarrow> ci \<in> set (q_consumers q) \<Longrightarrow> eligible h ci a \<Longrightarrow>
         c_on_deliver (con_at h ci) = Some cl \<Longrightarrow>
         delivery_step (h, q)
           (deliverTo ci cl a h, q\<lparr>q_roundRobinIdx := r, q_messages := as\<rparr>)"

abbreviation delivery_steps :: "Heap \<times> MessageQueue \<Rightarrow> Heap \<times> MessageQueue \<Rightarrow> bool" where
  "delivery_steps \<equiv> delivery_step\<^sup>*\<^sup>*"

definition queue_ok :: "Heap \<Rightarrow> MessageQueue \<Rightarrow> bool" where
  "queue_ok h q \<longleftrightarrow> (\<forall>a \<in> set (q_messages q). msg_ok h a) \<and> (\<forall>ci \<in> set (q_consumers q). con_ok h ci)"

text \<open>What is fixed while messages are handed out: the configuration of the queue, the
  messages that exist, and of a consumer all but its credit.\<close>

definition same_config :: "MessageQueue \<Rightarrow> MessageQueue \<Rightarrow> bool" where
  "same_config q q' \<longleftrightarrow> q' = q\<lparr>q_messages := q_messages q', q_roundRobinIdx := q_roundRobinIdx q'\<rparr>"

definition credit_only :: "Heap \<Rightarrow> Heap \<Rightarrow> bool" where
  "credit_only h h' \<longleftrightarrow> (\<forall>x. con_ok h' x = con_ok h x \<and>
     con_at h' x = (con_at h x)\<lparr>c_in_flight := c_in_flight (con_at h' x)\<rparr>)"

definition msgs_kept :: "Heap \<Rightarrow> Heap \<Rightarrow> bool" where
  "msgs_kept h h' \<longleftrightarrow> (\<forall>b. msg_ok h b \<longrightarrow> msg_ok h' b \<and> msg_at h' b = msg_at h b)"

definition prefetch_kept :: "Heap \<Rightarrow> Heap \<Rightarrow> bool" where
  "prefetch_kept h h' \<longleftrightarrow> (\<forall>x. c_prefetch_count (con_at h x) > 0 \<longrightarrow>
     c_in_flight (con_at h' x) \<le> max (c_in_flight (con_at h x)) (ucast (c_prefetch_count (con_at h x))))"

lemma same_config_refl [simp]: "same_config q q"
  by (simp add: same_config_def)

lemma same_config_trans: "same_config q q1 \<Longrightarrow> same_config q1 q2 \<Longrightarrow> same_config q q2"
  unfolding same_config_def by (metis MessageQueue.surjective MessageQueue.update_convs(7,9))

lemma same_config_simps:
  assumes "same_config q q'"
  shows "q_name q' = q_name q" "q_consumers q' = q_consumers q" "q_queueTtlMs q' = q_queueTtlMs q"
    "q_dlxExchange q' = q_dlxExchange q" "q_dlxRoutingKey q' = q_dlxRoutingKey q"
    "q_deadLetterFn q' = q_deadLetterFn q" "q_durable q' = q_durable q"
    "q_exclusive q' = q_exclusive q" "q_auto_delete q' = q_auto_delete q"
    "q_owner_connection q' = q_owner_connection q" "q_maxPriority q' = q_maxPriority q"
  using assms by (metis MessageQueue.select_convs MessageQueue.surjective same_config_def
      MessageQueue.update_convs(7,9))+

text \<open>\<open>handed_out\<close> is what a run of the relation from one state to another has done.\<close>

definition handed_out :: "Heap \<times> MessageQueue \<Rightarrow> Heap \<times> MessageQueue \<Rightarrow> addr list \<Rightarrow> DeliveryTask list \<Rightarrow> bool" where
  "handed_out s s' taken ts \<longleftrightarrow>
     q_messages (snd s) = taken @ q_messages (snd s') \<and>
     h_posted (fst s') = h_posted (fst s) @ ts \<and>
     map task_payload ts = map (\<lambda>a. msg_payload (msg_at (fst s) a)) taken \<and>
     queue_ok (fst s') (snd s') \<and> same_config (snd s) (snd s') \<and>
     credit_only (fst s) (fst s') \<and> msgs_kept (fst s) (fst s') \<and> prefetch_kept (fst s) (fst s')"

lemma credit_only_prefetch: "credit_only h h' \<Longrightarrow> c_prefetch_count (con_at h' x) = c_prefetch_count (con_at h x)"
  unfolding credit_only_def by (metis Consumer.select_convs(8) Consumer.surjective Consumer.update_convs(9))

lemma credit_only_trans: "credit_only h h1 \<Longrightarrow> credit_only h1 h2 \<Longrightarrow> credit_only h h2"
  unfolding credit_only_def by (metis Consumer.surjective Consumer.update_convs(9))

lemma prefetch_kept_trans:
  assumes "prefetch_kept h h1" "prefetch_kept h1 h2" "credit_only h h1"
  shows "prefetch_kept h h2"
  using assms by (fastforce simp: prefetch_kept_def credit_only_prefetch max_def split: if_splits)

lemma handed_out_refl: "queue_ok h q \<Longrightarrow> handed_out (h, q) (h, q\<lparr>q_roundRobinIdx := r\<rparr>) [] []"
  by (simp add: handed_out_def queue_ok_def same_config_def credit_only_def msgs_kept_def
      prefetch_kept_def)

lemma handed_out_trans:
  assumes 1: "handed_out s s1 as ts" and 2: "handed_out s1 s2 bs us" and ok: "queue_ok (fst s) (snd s)"
  shows "handed_out s s2 (as @ bs) (ts @ us)"
proof -
  have "set bs \<subseteq> set (q_messages (snd s))" using 1 2 by (auto simp: handed_out_def)
  then have "map (\<lambda>a. msg_payload (msg_at (fst s1) a)) bs = map (\<lambda>a. msg_payload (msg_at (fst s) a)) bs"
    using 1 ok by (auto simp: handed_out_def msgs_kept_def queue_ok_def)
  then show ?thesis using 1 2 unfolding handed_out_def
    by (auto simp: msgs_kept_def intro: same_config_trans credit_only_trans prefetch_kept_trans)
qed

lemma prefetch_deliverTo:
  assumes "con_ok h ci" "eligible h ci a"
  shows "prefetch_kept h (deliverTo ci cl a h)"
proof -
  have "c_in_flight (con_at h ci) + 1 \<le> ucast (c_prefetch_count (con_at h ci))"
    if "c_prefetch_count (con_at h ci) > 0"
    using assms(2) that by (intro inc_le) (auto simp: eligible_def prefetchFull_def not_le)
  then show ?thesis using assms(1)
    by (auto simp: prefetch_kept_def heap_simps max_def)
qed

lemma delivery_step_handed_out:
  "delivery_step s s' \<Longrightarrow> queue_ok (fst s) (snd s) \<Longrightarrow> \<exists>taken ts. handed_out s s' taken ts"
proof (induction rule: delivery_step.induct)
  case (skip h q r)
  then show ?case using handed_out_refl by fastforce
next
  case (take q a as ci h cl r)
  have ok: "con_ok h ci" "msg_ok h a" using take by (auto simp: queue_ok_def)
  obtain t where t: "h_posted (deliverTo ci cl a h) = h_posted h @ [t]"
      "task_payload t = msg_payload (msg_at h a)"
    by (rule posted_deliverTo)
  have "handed_out (h, q) (deliverTo ci cl a h, q\<lparr>q_roundRobinIdx := r, q_messages := as\<rparr>) [a] [t]"
    using take ok t prefetch_deliverTo [OF ok(1) take(3), of cl]
    by (auto simp: handed_out_def queue_ok_def same_config_def credit_only_def msgs_kept_def heap_simps)
  then show ?case by blast
qed

lemma delivery_steps_handed_out:
  "delivery_steps s s' \<Longrightarrow> queue_ok (fst s) (snd s) \<Longrightarrow> \<exists>taken ts. handed_out s s' taken ts"
proof (induction rule: rtranclp_induct)
  case base
  then have "handed_out s s [] []"
    using handed_out_refl [of "fst s" "snd s" "q_roundRobinIdx (snd s)"] by simp
  then show ?case by blast
next
  case (step s1 s2)
  then obtain as ts where 1: "handed_out s s1 as ts" by blast
  then have "queue_ok (fst s1) (snd s1)" by (simp add: handed_out_def)
  then obtain bs us where "handed_out s1 s2 bs us"
    using delivery_step_handed_out [OF step(2)] by blast
  with 1 step.prems show ?case using handed_out_trans by blast
qed

lemma delivery_steps_config: "delivery_steps s s' \<Longrightarrow> same_config (snd s) (snd s')"
proof (induction rule: rtranclp_induct)
  case (step s1 s2)
  have "same_config (snd s1) (snd s2)"
    using step(2) by (cases rule: delivery_step.cases) (simp_all add: same_config_def)
  then show ?case using step(3) same_config_trans by blast
qed simp

section \<open>Dispatchers\<close>

text \<open>
  A dispatcher changes store and queue by deliveries only. Its clients rely on what every run
  of the relation guarantees.
\<close>

locale dispatcher =
  fixes run :: "Heap \<Rightarrow> MessageQueue \<Rightarrow> Heap \<times> MessageQueue"
  assumes run_steps: "delivery_steps (h, q) (run h q)"
begin

lemma run_handed_out:
  assumes "queue_ok h q"
  obtains taken ts where "handed_out (h, q) (run h q) taken ts"
  using delivery_steps_handed_out [OF run_steps] assms by fastforce

lemma run_keeps_ok: "queue_ok h q \<Longrightarrow> queue_ok (fst (run h q)) (snd (run h q))"
  by (erule run_handed_out) (simp add: handed_out_def)

lemma run_prefetch: "queue_ok h q \<Longrightarrow> prefetch_kept h (fst (run h q))"
  by (erule run_handed_out) (simp add: handed_out_def)

lemma run_config: "same_config q (snd (run h q))"
  using delivery_steps_config [OF run_steps [of h q]] by simp

lemma run_msgs: "queue_ok h q \<Longrightarrow> msgs_kept h (fst (run h q))"
  by (erule run_handed_out) (simp add: handed_out_def)

lemma run_credit: "queue_ok h q \<Longrightarrow> credit_only h (fst (run h q))"
  by (erule run_handed_out) (simp add: handed_out_def)

lemma run_suffix: "queue_ok h q \<Longrightarrow> set (q_messages (snd (run h q))) \<subseteq> set (q_messages q)"
  by (erule run_handed_out) (auto simp: handed_out_def)

lemma run_length: "queue_ok h q \<Longrightarrow> length (q_messages (snd (run h q))) \<le> length (q_messages q)"
  by (erule run_handed_out) (auto simp: handed_out_def)

end

lemma tryConsumers_steps:
  "q_consumers q \<noteq> [] \<Longrightarrow> delivery_steps (h, q) (snd (tryConsumers n h q))"
proof (induction n arbitrary: q)
  case (Suc n)
  let ?q = "q\<lparr>q_roundRobinIdx := q_roundRobinIdx q + 1\<rparr>"
  let ?ci = "q_consumers q ! (unat (q_roundRobinIdx q) mod length (q_consumers q))"
  have ci: "?ci \<in> set (q_consumers q)" using Suc.prems by simp
  have skip: "delivery_steps (h, q) (snd (tryConsumers n h ?q))"
    using converse_rtranclp_into_rtranclp [of delivery_step, OF delivery_step.skip] Suc.IH [of ?q] Suc.prems
    by fastforce
  have take: "delivery_steps (h, q) (deliverTo ?ci cl a h, ?q\<lparr>q_messages := as\<rparr>)"
    if "q_messages q = a # as" "c_on_deliver (con_at h ?ci) = Some cl"
      "\<not> prefetchFull (con_at h ?ci)" "\<not> localBlocked (con_at h ?ci) (msg_at h a)" for a as cl
    by (rule r_into_rtranclp, rule delivery_step.take [OF that(1) ci])
      (use that in \<open>auto simp: eligible_def\<close>)
  show ?case using skip take
    by (auto simp: Let_def split: option.splits list.splits)
qed simp

lemma tryConsumers_config: "q_consumers (snd (snd (tryConsumers n h q))) = q_consumers q"
  by (induction n arbitrary: q) (auto simp: Let_def split: option.splits list.splits)

lemma dispatchLoop_steps: "q_consumers q \<noteq> [] \<Longrightarrow> delivery_steps (h, q) (dispatchLoop h q)"
proof (induction h q rule: dispatchLoop.induct)
  case (1 h q)
  obtain d h' q' where t: "tryConsumers (length (q_consumers q)) h q = (d, h', q')"
    by (cases "tryConsumers (length (q_consumers q)) h q")
  then have "delivery_steps (h, q) (h', q')" "q_consumers q' \<noteq> []"
    using tryConsumers_steps [OF 1(2), of h "length (q_consumers q)"]
      tryConsumers_config [of "length (q_consumers q)" h q] 1(2) by auto
  then show ?case using 1 t
    by (subst dispatchLoop.simps) (auto split: bool.split intro: rtranclp_trans)
qed

interpretation dispatch: dispatcher dispatchLocked
  by unfold_locales (simp add: dispatchLocked_def dispatchLoop_steps)

end
