(* ===== verification/Queue_Properties.thy ===== *)
theory Queue_Properties
  imports Queue_Delivery
begin

text \<open>
  Properties of the queue operations of \<open>broker/queue.h\<close>: the dispatch loop hands out all it
  can, in round robin order; \<open>enqueue\<close> loses and reorders nothing; expiry removes the
  expired prefix; priority order is a stable sort.
\<close>

section \<open>The dispatch loop does not stop early\<close>

lemma round_robin_covers: "j < n \<Longrightarrow> \<exists>i < n. (r + i) mod n = (j :: nat)"
proof -
  assume j: "j < n"
  have "(r + (j + (n - r mod n)) mod n) mod n = (r + (j + (n - r mod n))) mod n"
    by (rule mod_add_right_eq)
  also have "r + (j + (n - r mod n)) = j + n * (r div n + 1)"
  proof -
    have "r = n * (r div n) + r mod n" "r mod n < n" using j by simp_all
    then show ?thesis unfolding distrib_left by linarith
  qed
  also have "\<dots> mod n = j" using j by (simp only: mod_mult_self2 mod_less)
  finally show ?thesis using j by (intro exI [of _ "(j + (n - r mod n)) mod n"]) simp
qed

lemma unat_add_le: "unat (r + word_of_nat i :: u64) \<le> unat r + i"
  by (simp add: unat_word_ariths unat_of_nat take_bit_eq_mod mod_add_right_eq)

lemma unat_add_exact: "unat r + i < 2 ^ 64 \<Longrightarrow> unat (r + word_of_nat i :: u64) = unat r + i"
  by (simp add: unat_word_ariths unat_of_nat take_bit_eq_mod mod_add_right_eq)

definition turn :: "MessageQueue \<Rightarrow> nat \<Rightarrow> addr" where
  "turn q i = q_consumers q ! (unat (q_roundRobinIdx q + word_of_nat i) mod length (q_consumers q))"

lemma tryConsumers_False:
  "tryConsumers n h q = (False, h', q') \<Longrightarrow> q_messages q = a # as \<Longrightarrow>
   h' = h \<and> q' = q\<lparr>q_roundRobinIdx := q_roundRobinIdx q + word_of_nat n\<rparr> \<and>
   (\<forall>i < n. \<not> eligible h (turn q i) a)"
proof (induction n arbitrary: q)
  case (Suc n)
  let ?q = "q\<lparr>q_roundRobinIdx := q_roundRobinIdx q + 1\<rparr>"
  have turn: "turn q (Suc i) = turn ?q i" for i by (simp add: turn_def add_ac)
  have "\<not> eligible h (turn q 0) a \<and> tryConsumers n h ?q = (False, h', q')"
    using Suc.prems
    by (auto simp: Let_def turn_def eligible_def split: option.splits list.splits if_splits)
  then show ?case using Suc.IH [of ?q] Suc.prems(2)
    by (auto simp: turn less_Suc_eq_0_disj add_ac)
qed simp

lemma turn_covers:
  assumes "unat (q_roundRobinIdx q) + length (q_consumers q) \<le> 2 ^ 64" "ci \<in> set (q_consumers q)"
  shows "\<exists>i < length (q_consumers q). turn q i = ci"
proof -
  obtain j where j: "j < length (q_consumers q)" "ci = q_consumers q ! j"
    using assms(2) by (auto simp: in_set_conv_nth)
  obtain i where i: "i < length (q_consumers q)"
      "(unat (q_roundRobinIdx q) + i) mod length (q_consumers q) = j"
    using round_robin_covers [OF j(1)] by blast
  have "unat (q_roundRobinIdx q) + i < 2 ^ 64" using assms(1) i(1) by linarith
  then show ?thesis using i j by (auto simp: turn_def unat_add_exact)
qed

lemma tryConsumers_rr:
  "unat (q_roundRobinIdx (snd (snd (tryConsumers n h q)))) \<le> unat (q_roundRobinIdx q) + n"
proof (induction n arbitrary: q)
  case (Suc n)
  let ?q = "q\<lparr>q_roundRobinIdx := q_roundRobinIdx q + 1\<rparr>"
  have le: "unat (q_roundRobinIdx q + 1) \<le> unat (q_roundRobinIdx q) + 1"
    using unat_add_le [of "q_roundRobinIdx q" 1] by simp
  then show ?case using Suc.IH [of ?q]
    by (auto simp: Let_def split: option.splits list.splits)
qed simp

definition stuck :: "Heap \<Rightarrow> MessageQueue \<Rightarrow> bool" where
  "stuck h q \<longleftrightarrow> (case q_messages q of [] \<Rightarrow> True
     | a # as \<Rightarrow> \<forall>ci \<in> set (q_consumers q). \<not> eligible h ci a)"

lemma dispatchLoop_stuck:
  "unat (q_roundRobinIdx q) + (length (q_messages q) + 1) * length (q_consumers q) \<le> 2 ^ 64 \<Longrightarrow>
   dispatchLoop h q = (h', q') \<Longrightarrow> stuck h' q'"
proof (induction h q rule: dispatchLoop.induct)
  case (1 h q)
  let ?n = "length (q_consumers q)"
  obtain d h1 q1 where t: "tryConsumers ?n h q = (d, h1, q1)" by (cases "tryConsumers ?n h q")
  show ?case
  proof (cases "q_messages q")
    case Nil
    then show ?thesis using 1 by (simp add: dispatchLoop.simps stuck_def)
  next
    case (Cons a as)
    show ?thesis
    proof (cases d)
      case True
      have "length (q_messages q1) + 1 \<le> length (q_messages q)"
        using tryConsumers_pops [of ?n h q h1 q1] t True by simp
      then have "(length (q_messages q1) + 1) * ?n + ?n \<le> (length (q_messages q) + 1) * ?n"
        by (metis add_mult_distrib mult.left_neutral mult_le_mono1 add_le_mono1)
      moreover have rr: "unat (q_roundRobinIdx q1) \<le> unat (q_roundRobinIdx q) + ?n"
        and cs: "q_consumers q1 = q_consumers q"
        using tryConsumers_rr [of ?n h q] tryConsumers_config [of ?n h q] t by simp_all
      ultimately have "unat (q_roundRobinIdx q1) + (length (q_messages q1) + 1) * length (q_consumers q1) \<le> 2 ^ 64"
        unfolding cs using "1.prems"(1) rr by linarith
      then show ?thesis
        using "1.IH" "1.prems" t True Cons
        by (auto simp: dispatchLoop.simps [of h q])
    next
      case False
      then have "h1 = h" "q1 = q\<lparr>q_roundRobinIdx := q_roundRobinIdx q + word_of_nat ?n\<rparr>"
        "\<forall>i < ?n. \<not> eligible h (turn q i) a"
        using tryConsumers_False [of ?n h q h1 q1 a as] t Cons by simp_all
      moreover have "unat (q_roundRobinIdx q) + ?n \<le> 2 ^ 64" using "1.prems"(1) by simp
      ultimately show ?thesis using turn_covers [of q] "1.prems"(2) t False Cons
        by (fastforce simp: dispatchLoop.simps [of h q] stuck_def)
    qed
  qed
qed

section \<open>Round robin\<close>

definition unlimited :: "Heap \<Rightarrow> MessageQueue \<Rightarrow> bool" where
  "unlimited h q \<longleftrightarrow> (\<forall>ci \<in> set (q_consumers q). con_ok h ci \<and> c_on_deliver (con_at h ci) \<noteq> None \<and>
     c_prefetch_count (con_at h ci) = 0 \<and> \<not> c_no_local (con_at h ci))"

lemma unlimited_eligible: "unlimited h q \<Longrightarrow> ci \<in> set (q_consumers q) \<Longrightarrow> eligible h ci a"
  by (simp add: unlimited_def eligible_def prefetchFull_def localBlocked_def)

lemma unlimited_deliverTo:
  assumes "unlimited h q" "ci \<in> set (q_consumers q)"
  shows "unlimited (deliverTo ci cl a h) q"
  using assms by (auto simp: unlimited_def con_at_deliverTo deliverTo_ok)

lemma tags_deliverTo:
  assumes "con_ok h ci"
  shows "c_tag (con_at (deliverTo ci cl a h) x) = c_tag (con_at h x)"
  using assms by (simp add: con_at_deliverTo)

lemma tryConsumers_unlimited:
  assumes "unlimited h q" "q_consumers q \<noteq> []" "q_messages q = a # as"
  shows "\<exists>cl. tryConsumers (length (q_consumers q)) h q =
     (True, deliverTo (turn q 0) cl a h,
      q\<lparr>q_roundRobinIdx := q_roundRobinIdx q + 1, q_messages := as\<rparr>)"
proof -
  have ci: "turn q 0 \<in> set (q_consumers q)" using assms(2) by (simp add: turn_def)
  then obtain cl where cl: "c_on_deliver (con_at h (turn q 0)) = Some cl"
    using assms(1) by (auto simp: unlimited_def)
  moreover have "\<not> prefetchFull (con_at h (turn q 0))" "\<not> localBlocked (con_at h (turn q 0)) (msg_at h a)"
    using unlimited_eligible [OF assms(1) ci] by (simp_all add: eligible_def)
  moreover obtain n where "length (q_consumers q) = Suc n" using assms(2) by (cases "q_consumers q") auto
  ultimately show ?thesis using assms(3)
    by (intro exI [of _ cl]) (simp add: turn_def Let_def)
qed

lemma dispatchLoop_round_robin:
  "unlimited h q \<Longrightarrow> q_consumers q \<noteq> [] \<Longrightarrow> dispatchLoop h q = (h', q') \<Longrightarrow>
   q_messages q' = [] \<and> (\<exists>ts. h_posted h' = h_posted h @ ts \<and>
     map t_tag ts = map (\<lambda>i. c_tag (con_at h (turn q i))) [0..<length (q_messages q)])"
proof (induction "q_messages q" arbitrary: h q)
  case Nil
  then show ?case by (simp add: dispatchLoop.simps)
next
  case (Cons a as)
  let ?q = "q\<lparr>q_roundRobinIdx := q_roundRobinIdx q + 1, q_messages := as\<rparr>"
  note m = Cons(2) [symmetric]
  obtain cl where cl: "tryConsumers (length (q_consumers q)) h q = (True, deliverTo (turn q 0) cl a h, ?q)"
    using tryConsumers_unlimited [OF Cons(3,4) m] by blast
  let ?h = "deliverTo (turn q 0) cl a h"
  have ci: "turn q 0 \<in> set (q_consumers q)" using Cons(4) by (simp add: turn_def)
  then have ok: "con_ok h (turn q 0)" using Cons(3) by (auto simp: unlimited_def)
  have "unlimited ?h ?q" using unlimited_deliverTo [OF Cons(3) ci] by (simp add: unlimited_def)
  moreover have "dispatchLoop ?h ?q = (h', q')"
    using Cons(5) cl m by (simp add: dispatchLoop.simps [of h q])
  ultimately obtain ts where ts: "q_messages q' = []" "h_posted h' = h_posted ?h @ ts"
      "map t_tag ts = map (\<lambda>i. c_tag (con_at ?h (turn ?q i))) [0..<length as]"
    using Cons(1) [of ?q ?h] Cons(4) by auto
  obtain t where t: "h_posted ?h = h_posted h @ [t]" "t_tag t = c_tag (con_at h (turn q 0))"
    by (rule posted_deliverTo)
  have "turn ?q i = turn q (Suc i)" for i by (simp add: turn_def add_ac)
  then have "map t_tag (t # ts) = map (\<lambda>i. c_tag (con_at h (turn q i))) [0..<length (q_messages q)]"
    using ts(3) t(2) tags_deliverTo [OF ok]
    by (simp add: m map_upt_Suc del: upt_Suc)
  then show ?case using ts t by auto
qed

section \<open>Expiry\<close>

definition expired :: "Heap \<Rightarrow> MessageQueue \<Rightarrow> int \<Rightarrow> addr \<Rightarrow> bool" where
  "expired h q t a \<longleftrightarrow> effectiveTtl q (msg_at h a) \<ge> 0 \<and>
     age_ms t (msg_at h a) \<ge> effectiveTtl q (msg_at h a)"

lemma expireLoop_spec:
  "expireLoop h q t as dlq =
     (dropWhile (expired h q t) as, dlq @ map (\<lambda>a. (a, ''expired'')) (takeWhile (expired h q t) as))"
  by (induction as arbitrary: dlq) (auto simp: expired_def Let_def)

lemma takeWhile_none: "(\<And>a. a \<in> set as \<Longrightarrow> \<not> P a) \<Longrightarrow> takeWhile P as = [] \<and> dropWhile P as = as"
  by (cases as) auto

lemma no_ttl_not_expired:
  assumes "q_queueTtlMs q < 0" "\<not> hasPerMessageTtl h q" "a \<in> set (q_messages q)"
  shows "\<not> expired h q t a"
  using assms by (auto simp: expired_def effectiveTtl_def hasPerMessageTtl_def list_ex_iff Let_def
      split: option.splits)

lemma collectExpired_spec:
  obtains h1 where "collectExpired h q =
     (h1, q\<lparr>q_messages := dropWhile (expired h q (h_clock h 0)) (q_messages q)\<rparr>,
      map (\<lambda>a. (a, ''expired'')) (takeWhile (expired h q (h_clock h 0)) (q_messages q)))"
    "h_messages h1 = h_messages h" "h_consumers h1 = h_consumers h" "h_posted h1 = h_posted h"
proof (cases "q_queueTtlMs q < 0 \<and> \<not> hasPerMessageTtl h q")
  case True
  then have "takeWhile (expired h q (h_clock h 0)) (q_messages q) = []"
    "dropWhile (expired h q (h_clock h 0)) (q_messages q) = q_messages q"
    using takeWhile_none [of "q_messages q" "expired h q (h_clock h 0)"]
      no_ttl_not_expired [of q h] True by simp_all
  then have "collectExpired h q =
     (h, q\<lparr>q_messages := dropWhile (expired h q (h_clock h 0)) (q_messages q)\<rparr>,
      map (\<lambda>a. (a, ''expired'')) (takeWhile (expired h q (h_clock h 0)) (q_messages q)))"
    using True by (simp only: collectExpired_def if_True list.map) simp
  then show ?thesis by (rule that) simp_all
next
  case False
  have e: "expired (snd (now h)) = expired h" by (simp add: fun_eq_iff expired_def heap_simps)
  have f: "fst (now h) = h_clock h 0" by (simp add: now_def)
  have "collectExpired h q =
     (snd (now h), q\<lparr>q_messages := dropWhile (expired h q (h_clock h 0)) (q_messages q)\<rparr>,
      map (\<lambda>a. (a, ''expired'')) (takeWhile (expired h q (h_clock h 0)) (q_messages q)))"
    unfolding collectExpired_def expireLoop_spec e using False by (auto simp: split_beta e f)
  then show ?thesis by (rule that) (simp_all add: now_def)
qed

section \<open>Priority order\<close>

lemma prioritySort_same_priority:
  "filter (\<lambda>a. effectivePriority (msg_at h a) = p) (prioritySort h as) =
   filter (\<lambda>a. effectivePriority (msg_at h a) = p) as"
proof -
  have "unat (x :: byte) \<le> 255" for x using unat_byte_less [of x] by linarith
  then have eq: "effectivePriority (msg_at h a) = p \<longleftrightarrow>
      255 - unat (effectivePriority (msg_at h a)) = 255 - unat p" for a
    by (metis diff_diff_cancel word_unat_eq_iff)
  show ?thesis unfolding eq prioritySort_def by (rule sort_key_stable)
qed

lemma prioritySort_sorted:
  "sorted_wrt (\<lambda>a b. effectivePriority (msg_at h a) \<ge> effectivePriority (msg_at h b))
     (prioritySort h as)"
proof -
  have le: "unat (x :: byte) \<le> 255" for x using unat_byte_less [of x] by linarith
  have "sorted_wrt (\<lambda>a b. 255 - unat (effectivePriority (msg_at h a)) \<le>
      255 - unat (effectivePriority (msg_at h b))) (prioritySort h as)"
    using sorted_sort_key [of "\<lambda>a. 255 - unat (effectivePriority (msg_at h a))" as]
    by (simp add: prioritySort_def sorted_map)
  then show ?thesis
  proof (rule sorted_wrt_mono_rel [rotated])
    fix a b
    assume "255 - unat (effectivePriority (msg_at h a)) \<le> 255 - unat (effectivePriority (msg_at h b))"
    then show "effectivePriority (msg_at h a) \<ge> effectivePriority (msg_at h b)"
      using le [of "effectivePriority (msg_at h a)"] le [of "effectivePriority (msg_at h b)"]
      by (simp add: word_le_nat_alt)
  qed
qed

lemma mset_prioritySort [simp]: "mset (prioritySort h as) = mset as"
  by (simp add: prioritySort_def)

section \<open>Whole operations\<close>

lemma queue_ok_collect:
  assumes "queue_ok h q" "h_messages h1 = h_messages h" "h_consumers h1 = h_consumers h"
    "set as \<subseteq> set (q_messages q)"
  shows "queue_ok h1 (q\<lparr>q_messages := as\<rparr>)"
  using assms by (auto simp: queue_ok_def msg_ok_def con_ok_def)

text \<open>Stamping the arrival time changes no payload and no priority.\<close>

definition stamped :: "addr \<Rightarrow> Heap \<Rightarrow> Heap" where
  "stamped a h = put_msg a ((msg_at h a)\<lparr>m_enqueued_at := h_clock h 0\<rparr>) (snd (now h))"

lemma stamped_simps [heap_simps]:
  assumes "msg_ok h a"
  shows "msg_payload (msg_at (stamped a h) b) = msg_payload (msg_at h b)"
    "effectivePriority (msg_at (stamped a h) b) = effectivePriority (msg_at h b)"
    "con_at (stamped a h) x = con_at h x" "h_posted (stamped a h) = h_posted h"
    "msg_ok (stamped a h) b = msg_ok h b" "con_ok (stamped a h) x = con_ok h x"
  using assms by (auto simp: stamped_def heap_simps msg_payload_def effectivePriority_def)

definition arranged :: "Heap \<Rightarrow> MessageQueue \<Rightarrow> addr \<Rightarrow> addr list" where
  "arranged h q a = (if q_maxPriority q > 0 then prioritySort h (q_messages q @ [a])
     else q_messages q @ [a])"

lemma set_arranged [simp]: "set (arranged h q a) = insert a (set (q_messages q))"
  by (simp add: arranged_def prioritySort_def)

lemma enqueueLocked_parts:
  assumes "msg_ok h a"
  shows "enqueueLocked a h q =
    (case collectExpired (stamped a h) (q\<lparr>q_messages := arranged h q a\<rparr>) of
       (h1, q1, dlq) \<Rightarrow> (case dispatchLocked h1 q1 of (h2, q2) \<Rightarrow> (h2, q2, dlq)))"
proof -
  have "prioritySort (stamped a h) as = prioritySort h as" for as
    using assms by (simp add: prioritySort_def heap_simps)
  moreover have "fst (now h) = h_clock h 0" by (simp add: now_def)
  ultimately show ?thesis
    by (simp add: enqueueLocked_def arranged_def split_beta Let_def stamped_def store_frames)
qed

lemma enqueueLocked_cases:
  assumes ok: "queue_ok h q" "msg_ok h a"
  obtains h1 E where
    "enqueueLocked a h q =
       (case dispatchLocked h1 (q\<lparr>q_messages := dropWhile E (arranged h q a)\<rparr>) of
          (h2, q2) \<Rightarrow> (h2, q2, map (\<lambda>a. (a, ''expired'')) (takeWhile E (arranged h q a))))"
    "h_messages h1 = h_messages (stamped a h)" "h_consumers h1 = h_consumers h"
    "h_posted h1 = h_posted h" "queue_ok h1 (q\<lparr>q_messages := dropWhile E (arranged h q a)\<rparr>)"
proof -
  let ?q = "q\<lparr>q_messages := arranged h q a\<rparr>"
  let ?E = "expired (stamped a h) ?q (h_clock (stamped a h) 0)"
  have st: "h_consumers (stamped a h) = h_consumers h" "h_posted (stamped a h) = h_posted h"
    by (simp_all add: stamped_def put_msg_def now_def)
  obtain h1 where "collectExpired (stamped a h) ?q =
        (h1, ?q\<lparr>q_messages := dropWhile ?E (q_messages ?q)\<rparr>,
         map (\<lambda>a. (a, ''expired'')) (takeWhile ?E (q_messages ?q)))"
      "h_messages h1 = h_messages (stamped a h)" "h_consumers h1 = h_consumers (stamped a h)"
      "h_posted h1 = h_posted (stamped a h)"
    by (rule collectExpired_spec)
  then have h1: "collectExpired (stamped a h) ?q =
        (h1, q\<lparr>q_messages := dropWhile ?E (arranged h q a)\<rparr>,
         map (\<lambda>a. (a, ''expired'')) (takeWhile ?E (arranged h q a)))"
      "h_messages h1 = h_messages (stamped a h)" "h_consumers h1 = h_consumers h" "h_posted h1 = h_posted h"
    using st by simp_all
  have "queue_ok (stamped a h) ?q" using ok by (auto simp: queue_ok_def heap_simps)
  then have "queue_ok h1 (q\<lparr>q_messages := dropWhile ?E (arranged h q a)\<rparr>)"
    using queue_ok_collect [of "stamped a h" ?q h1 "dropWhile ?E (arranged h q a)"] h1(2,3) st
    by (simp add: subset_iff set_dropWhileD) (metis set_dropWhileD set_arranged insert_iff)
  from h1(2-4) this show ?thesis
    by (rule that [rotated]) (simp add: enqueueLocked_parts [OF ok(2)] h1(1))
qed

lemma enqueue_prefetch:
  assumes ok: "queue_ok h q" "msg_ok h a"
  shows "prefetch_kept h (fst (enqueueLocked a h q))"
proof -
  obtain h1 E where e: "enqueueLocked a h q =
       (case dispatchLocked h1 (q\<lparr>q_messages := dropWhile E (arranged h q a)\<rparr>) of
          (h2, q2) \<Rightarrow> (h2, q2, map (\<lambda>a. (a, ''expired'')) (takeWhile E (arranged h q a))))"
    and h1: "h_consumers h1 = h_consumers h" "queue_ok h1 (q\<lparr>q_messages := dropWhile E (arranged h q a)\<rparr>)"
    by (rule enqueueLocked_cases [OF ok])
  show ?thesis using dispatch.run_prefetch [OF h1(2)] h1(1)
    by (simp add: e split_beta prefetch_kept_def con_at_def)
qed

lemma flush_prefetch:
  assumes ok: "queue_ok h q"
  shows "prefetch_kept h (fst (flushLocked h q))"
proof -
  obtain h1 where h1: "collectExpired h q =
     (h1, q\<lparr>q_messages := dropWhile (expired h q (h_clock h 0)) (q_messages q)\<rparr>,
      map (\<lambda>a. (a, ''expired'')) (takeWhile (expired h q (h_clock h 0)) (q_messages q)))"
    "h_messages h1 = h_messages h" "h_consumers h1 = h_consumers h"
    by (rule collectExpired_spec)
  have "queue_ok h1 (q\<lparr>q_messages := dropWhile (expired h q (h_clock h 0)) (q_messages q)\<rparr>)"
    using h1(2,3) by (intro queue_ok_collect [OF ok]) (auto dest: set_dropWhileD)
  from dispatch.run_prefetch [OF this] show ?thesis
    by (simp add: flushLocked_def h1(1) split_beta prefetch_kept_def con_at_def h1(3))
qed

lemma queue_ok_requeue:
  "queue_ok h q \<Longrightarrow> msg_ok h a \<Longrightarrow> queue_ok (put_msg a m h) (q\<lparr>q_messages := a # q_messages q\<rparr>)"
  by (auto simp: queue_ok_def heap_simps)

section \<open>Properties\<close>


text \<open>A store with three messages and two consumers, for concrete instances.\<close>

definition sample_msg :: "string \<Rightarrow> byte option \<Rightarrow> Message" where
  "sample_msg key p = new_Message\<lparr>m_routing_key := key,
     m_properties := no_properties\<lparr>priority := p\<rparr>\<rparr>"

definition sample_con :: "string \<Rightarrow> u16 \<Rightarrow> Consumer" where
  "sample_con tag n = \<lparr>c_tag = tag, c_queue_name = ''q'', c_no_local = False, c_no_ack = False,
     c_exclusive = False, c_channel_id = 1, c_connection_id = 1, c_prefetch_count = n,
     c_in_flight = 0, c_on_deliver = Some (0, ''q'')\<rparr>"

definition sample_heap :: "u16 \<Rightarrow> Heap" where
  "sample_heap n = \<lparr>h_messages = [sample_msg ''a'' None, sample_msg ''b'' (Some 5), sample_msg ''c'' (Some 5)],
     h_consumers = [sample_con ''x'' n, sample_con ''y'' n], h_clock = (\<lambda>_. 0), h_posted = []\<rparr>"

definition sample_queue :: MessageQueue where
  "sample_queue = (new_MessageQueue ''q'')\<lparr>q_messages := [0, 1], q_consumers := [0, 1],
     q_maxPriority := 9\<rparr>"

lemma sample_ok: "queue_ok (sample_heap n) sample_queue" "msg_ok (sample_heap n) 2" "con_ok (sample_heap n) 1"
  by (auto simp: queue_ok_def sample_heap_def sample_queue_def msg_ok_def con_ok_def)


text \<open>
  (C14) Prefetch. No operation of a queue that delivers - \<open>enqueue\<close>, \<open>addConsumer\<close>, the requeue
  of \<open>reject\<close>, \<open>flush\<close> - takes a consumer with a prefetch limit over it: its count of unsettled
  deliveries ends at most at the limit, or where it was.
\<close>

theorem prefetch_never_exceeded:
  assumes "queue_ok h q" "msg_ok h a" "con_ok h ci" "c_prefetch_count (con_at h x) > 0"
    "h' \<in> {fst (enqueueLocked a h q), fst (addConsumer ci h q), fst (requeueLocked a h q),
            fst (flushLocked h q)}"
  shows "c_in_flight (con_at h' x) \<le> max (c_in_flight (con_at h x)) (ucast (c_prefetch_count (con_at h x)))"
proof -
  have "prefetch_kept h (fst (addConsumer ci h q))"
    unfolding addConsumer_def using assms(1,3) by (intro dispatch.run_prefetch) (auto simp: queue_ok_def)
  moreover have "prefetch_kept h (fst (requeueLocked a h q))"
    using dispatch.run_prefetch [OF queue_ok_requeue [OF assms(1,2)]]
    by (simp add: requeueLocked_def prefetch_kept_def store_frames)
  ultimately have "prefetch_kept h h'"
    using assms(5) enqueue_prefetch [OF assms(1,2)] flush_prefetch [OF assms(1)] by auto
  then show ?thesis using assms(4) by (simp add: prefetch_kept_def)
qed

theorem prefetch_never_exceeded_witness:
  "c_prefetch_count (con_at (sample_heap 1) 0) > 0 \<and>
   c_in_flight (con_at (fst (enqueueLocked 2 (sample_heap 1) sample_queue)) 0)
     \<le> max (c_in_flight (con_at (sample_heap 1) 0)) (ucast (c_prefetch_count (con_at (sample_heap 1) 0)))"
proof -
  have "c_prefetch_count (con_at (sample_heap 1) 0) > 0"
    by (simp add: sample_heap_def sample_con_def con_at_def)
  then show ?thesis
    using prefetch_never_exceeded [OF sample_ok(1,2,3), where x = 0] by simp
qed

text \<open>
  (C28) The dispatch loop does not stop early: when it returns, the queue is empty or no consumer
  of the queue can take the message at its head - each one has been cancelled, has no credit
  left, or is a \<open>no_local\<close> consumer of the publishing connection. The bound on the round robin
  counter keeps it from wrapping inside the loop: where the number of consumers is not a power
  of two, the wrap of the counter at 2^64 skips consumers of that pass.
\<close>

theorem dispatch_is_exhaustive:
  assumes "unat (q_roundRobinIdx q) + (length (q_messages q) + 1) * length (q_consumers q) \<le> 2 ^ 64"
    "dispatchLocked h q = (h', q')"
  shows "q_messages q' = [] \<or>
    (\<forall>ci \<in> set (q_consumers q'). \<not> eligible h' ci (hd (q_messages q')))"
proof (cases "q_consumers q = []")
  case True
  then show ?thesis using assms(2) by (auto simp: dispatchLocked_def)
next
  case False
  then have "stuck h' q'" using dispatchLoop_stuck [OF assms(1)] assms(2) by (simp add: dispatchLocked_def)
  then show ?thesis by (auto simp: stuck_def split: list.splits)
qed

theorem dispatch_is_exhaustive_witness:
  "unat (q_roundRobinIdx sample_queue) +
     (length (q_messages sample_queue) + 1) * length (q_consumers sample_queue) \<le> 2 ^ 64 \<and>
   (let (h', q') = dispatchLocked (sample_heap 1) sample_queue in q_messages q' = [] \<or>
    (\<forall>ci \<in> set (q_consumers q'). \<not> eligible h' ci (hd (q_messages q'))))"
proof -
  have h: "unat (q_roundRobinIdx sample_queue) +
     (length (q_messages sample_queue) + 1) * length (q_consumers sample_queue) \<le> 2 ^ 64"
    by (simp add: sample_queue_def new_MessageQueue_def)
  then show ?thesis using dispatch_is_exhaustive [OF h] by (auto simp: Let_def split: prod.splits)
qed

text \<open>
  (C29) Fair distribution: when every consumer of a queue can take any number of messages, all
  waiting messages are delivered, the i-th of them to the consumer i places after the round
  robin counter.
\<close>

theorem dispatch_round_robin:
  assumes "unlimited h q" "q_consumers q \<noteq> []"
    "unat (q_roundRobinIdx q) + length (q_messages q) \<le> 2 ^ 64" "dispatchLocked h q = (h', q')"
  shows "q_messages q' = [] \<and> (\<exists>ts. h_posted h' = h_posted h @ ts \<and>
    map t_tag ts = map (\<lambda>i. c_tag (con_at h (q_consumers q !
      ((unat (q_roundRobinIdx q) + i) mod length (q_consumers q))))) [0..<length (q_messages q)])"
proof -
  have "turn q i = q_consumers q ! ((unat (q_roundRobinIdx q) + i) mod length (q_consumers q))"
    if "i \<in> set [0..<length (q_messages q)]" for i
    using that assms(3) unat_add_exact [of "q_roundRobinIdx q" i] by (simp add: turn_def)
  then have eq: "map (\<lambda>i. c_tag (con_at h (turn q i))) [0..<length (q_messages q)] =
    map (\<lambda>i. c_tag (con_at h (q_consumers q !
      ((unat (q_roundRobinIdx q) + i) mod length (q_consumers q))))) [0..<length (q_messages q)]"
    by simp
  show ?thesis using dispatchLoop_round_robin [OF assms(1,2), of h' q', unfolded eq] assms(2,4)
    unfolding dispatchLocked_def by simp
qed

theorem dispatch_round_robin_witness:
  "unlimited (sample_heap 0) sample_queue \<and>
   (let (h', q') = dispatchLocked (sample_heap 0) sample_queue in
    q_messages q' = [] \<and> (\<exists>ts. h_posted h' = h_posted (sample_heap 0) @ ts \<and> map t_tag ts = [''x'', ''y'']))"
proof -
  have h: "unlimited (sample_heap 0) sample_queue" "q_consumers sample_queue \<noteq> []"
    "unat (q_roundRobinIdx sample_queue) + length (q_messages sample_queue) \<le> 2 ^ 64"
    by (auto simp: unlimited_def sample_heap_def sample_queue_def sample_con_def con_ok_def con_at_def
        new_MessageQueue_def)
  have tags: "map (\<lambda>i. c_tag (con_at (sample_heap 0) (q_consumers sample_queue !
      ((unat (q_roundRobinIdx sample_queue) + i) mod length (q_consumers sample_queue)))))
      [0..<length (q_messages sample_queue)] = [''x'', ''y'']"
    by (simp add: sample_heap_def sample_queue_def sample_con_def con_at_def new_MessageQueue_def)
  from h(1) show ?thesis using dispatch_round_robin [OF h, unfolded tags]
    by (auto simp: Let_def split: prod.splits)
qed

text \<open>
  Expiry happens at the head: \<open>get\<close> first hands the longest prefix of expired messages to
  the dead-letter handler - a message is expired when its age in whole milliseconds has reached
  the smaller of its own and the queue's time to live -, then returns the next message, and
  leaves the rest in order. A message behind one that has not expired is never touched.
\<close>

theorem get_skips_expired_prefix:
  assumes "getLocked h q = (r, h', q', dlq)"
  shows "dlq = map (\<lambda>a. (a, ''expired'')) (takeWhile (expired h q (h_clock h 0)) (q_messages q)) \<and>
    (case dropWhile (expired h q (h_clock h 0)) (q_messages q) of
       [] \<Rightarrow> r = None \<and> q_messages q' = []
     | a # as \<Rightarrow> r = Some a \<and> q_messages q' = as) \<and>
    h_messages h' = h_messages h \<and> h_posted h' = h_posted h"
proof -
  obtain h1 where h1: "collectExpired h q =
     (h1, q\<lparr>q_messages := dropWhile (expired h q (h_clock h 0)) (q_messages q)\<rparr>,
      map (\<lambda>a. (a, ''expired'')) (takeWhile (expired h q (h_clock h 0)) (q_messages q)))"
    "h_messages h1 = h_messages h" "h_consumers h1 = h_consumers h" "h_posted h1 = h_posted h"
    by (rule collectExpired_spec)
  show ?thesis using assms h1(2,4)
    by (cases "dropWhile (expired h q (h_clock h 0)) (q_messages q)")
      (auto simp: getLocked_def h1(1) simp del: dropWhile_eq_Nil_conv)
qed

theorem get_skips_expired_prefix_witness:
  "let q = sample_queue\<lparr>q_queueTtlMs := 5\<rparr>; h = (sample_heap 0)\<lparr>h_clock := \<lambda>_. 7000000\<rparr> in
   (case getLocked h q of (r, h', q', dlq) \<Rightarrow>
      dlq = [(0, ''expired''), (1, ''expired'')] \<and> r = None \<and> q_messages q' = [])"
proof -
  let ?q = "sample_queue\<lparr>q_queueTtlMs := 5\<rparr>" and ?h = "(sample_heap 0)\<lparr>h_clock := \<lambda>_. 7000000\<rparr>"
  have e: "takeWhile (expired ?h ?q (h_clock ?h 0)) (q_messages ?q) = [0, 1]"
    "dropWhile (expired ?h ?q (h_clock ?h 0)) (q_messages ?q) = []"
    by (simp_all add: sample_queue_def new_MessageQueue_def sample_heap_def expired_def age_ms_def
        effectiveTtl_def sample_msg_def new_Message_def no_properties_def msg_at_def Let_def
        signed_divide_int_def)
  obtain r h' q' dlq where g: "getLocked ?h ?q = (r, h', q', dlq)" by (cases "getLocked ?h ?q")
  show ?thesis using get_skips_expired_prefix [OF g] unfolding e by (simp add: Let_def g)
qed

text \<open>
  Priority order: the sort that \<open>enqueue\<close> applies on a queue with \<open>x-max-priority\<close> keeps
  every message once, puts higher priorities first, and keeps the order of messages
  of equal priority.
\<close>

theorem priority_order_is_stable:
  "mset (prioritySort h as) = mset as \<and>
   sorted_wrt (\<lambda>a b. effectivePriority (msg_at h a) \<ge> effectivePriority (msg_at h b)) (prioritySort h as) \<and>
   filter (\<lambda>a. effectivePriority (msg_at h a) = p) (prioritySort h as) =
     filter (\<lambda>a. effectivePriority (msg_at h a) = p) as"
  by (simp add: prioritySort_sorted prioritySort_same_priority)

end
