(* ===== verification/Message_Store.thy ===== *)
theory Message_Store
  imports Broker_Objects
begin

text \<open>
  The write-ahead log (\<open>storage/message_store.h\<close>). The state of the store is the content of
  the log file, whether the stream is open, and the next message id. A file that does not
  exist is an empty one. The calls of the operating system (opening, renaming, syncing) are
  taken to succeed; writes to a stream that is not open do nothing.
\<close>

section \<open>Data\<close>

definition ENTRY_MESSAGE :: byte where "ENTRY_MESSAGE = 1"
definition ENTRY_ACK :: byte where "ENTRY_ACK = 2"
definition ENTRY_QUEUE_DECLARE :: byte where "ENTRY_QUEUE_DECLARE = 3"
definition ENTRY_EXCHANGE_DECLARE :: byte where "ENTRY_EXCHANGE_DECLARE = 4"
definition ENTRY_BINDING :: byte where "ENTRY_BINDING = 5"
definition ENTRY_QUEUE_DELETE :: byte where "ENTRY_QUEUE_DELETE = 6"
definition ENTRY_EXCHANGE_DELETE :: byte where "ENTRY_EXCHANGE_DELETE = 7"
definition ENTRY_UNBIND :: byte where "ENTRY_UNBIND = 8"

lemmas entry_types = ENTRY_MESSAGE_def ENTRY_ACK_def ENTRY_QUEUE_DECLARE_def
  ENTRY_EXCHANGE_DECLARE_def ENTRY_BINDING_def ENTRY_QUEUE_DELETE_def
  ENTRY_EXCHANGE_DELETE_def ENTRY_UNBIND_def

record StoredMessage =
  sm_id :: u64
  sm_queue_name :: string
  sm_exchange :: string
  sm_routing_key :: string
  sm_properties :: BasicProperties
  sm_body :: "byte list"

record StoredQueueDecl =
  qd_name :: string
  qd_durable :: bool
  qd_auto_delete :: bool

record StoredExchangeDecl =
  ed_name :: string
  ed_type :: string
  ed_durable :: bool
  ed_auto_delete :: bool
  ed_internal :: bool

record StoredBinding =
  sb_queue :: string
  sb_exchange :: string
  sb_routing_key :: string

record RecoveryData =
  rd_exchanges :: "StoredExchangeDecl list"
  rd_queues :: "StoredQueueDecl list"
  rd_bindings :: "StoredBinding list"
  rd_messages :: "StoredMessage list"
  rd_acked :: "(string \<times> u64 list) list"

definition no_data :: RecoveryData where
  "no_data = \<lparr>rd_exchanges = [], rd_queues = [], rd_bindings = [], rd_messages = [], rd_acked = []\<rparr>"

definition MAX_ENTRY_SIZE :: u32 where
  "MAX_ENTRY_SIZE = 64 * 1024 * 1024"

record MessageStore =
  ms_wal :: "byte list"
  ms_open :: bool
  ms_nextMsgId :: u64

definition new_MessageStore :: "byte list \<Rightarrow> MessageStore" where
  "new_MessageStore file = \<lparr>ms_wal = file, ms_open = False, ms_nextMsgId = 1\<rparr>"

definition open_store :: "MessageStore \<Rightarrow> MessageStore" where
  "open_store s = s\<lparr>ms_open := True\<rparr>"

definition close_store :: "MessageStore \<Rightarrow> MessageStore" where
  "close_store s = s\<lparr>ms_open := False\<rparr>"

section \<open>Writing\<close>

definition crcBit :: "u32 \<Rightarrow> u32" where
  "crcBit crc = drop_bit 1 crc XOR (0xEDB88320 AND - (crc AND 1))"

definition crc32 :: "byte list \<Rightarrow> u32" where
  "crc32 bytes = NOT (foldl (\<lambda>crc d. (crcBit ^^ 8) (crc XOR ucast d)) 0xFFFFFFFF bytes)"

definition writeEntry :: "byte \<Rightarrow> Buffer \<Rightarrow> MessageStore \<Rightarrow> MessageStore" where
  "writeEntry entryType payload s =
     (let checksum = crc32 (bdata payload);
          totalSize = 1 + word_of_nat (length (bdata payload)) + 4 :: u32;
          sizeBE = [ucast (drop_bit 24 totalSize), ucast (drop_bit 16 totalSize),
                    ucast (drop_bit 8 totalSize), ucast totalSize];
          crcBE = [ucast (drop_bit 24 checksum), ucast (drop_bit 16 checksum),
                   ucast (drop_bit 8 checksum), ucast checksum]
      in if ms_open s
         then s\<lparr>ms_wal := ms_wal s @ sizeBE @ [entryType] @ bdata payload @ crcBE\<rparr>
         else s)"

definition writeString :: "string \<Rightarrow> Buffer \<Rightarrow> Buffer" where
  "writeString s b = writeBytes (bytes_of_string s) (writeUint32 (word_of_nat (length s)) b)"

definition writeSizedBytes :: "byte list \<Rightarrow> Buffer \<Rightarrow> Buffer" where
  "writeSizedBytes bs b = writeBytes bs (writeUint32 (word_of_nat (length bs)) b)"

definition writeFlag :: "bool \<Rightarrow> Buffer \<Rightarrow> Buffer" where
  "writeFlag c b = writeUint8 (if c then 1 else 0) b"

definition messagePayload :: "u64 \<Rightarrow> string \<Rightarrow> string \<Rightarrow> string \<Rightarrow> BasicProperties \<Rightarrow> byte list \<Rightarrow> Buffer" where
  "messagePayload msgId queueName exchange routingKey props body =
     (let buf = writeString routingKey (writeString exchange
                  (writeString queueName (writeUint64 msgId (Buffer_of []))));
          propBuf = encode props (Buffer_of [])
      in writeSizedBytes body (writeSizedBytes (bdata propBuf) buf))"

definition storeMessage :: "string \<Rightarrow> Message \<Rightarrow> MessageStore \<Rightarrow> u64 \<times> MessageStore" where
  "storeMessage queueName msg s =
     (let msgId = ms_nextMsgId s;
          s1 = s\<lparr>ms_nextMsgId := ms_nextMsgId s + 1\<rparr>
      in (msgId, writeEntry ENTRY_MESSAGE (messagePayload msgId queueName (m_exchange msg)
                (m_routing_key msg) (m_properties msg) (m_body msg)) s1))"

definition storeAck :: "string \<Rightarrow> u64 \<Rightarrow> MessageStore \<Rightarrow> MessageStore" where
  "storeAck queueName messageId s =
     writeEntry ENTRY_ACK (writeString queueName (writeUint64 messageId (Buffer_of []))) s"

definition queueDeclarePayload :: "string \<Rightarrow> bool \<Rightarrow> bool \<Rightarrow> Buffer" where
  "queueDeclarePayload name durable autoDelete =
     writeFlag autoDelete (writeFlag durable (writeString name (Buffer_of [])))"

definition storeQueueDeclare :: "string \<Rightarrow> bool \<Rightarrow> bool \<Rightarrow> MessageStore \<Rightarrow> MessageStore" where
  "storeQueueDeclare name durable autoDelete s =
     writeEntry ENTRY_QUEUE_DECLARE (queueDeclarePayload name durable autoDelete) s"

definition exchangeDeclarePayload :: "string \<Rightarrow> string \<Rightarrow> bool \<Rightarrow> bool \<Rightarrow> bool \<Rightarrow> Buffer" where
  "exchangeDeclarePayload name type durable autoDelete internal =
     writeFlag internal (writeFlag autoDelete (writeFlag durable
       (writeString type (writeString name (Buffer_of [])))))"

definition storeExchangeDeclare ::
  "string \<Rightarrow> string \<Rightarrow> bool \<Rightarrow> bool \<Rightarrow> bool \<Rightarrow> MessageStore \<Rightarrow> MessageStore" where
  "storeExchangeDeclare name type durable autoDelete internal s =
     writeEntry ENTRY_EXCHANGE_DECLARE
       (exchangeDeclarePayload name type durable autoDelete internal) s"

definition bindingPayload :: "string \<Rightarrow> string \<Rightarrow> string \<Rightarrow> Buffer" where
  "bindingPayload queue exchange routingKey =
     writeString routingKey (writeString exchange (writeString queue (Buffer_of [])))"

definition storeBinding :: "string \<Rightarrow> string \<Rightarrow> string \<Rightarrow> MessageStore \<Rightarrow> MessageStore" where
  "storeBinding queue exchange routingKey s =
     writeEntry ENTRY_BINDING (bindingPayload queue exchange routingKey) s"

definition storeQueueDelete :: "string \<Rightarrow> MessageStore \<Rightarrow> MessageStore" where
  "storeQueueDelete name s = writeEntry ENTRY_QUEUE_DELETE (writeString name (Buffer_of [])) s"

definition storeExchangeDelete :: "string \<Rightarrow> MessageStore \<Rightarrow> MessageStore" where
  "storeExchangeDelete name s = writeEntry ENTRY_EXCHANGE_DELETE (writeString name (Buffer_of [])) s"

definition storeUnbind :: "string \<Rightarrow> string \<Rightarrow> string \<Rightarrow> MessageStore \<Rightarrow> MessageStore" where
  "storeUnbind queue exchange routingKey s =
     writeEntry ENTRY_UNBIND (bindingPayload queue exchange routingKey) s"

section \<open>Recovery\<close>

definition readString :: "Buffer \<Rightarrow> amqp_error + string \<times> Buffer" where
  "readString b = bindE (readUint32 b) (\<lambda>(len, b1). mapR string_of_bytes (readBytes (unat len) b1))"

definition readSizedBytes :: "Buffer \<Rightarrow> amqp_error + byte list \<times> Buffer" where
  "readSizedBytes b = bindE (readUint32 b) (\<lambda>(len, b1). readBytes (unat len) b1)"

definition readFlag :: "Buffer \<Rightarrow> amqp_error + bool \<times> Buffer" where
  "readFlag b = mapR (\<lambda>v. v \<noteq> 0) (readUint8 b)"

text \<open>
  What the eight cases of the \<open>switch\<close> do once their fields are read. The second component is
  \<open>nextMsgId_\<close>, which recovery raises above every id it reads.
\<close>

type_synonym recovery = "RecoveryData \<times> u64"

definition onMessage :: "StoredMessage \<Rightarrow> recovery \<Rightarrow> recovery" where
  "onMessage sm = (\<lambda>(d, next). (d\<lparr>rd_messages := rd_messages d @ [sm]\<rparr>,
     if sm_id sm \<ge> next then sm_id sm + 1 else next))"

definition onAck :: "u64 \<Rightarrow> string \<Rightarrow> recovery \<Rightarrow> recovery" where
  "onAck msgId queue = (\<lambda>(d, next).
     (d\<lparr>rd_acked := AList.update queue
          ((case map_of (rd_acked d) queue of None \<Rightarrow> [] | Some ids \<Rightarrow> ids) @ [msgId]) (rd_acked d)\<rparr>,
      next))"

definition onQueueDeclare :: "StoredQueueDecl \<Rightarrow> recovery \<Rightarrow> recovery" where
  "onQueueDeclare qd = (\<lambda>(d, next). (d\<lparr>rd_queues := rd_queues d @ [qd]\<rparr>, next))"

definition onExchangeDeclare :: "StoredExchangeDecl \<Rightarrow> recovery \<Rightarrow> recovery" where
  "onExchangeDeclare ed = (\<lambda>(d, next). (d\<lparr>rd_exchanges := rd_exchanges d @ [ed]\<rparr>, next))"

definition onBinding :: "StoredBinding \<Rightarrow> recovery \<Rightarrow> recovery" where
  "onBinding sb = (\<lambda>(d, next). (d\<lparr>rd_bindings := rd_bindings d @ [sb]\<rparr>, next))"

definition onQueueDelete :: "string \<Rightarrow> recovery \<Rightarrow> recovery" where
  "onQueueDelete name = (\<lambda>(d, next).
     (d\<lparr>rd_queues := filter (\<lambda>q. qd_name q \<noteq> name) (rd_queues d),
        rd_messages := filter (\<lambda>m. sm_queue_name m \<noteq> name) (rd_messages d),
        rd_bindings := filter (\<lambda>b. sb_queue b \<noteq> name) (rd_bindings d)\<rparr>, next))"

definition onExchangeDelete :: "string \<Rightarrow> recovery \<Rightarrow> recovery" where
  "onExchangeDelete name = (\<lambda>(d, next).
     (d\<lparr>rd_exchanges := filter (\<lambda>e. ed_name e \<noteq> name) (rd_exchanges d),
        rd_bindings := filter (\<lambda>b. sb_exchange b \<noteq> name) (rd_bindings d)\<rparr>, next))"

definition onUnbind :: "StoredBinding \<Rightarrow> recovery \<Rightarrow> recovery" where
  "onUnbind u = (\<lambda>(d, next).
     (d\<lparr>rd_bindings := filter (\<lambda>b. \<not> (sb_queue b = sb_queue u \<and> sb_exchange b = sb_exchange u \<and>
          sb_routing_key b = sb_routing_key u)) (rd_bindings d)\<rparr>, next))"

definition readBinding :: "Buffer \<Rightarrow> amqp_error + StoredBinding \<times> Buffer" where
  "readBinding b =
     bindE (readString b) (\<lambda>(queue, b).
     bindE (readString b) (\<lambda>(exchange, b).
     bindE (readString b) (\<lambda>(routingKey, b).
       Inr (\<lparr>sb_queue = queue, sb_exchange = exchange, sb_routing_key = routingKey\<rparr>, b))))"

definition readStoredMessage :: "Buffer \<Rightarrow> amqp_error + StoredMessage \<times> Buffer" where
  "readStoredMessage b =
     bindE (readUint64 b) (\<lambda>(msgId, b).
     bindE (readString b) (\<lambda>(queue, b).
     bindE (readString b) (\<lambda>(exchange, b).
     bindE (readString b) (\<lambda>(routingKey, b).
     bindE (readSizedBytes b) (\<lambda>(propBytes, b).
     bindE (decode (Buffer_of propBytes)) (\<lambda>(props, _).
     bindE (readSizedBytes b) (\<lambda>(body, b).
       Inr (\<lparr>sm_id = msgId, sm_queue_name = queue, sm_exchange = exchange,
             sm_routing_key = routingKey, sm_properties = props, sm_body = body\<rparr>, b))))))))"

definition readQueueDecl :: "Buffer \<Rightarrow> amqp_error + StoredQueueDecl \<times> Buffer" where
  "readQueueDecl b =
     bindE (readString b) (\<lambda>(name, b).
     bindE (readFlag b) (\<lambda>(durable, b).
     bindE (readFlag b) (\<lambda>(autoDelete, b).
       Inr (\<lparr>qd_name = name, qd_durable = durable, qd_auto_delete = autoDelete\<rparr>, b))))"

definition readExchangeDecl :: "Buffer \<Rightarrow> amqp_error + StoredExchangeDecl \<times> Buffer" where
  "readExchangeDecl b =
     bindE (readString b) (\<lambda>(name, b).
     bindE (readString b) (\<lambda>(type, b).
     bindE (readFlag b) (\<lambda>(durable, b).
     bindE (readFlag b) (\<lambda>(autoDelete, b).
     bindE (readFlag b) (\<lambda>(internal, b).
       Inr (\<lparr>ed_name = name, ed_type = type, ed_durable = durable,
             ed_auto_delete = autoDelete, ed_internal = internal\<rparr>, b))))))"

definition applyEntry :: "byte \<Rightarrow> Buffer \<Rightarrow> recovery \<Rightarrow> amqp_error + recovery" where
  "applyEntry entryType b r =
     (if entryType = ENTRY_MESSAGE then bindE (readStoredMessage b) (\<lambda>(sm, _). Inr (onMessage sm r))
      else if entryType = ENTRY_ACK then
        bindE (readUint64 b) (\<lambda>(msgId, b). bindE (readString b) (\<lambda>(queue, _). Inr (onAck msgId queue r)))
      else if entryType = ENTRY_QUEUE_DECLARE then
        bindE (readQueueDecl b) (\<lambda>(qd, _). Inr (onQueueDeclare qd r))
      else if entryType = ENTRY_EXCHANGE_DECLARE then
        bindE (readExchangeDecl b) (\<lambda>(ed, _). Inr (onExchangeDeclare ed r))
      else if entryType = ENTRY_BINDING then
        bindE (readBinding b) (\<lambda>(sb, _). Inr (onBinding sb r))
      else if entryType = ENTRY_QUEUE_DELETE then
        bindE (readString b) (\<lambda>(name, _). Inr (onQueueDelete name r))
      else if entryType = ENTRY_EXCHANGE_DELETE then
        bindE (readString b) (\<lambda>(name, _). Inr (onExchangeDelete name r))
      else if entryType = ENTRY_UNBIND then
        bindE (readBinding b) (\<lambda>(u, _). Inr (onUnbind u r))
      else Inr r)"

definition fromBE32 :: "byte list \<Rightarrow> u32" where
  "fromBE32 p = push_bit 24 (ucast (p ! 0)) OR push_bit 16 (ucast (p ! 1)) OR
     push_bit 8 (ucast (p ! 2)) OR ucast (p ! 3)"

text \<open>
  The loop over the file, on the bytes not yet read. It stops at the end of the file, at a
  size, a checksum or a payload that is not acceptable, and at a short read.
\<close>

function recoverLoop :: "byte list \<Rightarrow> recovery \<Rightarrow> recovery" where
  "recoverLoop file r =
     (if length file < 4 then r
      else let totalSize = fromBE32 (take 4 file); rest = drop 4 file in
        if totalSize < 5 \<or> totalSize > MAX_ENTRY_SIZE then r
        else let n = unat totalSize in
          if length rest < n then r
          else let entry = take n rest;
                   storedCrc = fromBE32 (drop (n - 4) entry);
                   payload = take (n - 5) (drop 1 entry)
               in if storedCrc \<noteq> crc32 payload then r
                  else case applyEntry (entry ! 0) (Buffer_of payload) r of
                         Inl _ \<Rightarrow> r
                       | Inr r' \<Rightarrow> recoverLoop (drop n rest) r')"
  by pat_completeness auto
termination
  by (relation "measure (\<lambda>(file, _). length file)") auto

declare recoverLoop.simps [simp del]

definition dropAcked :: "RecoveryData \<Rightarrow> RecoveryData" where
  "dropAcked d = d\<lparr>rd_messages :=
     fold (\<lambda>(queue, ackIds) ms.
             filter (\<lambda>m. if sm_queue_name m \<noteq> queue then True
                         else \<not> list_ex (\<lambda>i. sm_id m = i) ackIds) ms)
       (rd_acked d) (rd_messages d)\<rparr>"

definition recoverLocked :: "MessageStore \<Rightarrow> RecoveryData \<times> MessageStore" where
  "recoverLocked s =
     (let (d, next) = recoverLoop (ms_wal s) (no_data, ms_nextMsgId s)
      in (dropAcked d, s\<lparr>ms_nextMsgId := next\<rparr>))"

definition recover :: "MessageStore \<Rightarrow> RecoveryData \<times> MessageStore" where
  "recover s = recoverLocked s"

section \<open>Compaction\<close>

text \<open>
  The live data is written to a fresh file, which replaces the log by a rename.
\<close>

definition compactIfNeeded :: "MessageStore \<Rightarrow> MessageStore" where
  "compactIfNeeded s =
     (let (live, s0) = recoverLocked s;
          s1 = s0\<lparr>ms_wal := [], ms_open := True\<rparr>;
          s2 = fold (\<lambda>ed. writeEntry ENTRY_EXCHANGE_DECLARE (exchangeDeclarePayload (ed_name ed)
                   (ed_type ed) (ed_durable ed) (ed_auto_delete ed) (ed_internal ed)))
                 (rd_exchanges live) s1;
          s3 = fold (\<lambda>qd. writeEntry ENTRY_QUEUE_DECLARE
                   (queueDeclarePayload (qd_name qd) (qd_durable qd) (qd_auto_delete qd)))
                 (rd_queues live) s2;
          s4 = fold (\<lambda>sb. writeEntry ENTRY_BINDING
                   (bindingPayload (sb_queue sb) (sb_exchange sb) (sb_routing_key sb)))
                 (rd_bindings live) s3
      in fold (\<lambda>sm. writeEntry ENTRY_MESSAGE (messagePayload (sm_id sm) (sm_queue_name sm)
              (sm_exchange sm) (sm_routing_key sm) (sm_properties sm) (sm_body sm)))
           (rd_messages live) s4)"

end
