(* ===== verification/Store_Entries.thy ===== *)
theory Store_Entries
  imports Message_Store
begin

text \<open>
  The write-ahead log as a list of typed entries: the bytes of an entry, what each read
  of recovery makes of them, and the recovery loop on whole, torn and oversized entries.
\<close>

section \<open>Entries and their bytes\<close>

datatype WalEntry =
    MessageEntry StoredMessage
  | AckEntry u64 string
  | QueueDeclareEntry StoredQueueDecl
  | ExchangeDeclareEntry StoredExchangeDecl
  | BindingEntry StoredBinding
  | QueueDeleteEntry string
  | ExchangeDeleteEntry string
  | UnbindEntry StoredBinding

definition enc_sized :: "byte list \<Rightarrow> byte list" where
  "enc_sized bs = enc32 (word_of_nat (length bs)) @ bs"

definition enc_flag :: "bool \<Rightarrow> byte list" where
  "enc_flag c = [if c then 1 else 0]"

definition enc_binding :: "StoredBinding \<Rightarrow> byte list" where
  "enc_binding sb = enc_long (sb_queue sb) @ enc_long (sb_exchange sb) @ enc_long (sb_routing_key sb)"

fun entry_type :: "WalEntry \<Rightarrow> byte" where
  "entry_type (MessageEntry _) = ENTRY_MESSAGE"
| "entry_type (AckEntry _ _) = ENTRY_ACK"
| "entry_type (QueueDeclareEntry _) = ENTRY_QUEUE_DECLARE"
| "entry_type (ExchangeDeclareEntry _) = ENTRY_EXCHANGE_DECLARE"
| "entry_type (BindingEntry _) = ENTRY_BINDING"
| "entry_type (QueueDeleteEntry _) = ENTRY_QUEUE_DELETE"
| "entry_type (ExchangeDeleteEntry _) = ENTRY_EXCHANGE_DELETE"
| "entry_type (UnbindEntry _) = ENTRY_UNBIND"

fun entry_payload :: "WalEntry \<Rightarrow> byte list" where
  "entry_payload (MessageEntry m) = enc64 (sm_id m) @ enc_long (sm_queue_name m) @
     enc_long (sm_exchange m) @ enc_long (sm_routing_key m) @
     enc_sized (enc_props (sm_properties m)) @ enc_sized (sm_body m)"
| "entry_payload (AckEntry i q) = enc64 i @ enc_long q"
| "entry_payload (QueueDeclareEntry qd) =
     enc_long (qd_name qd) @ enc_flag (qd_durable qd) @ enc_flag (qd_auto_delete qd)"
| "entry_payload (ExchangeDeclareEntry ed) = enc_long (ed_name ed) @ enc_long (ed_type ed) @
     enc_flag (ed_durable ed) @ enc_flag (ed_auto_delete ed) @ enc_flag (ed_internal ed)"
| "entry_payload (BindingEntry sb) = enc_binding sb"
| "entry_payload (QueueDeleteEntry n) = enc_long n"
| "entry_payload (ExchangeDeleteEntry n) = enc_long n"
| "entry_payload (UnbindEntry sb) = enc_binding sb"

definition total_size :: "nat \<Rightarrow> u32" where
  "total_size n = 1 + word_of_nat n + 4"

definition enc_record :: "byte \<Rightarrow> byte list \<Rightarrow> byte list" where
  "enc_record ty p = enc32 (total_size (length p)) @ [ty] @ p @ enc32 (crc32 p)"

definition enc_entry :: "WalEntry \<Rightarrow> byte list" where
  "enc_entry e = enc_record (entry_type e) (entry_payload e)"

definition log_bytes :: "WalEntry list \<Rightarrow> byte list" where
  "log_bytes es = concat (map enc_entry es)"

text \<open>An entry that recovery accepts: it is not over the size limit.\<close>

definition entry_fits :: "WalEntry \<Rightarrow> bool" where
  "entry_fits e \<longleftrightarrow> length (entry_payload e) + 5 \<le> unat MAX_ENTRY_SIZE"

definition wf_entry :: "WalEntry \<Rightarrow> bool" where
  "wf_entry e \<longleftrightarrow> entry_fits e \<and> (case e of MessageEntry m \<Rightarrow> wf_props (sm_properties m) | _ \<Rightarrow> True)"

section \<open>Reading back the fields\<close>

lemma enc_long_sized: "enc_long s = enc_sized (bytes_of_string s)"
  by (simp add: enc_long_def enc_sized_def)

lemma read_sized:
  assumes "length bs < 2 ^ 32" "at_input b (enc_sized bs @ rest)"
  shows "readSizedBytes b = Inr (bs, advance (length (enc_sized bs)) b)"
proof -
  have a: "at_input b (enc32 (word_of_nat (length bs)) @ bs @ rest)"
    using assms(2) by (simp add: enc_sized_def)
  have "readBytes (unat (word_of_nat (length bs) :: u32)) (advance 4 b) =
      Inr (bs, advance (length (enc_sized bs)) b)"
    using readBytes_at_input [OF at_input_advance [OF a]] assms(1)
    by (simp add: unat_of_nat_u32 enc_sized_def)
  then show ?thesis
    unfolding readSizedBytes_def u32.rd_then(1) [OF TrueI a] by simp
qed

interpretation sized: codec "\<lambda>bs. length bs < 2 ^ 32" enc_sized writeSizedBytes readSizedBytes
  by unfold_locales (simp_all add: writeSizedBytes_def enc_sized_def wire read_sized [unfolded enc_sized_def])

lemma readString_sized: "readString b = mapR string_of_bytes (readSizedBytes b)"
  by (cases "readUint32 b") (auto simp: readString_def readSizedBytes_def mapR_def)

interpretation store_str: codec "\<lambda>s. length s < 2 ^ 32" enc_long writeString readString
proof
  fix v b rest
  assume "length v < 2 ^ 32" "at_input b (enc_long v @ rest)"
  then show "readString b = Inr (v, advance (length (enc_long v)) b)"
    using sized.rd_enc [of "bytes_of_string v" b rest]
    by (simp add: readString_sized mapR_def enc_long_sized)
qed (simp add: writeString_def wire enc_long_def)

interpretation flag: codec "\<lambda>_. True" enc_flag writeFlag readFlag
proof
  fix v b rest
  assume "at_input b (enc_flag v @ rest)"
  then show "readFlag b = Inr (v, advance (length (enc_flag v)) b)"
    using u8.rd_enc [OF TrueI, of b "if v then 1 else 0" rest]
    by (simp add: readFlag_def mapR_def enc_flag_def)
qed (simp add: writeFlag_def wire enc_flag_def)

lemma fits_bounds:
  assumes "entry_fits e"
  shows "length (entry_payload e) < 2 ^ 32 - 5"
  using assms by (simp add: entry_fits_def MAX_ENTRY_SIZE_def)

lemma read_binding:
  assumes "at_input b (enc_binding sb @ rest)" "length (enc_binding sb) < 2 ^ 32"
  shows "readBinding b = Inr (sb, advance (length (enc_binding sb)) b)"
proof -
  have ok: "length (sb_queue sb) < 2 ^ 32" "length (sb_exchange sb) < 2 ^ 32"
    "length (sb_routing_key sb) < 2 ^ 32"
    using assms(2) by (simp_all add: enc_binding_def)
  note a0 = assms(1) [unfolded enc_binding_def append_assoc]
  note a1 = store_str.rd_then(2) [OF ok(1) a0]
  note a2 = store_str.rd_then(2) [OF ok(2) a1]
  show ?thesis
    unfolding readBinding_def store_str.rd_then(1) [OF ok(1) a0] prod.case
      store_str.rd_then(1) [OF ok(2) a1] store_str.rd_then(1) [OF ok(3) a2]
    by (simp add: enc_binding_def)
qed

lemma read_queue_decl:
  assumes "length (entry_payload (QueueDeclareEntry qd)) < 2 ^ 32"
  shows "\<exists>b. readQueueDecl (Buffer_of (entry_payload (QueueDeclareEntry qd))) = Inr (qd, b)"
proof -
  have ok: "length (qd_name qd) < 2 ^ 32" using assms by simp
  have a0: "at_input (Buffer_of (entry_payload (QueueDeclareEntry qd)))
      (enc_long (qd_name qd) @ enc_flag (qd_durable qd) @ enc_flag (qd_auto_delete qd) @ [])" by simp
  note a1 = store_str.rd_then(2) [OF ok a0]
  note a2 = flag.rd_then(2) [OF TrueI a1]
  show ?thesis
    unfolding readQueueDecl_def store_str.rd_then(1) [OF ok a0] prod.case
      flag.rd_then(1) [OF TrueI a1] flag.rd_then(1) [OF TrueI a2] by simp
qed

lemma read_exchange_decl:
  assumes "length (entry_payload (ExchangeDeclareEntry ed)) < 2 ^ 32"
  shows "\<exists>b. readExchangeDecl (Buffer_of (entry_payload (ExchangeDeclareEntry ed))) = Inr (ed, b)"
proof -
  have ok: "length (ed_name ed) < 2 ^ 32" "length (ed_type ed) < 2 ^ 32" using assms by simp_all
  have a0: "at_input (Buffer_of (entry_payload (ExchangeDeclareEntry ed)))
      (enc_long (ed_name ed) @ enc_long (ed_type ed) @ enc_flag (ed_durable ed) @
       enc_flag (ed_auto_delete ed) @ enc_flag (ed_internal ed) @ [])" by simp
  note a1 = store_str.rd_then(2) [OF ok(1) a0]
  note a2 = store_str.rd_then(2) [OF ok(2) a1]
  note a3 = flag.rd_then(2) [OF TrueI a2]
  note a4 = flag.rd_then(2) [OF TrueI a3]
  show ?thesis
    unfolding readExchangeDecl_def store_str.rd_then(1) [OF ok(1) a0] prod.case
      store_str.rd_then(1) [OF ok(2) a1] flag.rd_then(1) [OF TrueI a2] flag.rd_then(1) [OF TrueI a3]
      flag.rd_then(1) [OF TrueI a4] by simp
qed

lemma read_stored_message:
  assumes "length (entry_payload (MessageEntry m)) < 2 ^ 32" "wf_props (sm_properties m)"
  shows "\<exists>b. readStoredMessage (Buffer_of (entry_payload (MessageEntry m))) = Inr (m, b)"
proof -
  have ok: "length (sm_queue_name m) < 2 ^ 32" "length (sm_exchange m) < 2 ^ 32"
    "length (sm_routing_key m) < 2 ^ 32" "length (enc_props (sm_properties m)) < 2 ^ 32"
    "length (sm_body m) < 2 ^ 32"
    using assms(1) by (simp_all add: enc_sized_def)
  have a0: "at_input (Buffer_of (entry_payload (MessageEntry m)))
      (enc64 (sm_id m) @ enc_long (sm_queue_name m) @ enc_long (sm_exchange m) @
       enc_long (sm_routing_key m) @ enc_sized (enc_props (sm_properties m)) @ enc_sized (sm_body m) @ [])"
    by simp
  note a1 = u64.rd_then(2) [OF TrueI a0]
  note a2 = store_str.rd_then(2) [OF ok(1) a1]
  note a3 = store_str.rd_then(2) [OF ok(2) a2]
  note a4 = store_str.rd_then(2) [OF ok(3) a3]
  note a5 = sized.rd_then(2) [OF ok(4) a4]
  show ?thesis
    unfolding readStoredMessage_def u64.rd_then(1) [OF TrueI a0] prod.case
      store_str.rd_then(1) [OF ok(1) a1] store_str.rd_then(1) [OF ok(2) a2]
      store_str.rd_then(1) [OF ok(3) a3] sized.rd_then(1) [OF ok(4) a4]
      props.rd_whole [OF assms(2)] bindE_simps sized.rd_then(1) [OF ok(5) a5]
    by simp
qed

section \<open>Replaying one entry\<close>

fun replay_entry :: "WalEntry \<Rightarrow> recovery \<Rightarrow> recovery" where
  "replay_entry (MessageEntry m) = onMessage m"
| "replay_entry (AckEntry i q) = onAck i q"
| "replay_entry (QueueDeclareEntry qd) = onQueueDeclare qd"
| "replay_entry (ExchangeDeclareEntry ed) = onExchangeDeclare ed"
| "replay_entry (BindingEntry sb) = onBinding sb"
| "replay_entry (QueueDeleteEntry n) = onQueueDelete n"
| "replay_entry (ExchangeDeleteEntry n) = onExchangeDelete n"
| "replay_entry (UnbindEntry sb) = onUnbind sb"

lemma applyEntry_enc:
  assumes "wf_entry e"
  shows "applyEntry (entry_type e) (Buffer_of (entry_payload e)) r = Inr (replay_entry e r)"
proof -
  have len: "length (entry_payload e) < 2 ^ 32"
    using fits_bounds assms by (fastforce simp: wf_entry_def)
  show ?thesis
  proof (cases e)
    case (MessageEntry m)
    then show ?thesis using read_stored_message [of m] len assms
      by (auto simp: applyEntry_def entry_types wf_entry_def)
  next
    case (AckEntry i q)
    have a0: "at_input (Buffer_of (entry_payload e)) (enc64 i @ enc_long q @ [])" using AckEntry by simp
    have ok: "length q < 2 ^ 32" using len AckEntry by simp
    show ?thesis using AckEntry
      unfolding applyEntry_def u64.rd_then(1) [OF TrueI a0] prod.case
        store_str.rd_then(1) [OF ok u64.rd_then(2) [OF TrueI a0]]
      by (simp add: entry_types)
  next
    case (QueueDeclareEntry qd)
    then show ?thesis using read_queue_decl [of qd] len by (auto simp: applyEntry_def entry_types)
  next
    case (ExchangeDeclareEntry ed)
    then show ?thesis using read_exchange_decl [of ed] len by (auto simp: applyEntry_def entry_types)
  next
    case (BindingEntry sb)
    then show ?thesis using read_binding [of "Buffer_of (enc_binding sb)" sb "[]"] len
      by (auto simp: applyEntry_def entry_types)
  next
    case (QueueDeleteEntry n)
    then show ?thesis using store_str.rd_whole [of n] len by (auto simp: applyEntry_def entry_types)
  next
    case (ExchangeDeleteEntry n)
    then show ?thesis using store_str.rd_whole [of n] len by (auto simp: applyEntry_def entry_types)
  next
    case (UnbindEntry sb)
    then show ?thesis using read_binding [of "Buffer_of (enc_binding sb)" sb "[]"] len
      by (auto simp: applyEntry_def entry_types)
  qed
qed

section \<open>The loop on a well-formed log\<close>

lemma fromBE32_enc32 [simp]: "fromBE32 (enc32 v) = v"
  unfolding fromBE32_def using be32 [of v] by (simp add: enc32_def)

lemma unat_total_size:
  "n < 2 ^ 32 - 5 \<Longrightarrow> unat (total_size n) = n + 5"
proof -
  assume "n < 2 ^ 32 - 5"
  then have "unat (word_of_nat (n + 5) :: u32) = n + 5" by (intro unat_of_nat_u32) simp
  then show ?thesis by (simp add: total_size_def add.commute)
qed

lemma length_enc_record: "length (enc_record ty p) = length p + 9"
  by (simp add: enc_record_def)

lemma recoverLoop_step:
  assumes "4 \<le> length bytes" "take 4 bytes = enc32 sz" "drop 4 bytes = rest"
  shows "recoverLoop bytes r =
    (let n = unat sz; entry = take n rest; payload = take (n - 5) (drop 1 entry) in
     if n < 5 \<or> n > unat MAX_ENTRY_SIZE \<or> length rest < n \<or>
        fromBE32 (drop (n - 4) entry) \<noteq> crc32 payload then r
     else case applyEntry (entry ! 0) (Buffer_of payload) r of
            Inl _ \<Rightarrow> r | Inr r' \<Rightarrow> recoverLoop (drop n rest) r')"
proof -
  have "sz < 5 \<longleftrightarrow> unat sz < 5" "sz > MAX_ENTRY_SIZE \<longleftrightarrow> unat sz > unat MAX_ENTRY_SIZE"
    by (simp_all add: word_less_nat_alt)
  then show ?thesis
    unfolding recoverLoop.simps [of bytes r] Let_def assms(2,3) fromBE32_enc32
    using assms(1) by (simp only: not_less [symmetric] if_False) simp
qed

lemma recoverLoop_record:
  assumes "length p + 5 \<le> unat MAX_ENTRY_SIZE"
  shows "recoverLoop (enc_record ty p @ rest) r =
    (case applyEntry ty (Buffer_of p) r of Inl _ \<Rightarrow> r | Inr r' \<Rightarrow> recoverLoop rest r')"
proof -
  let ?body = "ty # p @ enc32 (crc32 p)"
  have sz: "unat (total_size (length p)) = length p + 5"
    using assms by (intro unat_total_size) (simp add: MAX_ENTRY_SIZE_def)
  have cut: "take (length p + 5) (?body @ rest) = ?body" "drop (length p + 5) (?body @ rest) = rest"
    "drop (length p + 5 - 4) ?body = enc32 (crc32 p)" "take (length p + 5 - 5) (drop 1 ?body) = p"
    by (simp_all add: numeral_eq_Suc)
  have step: "4 \<le> length (enc_record ty p @ rest)"
    "take 4 (enc_record ty p @ rest) = enc32 (total_size (length p))"
    "drop 4 (enc_record ty p @ rest) = ?body @ rest"
    by (simp_all add: enc_record_def)
  show ?thesis
    unfolding recoverLoop_step [OF step] sz Let_def cut fromBE32_enc32 using assms by simp
qed

lemma recoverLoop_oversized:
  assumes "length p + 5 > unat MAX_ENTRY_SIZE" "length p < 2 ^ 32 - 5"
  shows "recoverLoop (enc_record ty p @ rest) r = r"
proof -
  have "4 \<le> length (enc_record ty p @ rest)"
    "take 4 (enc_record ty p @ rest) = enc32 (total_size (length p))"
    by (simp_all add: enc_record_def)
  from recoverLoop_step [OF this refl] show ?thesis
    unfolding unat_total_size [OF assms(2)] Let_def using assms(1) by simp
qed

lemma recoverLoop_torn:
  assumes "length p + 5 \<le> unat MAX_ENTRY_SIZE" "n < length (enc_record ty p)"
  shows "recoverLoop (take n (enc_record ty p)) r = r"
proof (cases "n < 4")
  case True
  then have "length (take n (enc_record ty p)) < 4" by simp
  then show ?thesis unfolding recoverLoop.simps [of "take n (enc_record ty p)"] by (rule if_P)
next
  case False
  have "4 \<le> length (take n (enc_record ty p))"
    "take 4 (take n (enc_record ty p)) = enc32 (total_size (length p))"
    using False by (simp_all add: enc_record_def min_def)
  moreover have "unat (total_size (length p)) = length p + 5"
    using assms(1) by (intro unat_total_size) (simp add: MAX_ENTRY_SIZE_def)
  moreover have "length (drop 4 (take n (enc_record ty p))) < length p + 5"
    using assms(2) by (simp add: length_enc_record)
  ultimately show ?thesis using recoverLoop_step [of "take n (enc_record ty p)" _ _ r]
    unfolding Let_def by presburger
qed

lemma recoverLoop_entry: "wf_entry e \<Longrightarrow> recoverLoop (enc_entry e @ rest) r = recoverLoop rest (replay_entry e r)"
  using recoverLoop_record [of "entry_payload e" "entry_type e" rest r] applyEntry_enc [of e r]
  by (simp add: enc_entry_def wf_entry_def entry_fits_def)

lemma recoverLoop_log:
  "list_all wf_entry es \<Longrightarrow> recoverLoop (log_bytes es @ rest) r = recoverLoop rest (fold replay_entry es r)"
  by (induction es arbitrary: r) (simp_all add: log_bytes_def recoverLoop_entry)

lemma recoverLoop_Nil [simp]: "recoverLoop [] r = r"
  by (subst recoverLoop.simps) simp

end
