(* ===== verification/Store_Recovery.thy ===== *)
theory Store_Recovery
  imports Store_Entries
begin

text \<open>
  Correctness of the write-ahead log: \<open>live_messages\<close> and its siblings say declaratively what a
  log stands for; recovery computes it, also after a crash in the middle of a write, and
  compaction preserves it.
\<close>

section \<open>What a log stands for\<close>

text \<open>
  A declaration stands until a later deletion; a binding also until a later unbind; a message
  until its queue is deleted or - wherever the acknowledgement is in the log - it is
  acknowledged.
\<close>

fun live_exchanges :: "WalEntry list \<Rightarrow> StoredExchangeDecl list" where
  "live_exchanges [] = []"
| "live_exchanges (e # es) =
     (case e of ExchangeDeclareEntry ed \<Rightarrow> if ExchangeDeleteEntry (ed_name ed) \<in> set es then [] else [ed]
      | _ \<Rightarrow> []) @ live_exchanges es"

fun live_queues :: "WalEntry list \<Rightarrow> StoredQueueDecl list" where
  "live_queues [] = []"
| "live_queues (e # es) =
     (case e of QueueDeclareEntry qd \<Rightarrow> if QueueDeleteEntry (qd_name qd) \<in> set es then [] else [qd]
      | _ \<Rightarrow> []) @ live_queues es"

fun live_bindings :: "WalEntry list \<Rightarrow> StoredBinding list" where
  "live_bindings [] = []"
| "live_bindings (e # es) =
     (case e of BindingEntry sb \<Rightarrow>
        if QueueDeleteEntry (sb_queue sb) \<in> set es \<or> ExchangeDeleteEntry (sb_exchange sb) \<in> set es \<or>
           UnbindEntry sb \<in> set es then [] else [sb]
      | _ \<Rightarrow> []) @ live_bindings es"

fun live_messages :: "WalEntry list \<Rightarrow> StoredMessage list" where
  "live_messages [] = []"
| "live_messages (e # es) =
     (case e of MessageEntry m \<Rightarrow> if QueueDeleteEntry (sm_queue_name m) \<in> set es then [] else [m]
      | _ \<Rightarrow> []) @ live_messages es"

definition stands_for :: "RecoveryData \<Rightarrow> WalEntry list \<Rightarrow> bool" where
  "stands_for d es \<longleftrightarrow>
     rd_exchanges d = live_exchanges es \<and> rd_queues d = live_queues es \<and>
     rd_bindings d = live_bindings es \<and>
     rd_messages d = filter (\<lambda>m. AckEntry (sm_id m) (sm_queue_name m) \<notin> set es) (live_messages es)"

lemmas replay_defs = onMessage_def onAck_def onQueueDeclare_def onExchangeDeclare_def onBinding_def
  onQueueDelete_def onExchangeDelete_def onUnbind_def

lemma replay_exchanges:
  "rd_exchanges (fst (fold replay_entry es r)) =
     filter (\<lambda>ed. ExchangeDeleteEntry (ed_name ed) \<notin> set es) (rd_exchanges (fst r)) @ live_exchanges es"
proof (induction es arbitrary: r)
  case (Cons e es)
  then show ?case by (cases e; cases r) (auto simp: replay_defs conj_commute intro: filter_cong)
qed simp

lemma replay_queues:
  "rd_queues (fst (fold replay_entry es r)) =
     filter (\<lambda>qd. QueueDeleteEntry (qd_name qd) \<notin> set es) (rd_queues (fst r)) @ live_queues es"
proof (induction es arbitrary: r)
  case (Cons e es)
  then show ?case by (cases e; cases r) (auto simp: replay_defs conj_commute intro: filter_cong)
qed simp

lemma replay_messages:
  "rd_messages (fst (fold replay_entry es r)) =
     filter (\<lambda>m. QueueDeleteEntry (sm_queue_name m) \<notin> set es) (rd_messages (fst r)) @ live_messages es"
proof (induction es arbitrary: r)
  case (Cons e es)
  then show ?case by (cases e; cases r) (auto simp: replay_defs conj_commute intro: filter_cong)
qed simp

lemma binding_eq:
  "(sb_queue b = sb_queue u \<and> sb_exchange b = sb_exchange u \<and> sb_routing_key b = sb_routing_key u) \<longleftrightarrow>
   (b :: StoredBinding) = u"
  by (auto intro: StoredBinding.equality)

lemma replay_bindings:
  "rd_bindings (fst (fold replay_entry es r)) =
     filter (\<lambda>b. \<not> (QueueDeleteEntry (sb_queue b) \<in> set es \<or> ExchangeDeleteEntry (sb_exchange b) \<in> set es \<or>
       UnbindEntry b \<in> set es)) (rd_bindings (fst r)) @ live_bindings es"
proof (induction es arbitrary: r)
  case (Cons e es)
  then show ?case
    by (cases e; cases r) (simp_all add: replay_defs binding_eq, (rule filter_cong; auto)+)
qed simp

definition ids_acked :: "(string \<times> u64 list) list \<Rightarrow> (u64 \<times> string) set" where
  "ids_acked acked = {(i, q). \<exists>ids. (q, ids) \<in> set acked \<and> i \<in> set ids}"

lemma ids_acked_map_of:
  "distinct_keys acked \<Longrightarrow> (i, q) \<in> ids_acked acked \<longleftrightarrow> (\<exists>ids. map_of acked q = Some ids \<and> i \<in> set ids)"
  by (simp add: ids_acked_def)

lemma replay_acked:
  assumes "distinct_keys (rd_acked (fst r))"
  shows "distinct_keys (rd_acked (fst (fold replay_entry es r))) \<and>
    ids_acked (rd_acked (fst (fold replay_entry es r))) =
      ids_acked (rd_acked (fst r)) \<union> {(i, q). AckEntry i q \<in> set es}"
  using assms
proof (induction es arbitrary: r)
  case (Cons e es)
  obtain d nx where r: "r = (d, nx)" by (cases r)
  have d: "distinct_keys (rd_acked d)" using Cons.prems r by simp
  have keep: "distinct_keys (rd_acked (fst (replay_entry e r)))"
    using d by (cases e) (simp_all add: replay_defs r distinct_update)
  have "ids_acked (rd_acked (fst (replay_entry e r))) = ids_acked (rd_acked d) \<union> {(i, q). AckEntry i q = e}"
  proof (cases e)
    case (AckEntry i q)
    then show ?thesis using keep d
      by (auto simp: set_eq_iff ids_acked_map_of replay_defs r simp del: map_of_eq_Some_iff
          dest: map_of_SomeD split: option.splits if_splits)
  qed (auto simp: replay_defs r)
  then show ?case using Cons.IH [OF keep] r by auto
qed simp

lemma fold_filter: "fold (\<lambda>x. filter (P x)) xs ms = filter (\<lambda>m. \<forall>x \<in> set xs. P x m) ms"
  by (induction xs arbitrary: ms) (auto intro: filter_cong)

lemma dropAcked_messages:
  "rd_messages (dropAcked d) =
     filter (\<lambda>m. (sm_id m, sm_queue_name m) \<notin> ids_acked (rd_acked d)) (rd_messages d)"
proof -
  have "fold (\<lambda>(queue, ackIds) ms. filter (\<lambda>m. if sm_queue_name m \<noteq> queue then True
          else \<not> list_ex (\<lambda>i. sm_id m = i) ackIds) ms) (rd_acked d) (rd_messages d) =
        filter (\<lambda>m. \<forall>x \<in> set (rd_acked d). if sm_queue_name m \<noteq> fst x then True
          else \<not> list_ex (\<lambda>i. sm_id m = i) (snd x)) (rd_messages d)"
    unfolding split_beta by (rule fold_filter)
  then show ?thesis
    by (auto simp: dropAcked_def ids_acked_def list_ex_iff intro!: filter_cong)
qed

lemma dropAcked_other:
  "rd_exchanges (dropAcked d) = rd_exchanges d" "rd_queues (dropAcked d) = rd_queues d"
  "rd_bindings (dropAcked d) = rd_bindings d" "rd_acked (dropAcked d) = rd_acked d"
  by (simp_all add: dropAcked_def)

lemma replay_stands_for: "stands_for (dropAcked (fst (fold replay_entry es (no_data, nx)))) es"
  using replay_acked [of "(no_data, nx)" es]
  by (auto simp: stands_for_def dropAcked_messages dropAcked_other replay_exchanges replay_queues
      replay_bindings replay_messages no_data_def ids_acked_def)

section \<open>The operations append entries\<close>

lemma writeEntry_append: "ms_open s \<Longrightarrow> writeEntry ty b s = s\<lparr>ms_wal := ms_wal s @ enc_record ty (bdata b)\<rparr>"
  by (simp add: writeEntry_def enc_record_def total_size_def enc32_def Let_def)

lemma bdata_Buffer_of [simp]: "bdata (Buffer_of bs) = bs"
  by (simp add: Buffer_of_def)

lemma payloads [simp]:
  "bdata (messagePayload i q x k p bs) = entry_payload (MessageEntry \<lparr>sm_id = i, sm_queue_name = q,
     sm_exchange = x, sm_routing_key = k, sm_properties = p, sm_body = bs\<rparr>)"
  "bdata (queueDeclarePayload n du ad) = entry_payload (QueueDeclareEntry
     \<lparr>qd_name = n, qd_durable = du, qd_auto_delete = ad\<rparr>)"
  "bdata (exchangeDeclarePayload n ty du ad inr) = entry_payload (ExchangeDeclareEntry
     \<lparr>ed_name = n, ed_type = ty, ed_durable = du, ed_auto_delete = ad, ed_internal = inr\<rparr>)"
  "bdata (bindingPayload q x k) = enc_binding \<lparr>sb_queue = q, sb_exchange = x, sb_routing_key = k\<rparr>"
  "bdata (writeString q (writeUint64 i (Buffer_of []))) = entry_payload (AckEntry i q)"
  "bdata (writeString n (Buffer_of [])) = enc_long n"
  by (simp_all add: messagePayload_def queueDeclarePayload_def exchangeDeclarePayload_def
      bindingPayload_def store_str.wr_append sized.wr_append flag.wr_append props.wr_append
      u64.wr_append enc_binding_def Let_def)

definition appends_entry :: "(MessageStore \<Rightarrow> MessageStore) \<Rightarrow> WalEntry \<Rightarrow> bool" where
  "appends_entry f e \<longleftrightarrow> (\<forall>s. ms_open s \<longrightarrow> ms_open (f s) \<and> ms_wal (f s) = ms_wal s @ enc_entry e)"

definition stored_message :: "u64 \<Rightarrow> string \<Rightarrow> Message \<Rightarrow> StoredMessage" where
  "stored_message i q m = \<lparr>sm_id = i, sm_queue_name = q, sm_exchange = m_exchange m,
     sm_routing_key = m_routing_key m, sm_properties = m_properties m, sm_body = m_body m\<rparr>"

lemma storeMessage_appends:
  assumes "ms_open s" "storeMessage q m s = (i, s')"
  shows "i = ms_nextMsgId s" "ms_open s'" "ms_nextMsgId s' = ms_nextMsgId s + 1"
    "ms_wal s' = ms_wal s @ enc_entry (MessageEntry (stored_message i q m))"
  using assms by (auto simp: storeMessage_def writeEntry_append enc_entry_def stored_message_def Let_def)

lemma stores_append:
  "appends_entry (storeAck q i) (AckEntry i q)"
  "appends_entry (storeQueueDeclare n du ad)
     (QueueDeclareEntry \<lparr>qd_name = n, qd_durable = du, qd_auto_delete = ad\<rparr>)"
  "appends_entry (storeExchangeDeclare n ty du ad inr) (ExchangeDeclareEntry
     \<lparr>ed_name = n, ed_type = ty, ed_durable = du, ed_auto_delete = ad, ed_internal = inr\<rparr>)"
  "appends_entry (storeBinding q x k) (BindingEntry \<lparr>sb_queue = q, sb_exchange = x, sb_routing_key = k\<rparr>)"
  "appends_entry (storeQueueDelete n) (QueueDeleteEntry n)"
  "appends_entry (storeExchangeDelete n) (ExchangeDeleteEntry n)"
  "appends_entry (storeUnbind q x k) (UnbindEntry \<lparr>sb_queue = q, sb_exchange = x, sb_routing_key = k\<rparr>)"
  by (simp_all add: appends_entry_def storeAck_def storeQueueDeclare_def storeExchangeDeclare_def
      storeBinding_def storeQueueDelete_def storeExchangeDelete_def storeUnbind_def
      writeEntry_append enc_entry_def)

lemma appends_fold:
  assumes "\<And>x. appends_entry (f x) (e x)" "ms_open s"
  shows "ms_open (fold f xs s) \<and> ms_wal (fold f xs s) = ms_wal s @ log_bytes (map e xs)"
  using assms(2)
proof (induction xs arbitrary: s)
  case (Cons x xs)
  then show ?case using assms(1) [of x] Cons.IH [of "f x s"]
    by (simp add: appends_entry_def log_bytes_def)
qed (simp add: log_bytes_def)

section \<open>Compaction\<close>

definition live_log :: "RecoveryData \<Rightarrow> WalEntry list" where
  "live_log d = map ExchangeDeclareEntry (rd_exchanges d) @ map QueueDeclareEntry (rd_queues d) @
     map BindingEntry (rd_bindings d) @ map MessageEntry (rd_messages d)"

lemma compact_wal: "ms_wal (compactIfNeeded s) = log_bytes (live_log (fst (recoverLocked s)))"
proof -
  obtain live s0 where r: "recoverLocked s = (live, s0)" by (cases "recoverLocked s")
  let ?ex = "\<lambda>ed. writeEntry ENTRY_EXCHANGE_DECLARE (exchangeDeclarePayload (ed_name ed)
                   (ed_type ed) (ed_durable ed) (ed_auto_delete ed) (ed_internal ed))"
  let ?qd = "\<lambda>qd. writeEntry ENTRY_QUEUE_DECLARE
                   (queueDeclarePayload (qd_name qd) (qd_durable qd) (qd_auto_delete qd))"
  let ?sb = "\<lambda>sb. writeEntry ENTRY_BINDING
                   (bindingPayload (sb_queue sb) (sb_exchange sb) (sb_routing_key sb))"
  let ?sm = "\<lambda>sm. writeEntry ENTRY_MESSAGE (messagePayload (sm_id sm) (sm_queue_name sm)
              (sm_exchange sm) (sm_routing_key sm) (sm_properties sm) (sm_body sm))"
  define s1 where "s1 = s0\<lparr>ms_wal := [], ms_open := True\<rparr>"
  have a: "\<And>x. appends_entry (?ex x) (ExchangeDeclareEntry x)" "\<And>x. appends_entry (?qd x) (QueueDeclareEntry x)"
    "\<And>x. appends_entry (?sb x) (BindingEntry x)" "\<And>x. appends_entry (?sm x) (MessageEntry x)"
    by (simp_all add: appends_entry_def writeEntry_append enc_entry_def enc_binding_def)
  have o: "ms_open s1" "ms_wal s1 = []" by (simp_all add: s1_def)
  note f1 = appends_fold [of ?ex, OF a(1) o(1), of "rd_exchanges live"]
  note f2 = appends_fold [of ?qd, OF a(2) f1 [THEN conjunct1], of "rd_queues live"]
  note f3 = appends_fold [of ?sb, OF a(3) f2 [THEN conjunct1], of "rd_bindings live"]
  note f4 = appends_fold [of ?sm, OF a(4) f3 [THEN conjunct1], of "rd_messages live"]
  show ?thesis using f1 f2 f3 f4 o(2)
    by (simp add: compactIfNeeded_def r Let_def live_log_def log_bytes_def flip: s1_def)
qed

lemma live_log_live [simp]:
  "live_exchanges (live_log d) = rd_exchanges d" "live_queues (live_log d) = rd_queues d"
  "live_bindings (live_log d) = rd_bindings d" "live_messages (live_log d) = rd_messages d"
  "AckEntry i q \<notin> set (live_log d)"
proof -
  have m: "live_exchanges (map MessageEntry ms) = []" "live_queues (map MessageEntry ms) = []"
    "live_bindings (map MessageEntry ms) = []" "live_messages (map MessageEntry ms) = ms" for ms
    by (induction ms) auto
  have b: "live_exchanges (map BindingEntry bs @ map MessageEntry ms) = []"
    "live_queues (map BindingEntry bs @ map MessageEntry ms) = []"
    "live_bindings (map BindingEntry bs @ map MessageEntry ms) = bs"
    "live_messages (map BindingEntry bs @ map MessageEntry ms) = ms" for bs ms
    by (induction bs) (auto simp: m)
  have q: "live_exchanges (map QueueDeclareEntry qs @ map BindingEntry bs @ map MessageEntry ms) = []"
    "live_queues (map QueueDeclareEntry qs @ map BindingEntry bs @ map MessageEntry ms) = qs"
    "live_bindings (map QueueDeclareEntry qs @ map BindingEntry bs @ map MessageEntry ms) = bs"
    "live_messages (map QueueDeclareEntry qs @ map BindingEntry bs @ map MessageEntry ms) = ms" for qs bs ms
    by (induction qs) (auto simp: b)
  have "live_exchanges (map ExchangeDeclareEntry xs @ map QueueDeclareEntry qs @ map BindingEntry bs @ map MessageEntry ms) = xs \<and>
    live_queues (map ExchangeDeclareEntry xs @ map QueueDeclareEntry qs @ map BindingEntry bs @ map MessageEntry ms) = qs \<and>
    live_bindings (map ExchangeDeclareEntry xs @ map QueueDeclareEntry qs @ map BindingEntry bs @ map MessageEntry ms) = bs \<and>
    live_messages (map ExchangeDeclareEntry xs @ map QueueDeclareEntry qs @ map BindingEntry bs @ map MessageEntry ms) = ms"
    for xs qs bs ms
    by (induction xs) (auto simp: q)
  then show "live_exchanges (live_log d) = rd_exchanges d" "live_queues (live_log d) = rd_queues d"
    "live_bindings (live_log d) = rd_bindings d" "live_messages (live_log d) = rd_messages d"
    by (simp_all add: live_log_def)
  show "AckEntry i q \<notin> set (live_log d)" by (auto simp: live_log_def)
qed

lemma live_subset:
  "ed \<in> set (live_exchanges es) \<Longrightarrow> ExchangeDeclareEntry ed \<in> set es"
  "qd \<in> set (live_queues es) \<Longrightarrow> QueueDeclareEntry qd \<in> set es"
  "sb \<in> set (live_bindings es) \<Longrightarrow> BindingEntry sb \<in> set es"
  "m \<in> set (live_messages es) \<Longrightarrow> MessageEntry m \<in> set es"
  by (induction es) (auto split: WalEntry.splits if_splits)

lemma live_log_subset: "stands_for d es \<Longrightarrow> set (live_log d) \<subseteq> set es"
  by (auto simp: stands_for_def live_log_def dest: live_subset)

section \<open>Fresh message ids\<close>

lemma unat_plus_one_u64: "unat x + 1 < 2 ^ 64 \<Longrightarrow> unat (x + 1 :: u64) = unat x + 1"
  by (simp add: unat_word_ariths)

definition ids_below :: "WalEntry list \<Rightarrow> u64 \<Rightarrow> bool" where
  "ids_below es nx \<longleftrightarrow> (\<forall>m. MessageEntry m \<in> set es \<longrightarrow> sm_id m < nx) \<and>
     (\<forall>i q. AckEntry i q \<in> set es \<longrightarrow> i < nx)"

lemma replay_next:
  "\<forall>m. MessageEntry m \<in> set es \<longrightarrow> unat (sm_id m) < 2 ^ 64 - 1 \<Longrightarrow>
   snd r \<le> snd (fold replay_entry es r) \<and>
   (\<forall>m. MessageEntry m \<in> set es \<longrightarrow> sm_id m < snd (fold replay_entry es r))"
proof (induction es arbitrary: r)
  case (Cons e es)
  have step: "snd r \<le> snd (replay_entry e r) \<and> (\<forall>m. MessageEntry m = e \<longrightarrow> sm_id m < snd (replay_entry e r))"
  proof (cases e)
    case (MessageEntry m)
    obtain d nx where r: "r = (d, nx)" by (cases r)
    have "unat (sm_id m) < 2 ^ 64 - 1" using Cons.prems MessageEntry by simp
    then have "unat (sm_id m + 1) = unat (sm_id m) + 1" by (intro unat_plus_one_u64) simp
    then have "sm_id m < sm_id m + 1" by (simp add: word_less_nat_alt)
    then show ?thesis using MessageEntry by (auto simp: onMessage_def r)
  qed (auto simp: replay_defs split: prod.splits)
  then show ?case using Cons.IH [of "replay_entry e r"] Cons.prems by fastforce
qed simp

section \<open>Recovery of the store\<close>

lemma recover_log_tail:
  assumes "list_all wf_entry es" "ms_wal s = log_bytes es @ tail" "\<And>r. recoverLoop tail r = r"
  shows "recover s = (dropAcked (fst (fold replay_entry es (no_data, ms_nextMsgId s))),
    s\<lparr>ms_nextMsgId := snd (fold replay_entry es (no_data, ms_nextMsgId s))\<rparr>)"
  using assms by (simp add: recover_def recoverLocked_def recoverLoop_log split_beta Let_def)

lemma recover_log:
  assumes "list_all wf_entry es" "ms_wal s = log_bytes es"
  shows "stands_for (fst (recover s)) es"
  using recover_log_tail [of es s "[]"] assms replay_stands_for by simp

lemma torn_entry: "wf_entry e \<Longrightarrow> n < length (enc_entry e) \<Longrightarrow> recoverLoop (take n (enc_entry e)) r = r"
  by (simp add: enc_entry_def recoverLoop_torn wf_entry_def entry_fits_def)

lemma take_log:
  "\<exists>k \<le> length es. \<exists>j. take n (log_bytes es) = log_bytes (take k es) @
      (if k < length es then take j (enc_entry (es ! k)) else []) \<and>
      length (log_bytes (take k es)) \<le> n \<and>
      (k < length es \<longrightarrow> j < length (enc_entry (es ! k)) \<and> n = length (log_bytes (take k es)) + j)"
proof (induction es arbitrary: n)
  case (Cons e es)
  show ?case
  proof (cases "n < length (enc_entry e)")
    case True
    then show ?thesis by (intro exI [of _ 0]) (auto simp: log_bytes_def)
  next
    case False
    obtain k j where k: "k \<le> length es" "take (n - length (enc_entry e)) (log_bytes es) =
        log_bytes (take k es) @ (if k < length es then take j (enc_entry (es ! k)) else [])"
      "k < length es \<longrightarrow> j < length (enc_entry (es ! k)) \<and>
        n - length (enc_entry e) = length (log_bytes (take k es)) + j"
      "length (log_bytes (take k es)) \<le> n - length (enc_entry e)"
      using Cons.IH [of "n - length (enc_entry e)"] by blast
    show ?thesis using k False
      by (intro exI [of _ "Suc k"] conjI exI [of _ j]) (auto simp: log_bytes_def)
  qed
qed (simp add: log_bytes_def)

lemma log_bytes_append: "log_bytes (es @ fs) = log_bytes es @ log_bytes fs"
  by (simp add: log_bytes_def)

section \<open>Properties\<close>

text \<open>
  (C2) Crash recovery. Take any log the store wrote and cut the file anywhere, as a crash in the
  middle of a write leaves it. Recovery returns exactly what the entries that are complete in
  the file stand for: exchanges, queues and bindings that were declared and not deleted, and the
  messages whose queue was not deleted and that were not acknowledged, each in log order.
\<close>

theorem recovery_after_crash:
  assumes "list_all wf_entry es" "ms_wal s = take n (log_bytes es)"
  shows "\<exists>k \<le> length es. stands_for (fst (recover s)) (take k es) \<and>
    length (log_bytes (take k es)) \<le> n \<and>
    (k < length es \<longrightarrow> n < length (log_bytes (take (Suc k) es)))"
proof -
  obtain k j where k: "k \<le> length es" "take n (log_bytes es) = log_bytes (take k es) @
      (if k < length es then take j (enc_entry (es ! k)) else [])"
    "length (log_bytes (take k es)) \<le> n"
    "k < length es \<longrightarrow> j < length (enc_entry (es ! k)) \<and> n = length (log_bytes (take k es)) + j"
    using take_log by blast
  let ?tail = "if k < length es then take j (enc_entry (es ! k)) else []"
  have "list_all wf_entry (take k es)" using assms(1) by (metis append_take_drop_id list_all_append)
  moreover have "recoverLoop ?tail r = r" for r
    using k(4) assms(1) by (auto simp: list_all_length intro: torn_entry)
  ultimately have "stands_for (fst (recover s)) (take k es)"
    using recover_log_tail [of "take k es" s ?tail] assms(2) k(2) replay_stands_for by simp
  moreover have "n < length (log_bytes (take (Suc k) es))" if "k < length es"
    using that k(4) by (simp add: take_Suc_conv_app_nth log_bytes_append) (simp add: log_bytes_def)
  ultimately show ?thesis using k(1,3) by blast
qed

definition sample_log :: "WalEntry list" where
  "sample_log = [QueueDeclareEntry \<lparr>qd_name = ''q'', qd_durable = True, qd_auto_delete = False\<rparr>,
     MessageEntry \<lparr>sm_id = 1, sm_queue_name = ''q'', sm_exchange = [], sm_routing_key = ''q'',
       sm_properties = no_properties, sm_body = [104, 105]\<rparr>, AckEntry 1 ''q'']"

lemma length_enc_no_properties [simp]: "length (enc_props no_properties) = 2"
  by code_simp

lemma wf_no_properties [simp]: "wf_props no_properties"
  by (simp add: wf_props_def no_properties_def)

lemma wf_sample_log: "list_all wf_entry sample_log"
  by (simp add: sample_log_def wf_entry_def entry_fits_def MAX_ENTRY_SIZE_def enc_sized_def enc_flag_def
      wf_no_properties)

theorem recovery_after_crash_witness:
  "list_all wf_entry sample_log \<and>
   (\<exists>k \<le> length sample_log.
      stands_for (fst (recover (new_MessageStore (take 30 (log_bytes sample_log))))) (take k sample_log) \<and>
      length (log_bytes (take k sample_log)) \<le> 30 \<and>
      (k < length sample_log \<longrightarrow> 30 < length (log_bytes (take (Suc k) sample_log))))"
  using recovery_after_crash [OF wf_sample_log, of "new_MessageStore (take 30 (log_bytes sample_log))" 30]
    wf_sample_log by (simp add: new_MessageStore_def)

text \<open>
  (C13) Compaction loses nothing and revives nothing: whatever log the store had written, and
  even if its last entry was torn, a recovery after \<open>compactIfNeeded\<close> returns the same
  exchanges, queues, bindings and messages as one before it.
\<close>

theorem compaction_preserves_recovery:
  assumes "list_all wf_entry es" "wf_entry e" "n < length (enc_entry e)"
    "ms_wal s = log_bytes es @ take n (enc_entry e)"
  shows "stands_for (fst (recover s)) es \<and> (let d = fst (recover s); d' = fst (recover (compactIfNeeded s)) in
    rd_exchanges d' = rd_exchanges d \<and> rd_queues d' = rd_queues d \<and>
    rd_bindings d' = rd_bindings d \<and> rd_messages d' = rd_messages d)"
proof -
  have d: "stands_for (fst (recover s)) es"
    using recover_log_tail [OF assms(1,4)] torn_entry [OF assms(2,3)] replay_stands_for by simp
  have wal: "ms_wal (compactIfNeeded s) = log_bytes (live_log (fst (recover s)))"
    by (simp add: compact_wal recover_def)
  have "list_all wf_entry (live_log (fst (recover s)))"
    using live_log_subset [OF d] assms(1) by (auto simp: list_all_iff)
  from recover_log [OF this wal] d show ?thesis by (simp add: stands_for_def Let_def)
qed

theorem compaction_preserves_recovery_witness:
  "let s = new_MessageStore (log_bytes sample_log @ take 7 (enc_entry (AckEntry 1 ''q''))) in
   stands_for (fst (recover s)) sample_log \<and> (let d = fst (recover s); d' = fst (recover (compactIfNeeded s)) in
    rd_exchanges d' = rd_exchanges d \<and> rd_queues d' = rd_queues d \<and>
    rd_bindings d' = rd_bindings d \<and> rd_messages d' = rd_messages d)"
proof -
  have h: "wf_entry (AckEntry 1 ''q'')" "7 < length (enc_entry (AckEntry 1 ''q''))"
    by (simp_all add: wf_entry_def entry_fits_def MAX_ENTRY_SIZE_def enc_entry_def length_enc_record)
  show ?thesis
    using compaction_preserves_recovery [OF wf_sample_log h,
        of "new_MessageStore (log_bytes sample_log @ take 7 (enc_entry (AckEntry 1 ''q'')))"]
    by (simp add: new_MessageStore_def)
qed

text \<open>
  Durability of one message: the message \<open>storeMessage\<close> logs is recovered, behind
  those recovered before, with its id, queue, exchange, routing key, properties and body;
  once \<open>storeAck\<close> has logged its id, recovery is back to what it was.
\<close>

theorem store_then_ack:
  assumes "ms_open s" "ms_wal s = log_bytes es" "list_all wf_entry es" "ids_below es (ms_nextMsgId s)"
    "storeMessage q m s = (i, s')" "wf_entry (MessageEntry (stored_message i q m))" "wf_entry (AckEntry i q)"
  shows "rd_messages (fst (recover s')) = rd_messages (fst (recover s)) @ [stored_message i q m] \<and>
    rd_messages (fst (recover (storeAck q i s'))) = rd_messages (fst (recover s))"
proof -
  let ?m = "MessageEntry (stored_message i q m)"
  note s' = storeMessage_appends [OF assms(1,5)]
  have fresh: "AckEntry i x \<notin> set es" "MessageEntry w \<in> set es \<Longrightarrow> sm_id w \<noteq> i" for x w
    using assms(4) s'(1) by (auto simp: ids_below_def)
  have w1: "ms_wal s' = log_bytes (es @ [?m])" using s'(4) assms(2) by (simp add: log_bytes_def)
  have w2: "ms_wal (storeAck q i s') = log_bytes (es @ [?m, AckEntry i q])"
    using stores_append(1) [of q i] s'(2) w1 by (simp add: appends_entry_def log_bytes_def)
  have r: "stands_for (fst (recover s)) es" "stands_for (fst (recover s')) (es @ [?m])"
    "stands_for (fst (recover (storeAck q i s'))) (es @ [?m, AckEntry i q])"
    using recover_log assms(2,3,6,7) w1 w2 by simp_all
  have live: "live_messages (es @ [?m]) = live_messages es @ [stored_message i q m]"
    "live_messages (es @ [?m, AckEntry i q]) = live_messages es @ [stored_message i q m]"
    by (induction es) (auto split: WalEntry.splits)
  have ids: "sm_id w \<noteq> i" if "w \<in> set (live_messages es)" for w
    using live_subset(4) [OF that] fresh(2) by blast
  show ?thesis using r fresh(1) ids unfolding stands_for_def live
    by (auto simp: stored_message_def intro!: filter_cong)
qed

theorem store_then_ack_witness:
  "let s = open_store (new_MessageStore []); m = new_Message\<lparr>m_body := [1, 2]\<rparr> in
   case storeMessage ''q'' m s of (i, s') \<Rightarrow>
     rd_messages (fst (recover s')) = rd_messages (fst (recover s)) @ [stored_message i ''q'' m] \<and>
     rd_messages (fst (recover (storeAck ''q'' i s'))) = rd_messages (fst (recover s))"
proof -
  let ?s = "open_store (new_MessageStore [])" and ?m = "new_Message\<lparr>m_body := [1, 2]\<rparr>"
  obtain i s' where st: "storeMessage ''q'' ?m ?s = (i, s')" by (cases "storeMessage ''q'' ?m ?s")
  then have i: "i = 1" by (simp add: storeMessage_def Let_def open_store_def new_MessageStore_def)
  have w: "wf_entry (MessageEntry (stored_message 1 ''q'' ?m))" "wf_entry (AckEntry 1 ''q'')"
    by (simp_all add: wf_entry_def entry_fits_def MAX_ENTRY_SIZE_def stored_message_def new_Message_def
        enc_sized_def wf_no_properties)
  have h: "ms_open ?s" "ms_wal ?s = log_bytes []" "list_all wf_entry []" "ids_below [] (ms_nextMsgId ?s)"
    by (simp_all add: open_store_def new_MessageStore_def log_bytes_def ids_below_def)
  show ?thesis using store_then_ack [OF h st] w i by (simp add: st)
qed

text \<open>
  Message ids are never reused after a restart: recovery leaves the next id above the id of
  every message in the log, also of those that are acknowledged or deleted.
\<close>

theorem recovered_ids_are_fresh:
  assumes "list_all wf_entry es" "ms_wal s = log_bytes es" "MessageEntry m \<in> set es"
    "\<forall>m. MessageEntry m \<in> set es \<longrightarrow> unat (sm_id m) < 2 ^ 64 - 1"
  shows "sm_id m < ms_nextMsgId (snd (recover s))"
  using recover_log_tail [of es s "[]"] assms(1,2,3) replay_next [OF assms(4), of "(no_data, ms_nextMsgId s)"]
  by simp

theorem recovered_ids_are_fresh_witness:
  "(1 :: u64) < ms_nextMsgId (snd (recover (new_MessageStore (log_bytes sample_log))))"
proof -
  let ?m = "\<lparr>sm_id = 1, sm_queue_name = ''q'', sm_exchange = [], sm_routing_key = ''q'',
       sm_properties = no_properties, sm_body = [104, 105]\<rparr> :: StoredMessage"
  have "MessageEntry ?m \<in> set sample_log" "\<forall>m. MessageEntry m \<in> set sample_log \<longrightarrow> unat (sm_id m) < 2 ^ 64 - 1"
    by (auto simp: sample_log_def)
  from recovered_ids_are_fresh [OF wf_sample_log _ this, of "new_MessageStore (log_bytes sample_log)"]
  show ?thesis by (simp add: new_MessageStore_def)
qed

text \<open>
  (C33) An entry over \<open>MAX_ENTRY_SIZE\<close> is written without complaint - \<open>MAX_BODY_SIZE\<close> of a
  channel is twice as large - but recovery stops at it: the entry and everything logged after it
  is ignored, and removed from the file by the next compaction.
\<close>

theorem oversized_entry_hides_the_rest:
  assumes "list_all wf_entry es" "\<not> entry_fits e" "length (entry_payload e) < 2 ^ 32 - 5"
    "ms_wal s = log_bytes (es @ e # later)"
  shows "stands_for (fst (recover s)) es \<and>
    ms_wal (compactIfNeeded s) = log_bytes (live_log (fst (recover s)))"
proof -
  have "recoverLoop (log_bytes (e # later)) r = r" for r
    using recoverLoop_oversized [of "entry_payload e"] assms(2,3)
    by (simp add: log_bytes_def enc_entry_def entry_fits_def)
  then have "stands_for (fst (recover s)) es"
    using recover_log_tail [OF assms(1), of s "log_bytes (e # later)"] assms(4) replay_stands_for
    by (simp add: log_bytes_append)
  then show ?thesis by (simp add: compact_wal recover_def)
qed

definition big_entry :: WalEntry where
  "big_entry = MessageEntry \<lparr>sm_id = 2, sm_queue_name = ''q'', sm_exchange = [], sm_routing_key = ''q'',
     sm_properties = no_properties, sm_body = replicate (unat MAX_ENTRY_SIZE) 0\<rparr>"

theorem oversized_entry_hides_the_rest_witness:
  "\<not> entry_fits big_entry \<and>
   (let s = new_MessageStore (log_bytes (sample_log @ big_entry # sample_log)) in
    stands_for (fst (recover s)) sample_log \<and>
    ms_wal (compactIfNeeded s) = log_bytes (live_log (fst (recover s))))"
proof -
  have h: "\<not> entry_fits big_entry" "length (entry_payload big_entry) < 2 ^ 32 - 5"
    by (simp_all add: entry_fits_def big_entry_def enc_sized_def MAX_ENTRY_SIZE_def)
  from h(1) show ?thesis using oversized_entry_hides_the_rest [OF wf_sample_log h,
        of "new_MessageStore (log_bytes (sample_log @ big_entry # sample_log))" sample_log]
    by (simp add: new_MessageStore_def Let_def)
qed

lemma enc32_small:
  assumes "unat w < 1280"
  obtains x where "enc32 w = [0, 0, x, ucast w]" "unat x < 5"
proof
  have d: "unat (drop_bit k w) = unat w div 2 ^ k" for k
    unfolding unat_drop_bit_eq by (simp add: drop_bit_eq_div)
  have "drop_bit 24 w = 0" "drop_bit 16 w = 0" using assms d [of 24] d [of 16] by (simp_all add: unat_eq_zero)
  then show "enc32 w = [0, 0, ucast (drop_bit 8 w), ucast w]" by (simp add: enc32_def)
  show "unat (ucast (drop_bit 8 w) :: byte) < 5"
    using d [of 8] assms by (simp add: unsigned_ucast_eq unsigned_take_bit_eq take_bit_eq_mod)
qed

lemma recoverLoop_misaligned:
  assumes "length (entry_payload e) < 1000"
  shows "recoverLoop (0 # enc_entry e @ rest) r = r"
proof -
  have "unat (total_size (length (entry_payload e))) < 1280"
    using assms unat_total_size [of "length (entry_payload e)"] by simp
  then obtain x where x: "enc32 (total_size (length (entry_payload e))) =
      [0, 0, x, ucast (total_size (length (entry_payload e)))]" "unat x < 5"
    by (rule enc32_small)
  have "fromBE32 (take 4 (0 # enc_entry e @ rest)) = ucast x"
    using x(1) by (simp add: fromBE32_def enc_entry_def enc_record_def)
  moreover have "ucast x < (5 :: u32)" using x(2) by (simp add: word_less_nat_alt unsigned_ucast_eq unsigned_take_bit_eq take_bit_eq_mod)
  ultimately show ?thesis
    by (subst recoverLoop.simps) (simp add: Let_def)
qed

text \<open>
  (C34) A torn entry is tolerated by the recovery that follows the crash, but it stays in the file,
  and what is logged after the restart is appended behind it. When one byte of a small entry had
  reached the file, recovery of the longer log stops there again: nothing logged since the
  restart is recovered, and the compaction that runs a minute after the start removes it.
\<close>

theorem entries_behind_a_torn_one_are_lost:
  assumes "list_all wf_entry es" "length (entry_payload e) < 1000" "length (entry_payload f) < 1000"
    "ms_wal s = log_bytes es @ take 1 (enc_entry e) @ log_bytes (f # later)"
  shows "stands_for (fst (recover s)) es \<and>
    ms_wal (compactIfNeeded s) = log_bytes (live_log (fst (recover s)))"
proof -
  have "unat (total_size (length (entry_payload e))) < 1280"
    using assms(2) unat_total_size [of "length (entry_payload e)"] by simp
  then have "take 1 (enc_entry e) = [0]"
    by (rule enc32_small) (simp add: enc_entry_def enc_record_def)
  then have w: "ms_wal s = log_bytes es @ (0 # enc_entry f @ log_bytes later)"
    using assms(4) by (simp add: log_bytes_def)
  have "stands_for (fst (recover s)) es"
    using recover_log_tail [OF assms(1) w recoverLoop_misaligned [OF assms(3)]] replay_stands_for by simp
  then show ?thesis by (simp add: compact_wal recover_def)
qed

theorem entries_behind_a_torn_one_are_lost_witness:
  "let s = new_MessageStore (log_bytes [] @ take 1 (enc_entry (AckEntry 1 ''q'')) @ log_bytes sample_log)
   in stands_for (fst (recover s)) [] \<and> ms_wal (compactIfNeeded s) = log_bytes (live_log (fst (recover s)))"
proof -
  let ?f = "QueueDeclareEntry \<lparr>qd_name = ''q'', qd_durable = True, qd_auto_delete = False\<rparr>"
  have l: "sample_log = ?f # tl sample_log" by (simp add: sample_log_def)
  have h: "length (entry_payload (AckEntry 1 ''q'')) < 1000" "length (entry_payload ?f) < 1000"
    by (simp_all add: enc_flag_def)
  let ?w = "log_bytes [] @ take 1 (enc_entry (AckEntry 1 ''q'')) @ log_bytes (?f # tl sample_log)"
  have w: "ms_wal (new_MessageStore ?w) = ?w" by (simp add: new_MessageStore_def)
  have "list_all wf_entry []" by simp
  from entries_behind_a_torn_one_are_lost [OF this h w] show ?thesis
    unfolding Let_def l [symmetric] by (simp add: l [symmetric])
qed

end
