(* ===== verification/Virtual_Host.thy ===== *)
theory Virtual_Host
  imports Exchange Queue_Properties Store_Recovery "HOL-Library.Monad_Syntax"
begin

text \<open>
  The virtual host (\<open>broker/vhost.h\<close>): exchanges and queues by name, declaration, deletion and
  binding with their error replies, routing, delivery, the periodic tick, the clean-up after
  a connection and recovery from the log. The dead-letter handler of a queue routes through the
  virtual host into queues whose own expiry may dead-letter again; that recursion runs on fuel,
  and \<open>None\<close> means that the fuel ran out.
\<close>

section \<open>State\<close>

text \<open>
  \<open>vh_heap\<close> is the store of the messages and consumers the host's queues point to,
  \<open>vh_counter\<close> the static counter of \<open>generateQueueName\<close>.
\<close>

record VirtualHost =
  vh_name :: string
  vh_store :: "MessageStore option"
  vh_exchanges :: "(string \<times> Exchange) list"
  vh_queues :: "(string \<times> MessageQueue) list"
  vh_counter :: u64
  vh_heap :: Heap

type_synonym reply = "u16 \<times> string"

definition builtin :: "string \<Rightarrow> string \<Rightarrow> ExchangeKind \<Rightarrow> string \<times> Exchange" where
  "builtin name type kind =
     (name, \<lparr>ex_name = name, ex_type = type, ex_durable = True, ex_auto_delete = False,
       ex_internal = False, ex_arguments = [], ex_kind = kind, ex_bindings = []\<rparr>)"

definition new_VirtualHost :: "string \<Rightarrow> MessageStore option \<Rightarrow> Heap \<Rightarrow> VirtualHost" where
  "new_VirtualHost name store h =
     \<lparr>vh_name = name, vh_store = store,
      vh_exchanges =
        [builtin [] ''direct'' DirectExchange,
         builtin ''amq.direct'' ''direct'' DirectExchange,
         builtin ''amq.fanout'' ''fanout'' FanoutExchange,
         builtin ''amq.topic'' ''topic'' TopicExchange,
         builtin ''amq.headers'' ''headers'' HeadersExchange,
         builtin ''amq.match'' ''headers'' HeadersExchange],
      vh_queues = [], vh_counter = 0, vh_heap = h\<rparr>"

definition log_store :: "(MessageStore \<Rightarrow> MessageStore) \<Rightarrow> VirtualHost \<Rightarrow> VirtualHost" where
  "log_store f vh = vh\<lparr>vh_store := map_option f (vh_store vh)\<rparr>"

section \<open>Exchanges\<close>

definition quoted :: "string \<Rightarrow> string \<Rightarrow> string" where
  "quoted what name = ''NOT_FOUND - no '' @ what @ [CHR '' '', CHR 0x27] @ name @ [CHR 0x27]"

definition declareExchange ::
  "string \<Rightarrow> string \<Rightarrow> bool \<Rightarrow> bool \<Rightarrow> bool \<Rightarrow> bool \<Rightarrow> FieldTable \<Rightarrow> VirtualHost \<Rightarrow>
   (reply + Exchange) \<times> VirtualHost" where
  "declareExchange name type passive durable autoDelete internal args vh =
     (case map_of (vh_exchanges vh) name of
        None \<Rightarrow>
          if passive then (Inl (404, quoted ''exchange'' name), vh)
          else
            let ex = (createExchange type)\<lparr>ex_name := name, ex_durable := durable,
                       ex_auto_delete := autoDelete, ex_internal := internal, ex_arguments := args\<rparr>;
                vh1 = vh\<lparr>vh_exchanges := AList.update name ex (vh_exchanges vh)\<rparr>
            in (Inr ex, if durable then
                          log_store (storeExchangeDeclare name type durable autoDelete internal) vh1
                        else vh1)
      | Some ex \<Rightarrow>
          if passive then (Inr ex, vh)
          else if ex_type ex \<noteq> type then (Inl (406, ''PRECONDITION_FAILED - exchange type mismatch''), vh)
          else (Inr ex, vh))"

definition deleteExchange :: "string \<Rightarrow> bool \<Rightarrow> VirtualHost \<Rightarrow> (reply + unit) \<times> VirtualHost" where
  "deleteExchange name ifUnused vh =
     (case map_of (vh_exchanges vh) name of
        None \<Rightarrow> (Inl (404, quoted ''exchange'' name), vh)
      | Some ex \<Rightarrow>
          if starts_with name ''amq.'' \<or> name = []
          then (Inl (403, ''ACCESS_REFUSED - cannot delete default exchange''), vh)
          else (Inr (), log_store (storeExchangeDelete name)
                  (vh\<lparr>vh_exchanges := AList.delete name (vh_exchanges vh)\<rparr>)))"

definition findExchange :: "string \<Rightarrow> VirtualHost \<Rightarrow> Exchange option" where
  "findExchange name vh = map_of (vh_exchanges vh) name"

section \<open>Queues\<close>

definition generateQueueName :: "VirtualHost \<Rightarrow> string \<times> VirtualHost" where
  "generateQueueName vh =
     (let n = vh_counter vh + 1 in (''amq.gen-'' @ show_nat (unat n), vh\<lparr>vh_counter := n\<rparr>))"

definition bindDefault :: "string \<Rightarrow> VirtualHost \<Rightarrow> VirtualHost" where
  "bindDefault qname vh =
     (case map_of (vh_exchanges vh) [] of
        None \<Rightarrow> vh
      | Some defEx \<Rightarrow> vh\<lparr>vh_exchanges := AList.update [] (addBinding qname qname [] defEx) (vh_exchanges vh)\<rparr>)"

definition setupDeadLetterHandler :: "MessageQueue \<Rightarrow> MessageQueue" where
  "setupDeadLetterHandler q = setDeadLetterHandler q"

text \<open>The result holds the name of the queue and whether it was created.\<close>

definition declareNamedQueue ::
  "string \<Rightarrow> bool \<Rightarrow> bool \<Rightarrow> bool \<Rightarrow> bool \<Rightarrow> FieldTable \<Rightarrow> u32 \<Rightarrow> VirtualHost \<Rightarrow>
   (reply + string \<times> bool) \<times> VirtualHost" where
  "declareNamedQueue qname passive durable exclusive autoDelete args connectionId vh =
     (case map_of (vh_queues vh) qname of
        None \<Rightarrow>
          if passive then (Inl (404, quoted ''queue'' qname), vh)
          else
            let q = setupDeadLetterHandler (configure ((new_MessageQueue qname)\<lparr>q_durable := durable,
                      q_exclusive := exclusive, q_auto_delete := autoDelete, q_arguments := args,
                      q_owner_connection := (if exclusive then connectionId else 0)\<rparr>));
                vh1 = bindDefault qname (vh\<lparr>vh_queues := AList.update qname q (vh_queues vh)\<rparr>)
            in (Inr (qname, True),
                if durable then log_store (storeQueueDeclare qname durable autoDelete) vh1 else vh1)
      | Some q \<Rightarrow>
          if passive then (Inr (qname, False), vh)
          else if q_exclusive q \<and> q_owner_connection q \<noteq> connectionId
          then (Inl (405, ''RESOURCE_LOCKED - queue '' @ [CHR 0x27] @ qname @ [CHR 0x27] @ '' is exclusive''), vh)
          else (Inr (qname, False), vh))"

definition declareQueue ::
  "string \<Rightarrow> bool \<Rightarrow> bool \<Rightarrow> bool \<Rightarrow> bool \<Rightarrow> FieldTable \<Rightarrow> u32 \<Rightarrow> VirtualHost \<Rightarrow>
   (reply + string \<times> bool) \<times> VirtualHost" where
  "declareQueue name passive durable exclusive autoDelete args connectionId vh =
     (let (qname, vh1) = (if name = [] then generateQueueName vh else (name, vh))
      in declareNamedQueue qname passive durable exclusive autoDelete args connectionId vh1)"

definition removeBindingsOf :: "string \<Rightarrow> Exchange \<Rightarrow> Exchange" where
  "removeBindingsOf name ex =
     fold (\<lambda>b ex. if queue_name b = name then removeBinding name (b_routing_key b) (b_arguments b) ex else ex)
       (getBindings ex) ex"

definition unbindEverywhere :: "string \<Rightarrow> VirtualHost \<Rightarrow> VirtualHost" where
  "unbindEverywhere name vh =
     vh\<lparr>vh_exchanges := map (\<lambda>(n, ex). (n, removeBindingsOf name ex)) (vh_exchanges vh)\<rparr>"

definition deleteQueue :: "string \<Rightarrow> bool \<Rightarrow> bool \<Rightarrow> VirtualHost \<Rightarrow> (reply + u32) \<times> VirtualHost" where
  "deleteQueue name ifUnused ifEmpty vh =
     (case map_of (vh_queues vh) name of
        None \<Rightarrow> (Inl (404, quoted ''queue'' name), vh)
      | Some q \<Rightarrow>
          if ifUnused \<and> consumerCount q > 0 then (Inl (406, ''PRECONDITION_FAILED - queue in use''), vh)
          else if ifEmpty \<and> messageCount q > 0 then (Inl (406, ''PRECONDITION_FAILED - queue not empty''), vh)
          else let vh1 = unbindEverywhere name vh
               in (Inr (messageCount q), log_store (storeQueueDelete name)
                     (vh1\<lparr>vh_queues := AList.delete name (vh_queues vh1)\<rparr>)))"

definition findQueue :: "string \<Rightarrow> VirtualHost \<Rightarrow> MessageQueue option" where
  "findQueue name vh = map_of (vh_queues vh) name"

section \<open>Bindings\<close>

definition bindQueue ::
  "string \<Rightarrow> string \<Rightarrow> string \<Rightarrow> FieldTable \<Rightarrow> VirtualHost \<Rightarrow> (reply + unit) \<times> VirtualHost" where
  "bindQueue queue exchange routingKey args vh =
     (case map_of (vh_exchanges vh) exchange of
        None \<Rightarrow> (Inl (404, quoted ''exchange'' exchange), vh)
      | Some ex \<Rightarrow>
          (case map_of (vh_queues vh) queue of
             None \<Rightarrow> (Inl (404, quoted ''queue'' queue), vh)
           | Some q \<Rightarrow>
               (Inr (), log_store (storeBinding queue exchange routingKey)
                  (vh\<lparr>vh_exchanges := AList.update exchange (addBinding queue routingKey args ex)
                        (vh_exchanges vh)\<rparr>))))"

definition unbindQueue ::
  "string \<Rightarrow> string \<Rightarrow> string \<Rightarrow> FieldTable \<Rightarrow> VirtualHost \<Rightarrow> (reply + unit) \<times> VirtualHost" where
  "unbindQueue queue exchange routingKey args vh =
     (case map_of (vh_exchanges vh) exchange of
        None \<Rightarrow> (Inl (404, quoted ''exchange'' exchange), vh)
      | Some ex \<Rightarrow>
          (Inr (), log_store (storeUnbind queue exchange routingKey)
             (vh\<lparr>vh_exchanges := AList.update exchange (removeBinding queue routingKey args ex)
                   (vh_exchanges vh)\<rparr>)))"

section \<open>Routing and delivery\<close>

fun firstOnly :: "string list \<Rightarrow> string list \<Rightarrow> string list" where
  "firstOnly seen [] = []"
| "firstOnly seen (q # qs) =
     (if q \<in> set seen then firstOnly seen qs else q # firstOnly (q # seen) qs)"

definition routeMessage :: "string \<Rightarrow> string \<Rightarrow> FieldTable option \<Rightarrow> VirtualHost \<Rightarrow> string list" where
  "routeMessage exchangeName routingKey hs vh =
     (case map_of (vh_exchanges vh) exchangeName of
        None \<Rightarrow> []
      | Some ex \<Rightarrow> firstOnly [] (route ex routingKey hs))"

definition put_queue :: "string \<Rightarrow> Heap \<Rightarrow> MessageQueue \<Rightarrow> VirtualHost \<Rightarrow> VirtualHost" where
  "put_queue qname h q vh = vh\<lparr>vh_heap := h, vh_queues := AList.update qname q (vh_queues vh)\<rparr>"

text \<open>
  A call of \<open>deadLetterFn_\<close>. The operations below take the handler as an argument, as the
  queue has it as a member.
\<close>

type_synonym handler = "string \<Rightarrow> string \<Rightarrow> addr \<Rightarrow> VirtualHost \<Rightarrow> VirtualHost option"

definition deadLetterVia :: "handler \<Rightarrow> string \<Rightarrow> addr \<Rightarrow> string \<Rightarrow> VirtualHost \<Rightarrow> VirtualHost option" where
  "deadLetterVia fn qname a reason vh =
     (case map_of (vh_queues vh) qname of
        None \<Rightarrow> Some vh
      | Some q \<Rightarrow>
          (case deadLetter q a reason (vh_heap vh) of
             (h, None) \<Rightarrow> Some (vh\<lparr>vh_heap := h\<rparr>)
           | (h, Some (exchange, rk, m)) \<Rightarrow> fn exchange rk m (vh\<lparr>vh_heap := h\<rparr>)))"

fun deliverDeadLetters :: "handler \<Rightarrow> string \<Rightarrow> dead_letters \<Rightarrow> VirtualHost \<Rightarrow> VirtualHost option" where
  "deliverDeadLetters fn qname [] vh = Some vh"
| "deliverDeadLetters fn qname ((a, reason) # dlq) vh =
     do { vh1 \<leftarrow> deadLetterVia fn qname a reason vh; deliverDeadLetters fn qname dlq vh1 }"

definition deliverToQueue :: "handler \<Rightarrow> string \<Rightarrow> addr \<Rightarrow> VirtualHost \<Rightarrow> VirtualHost option" where
  "deliverToQueue fn qname a vh =
     (case map_of (vh_queues vh) qname of
        None \<Rightarrow> Some vh
      | Some q \<Rightarrow>
          (case enqueueLocked a (vh_heap vh) q of
             (h, q', dlq) \<Rightarrow> deliverDeadLetters fn qname dlq (put_queue qname h q' vh)))"

fun deliverToAll :: "handler \<Rightarrow> string list \<Rightarrow> addr \<Rightarrow> VirtualHost \<Rightarrow> VirtualHost option" where
  "deliverToAll fn [] a vh = Some vh"
| "deliverToAll fn (qname # qnames) a vh =
     do { vh1 \<leftarrow> deliverToQueue fn qname a vh; deliverToAll fn qnames a vh1 }"

text \<open>The handler that \<open>setupDeadLetterHandler\<close> installs, with fuel for the recursion.\<close>

primrec deadLetterHandler :: "nat \<Rightarrow> handler" where
  "deadLetterHandler 0 = (\<lambda>_ _ _ _. None)"
| "deadLetterHandler (Suc n) = (\<lambda>exchange routingKey a vh.
     deliverToAll (deadLetterHandler n)
       (routeMessage exchange routingKey (headers (m_properties (msg_at (vh_heap vh) a))) vh) a vh)"

text \<open>
  Enough fuel (shown in \<open>Dead_Lettering\<close>): every call of the handler uses up a reference
  to a message held by a queue, or one of the twenty hops of a message and gives back at
  most one reference per queue.
\<close>

definition hops_left :: "Message \<Rightarrow> nat" where
  "hops_left m = 20 - unat (m_dlx_hops m)"

definition dlx_fuel :: "VirtualHost \<Rightarrow> nat" where
  "dlx_fuel vh = sum_list (map (\<lambda>(n, q). length (q_messages q)) (vh_queues vh)) +
     length (vh_queues vh) * (sum_list (map hops_left (h_messages (vh_heap vh))) + 1) + 2"

definition onDeadLetter :: "VirtualHost \<Rightarrow> handler" where
  "onDeadLetter vh = deadLetterHandler (dlx_fuel vh)"

section \<open>Queue operations through the host\<close>

definition rejectMessage :: "handler \<Rightarrow> string \<Rightarrow> bool \<Rightarrow> addr \<Rightarrow> VirtualHost \<Rightarrow> VirtualHost option" where
  "rejectMessage fn qname requeue a vh =
     (case map_of (vh_queues vh) qname of
        None \<Rightarrow> Some vh
      | Some q \<Rightarrow>
          if requeue then (case requeueLocked a (vh_heap vh) q of (h, q') \<Rightarrow> Some (put_queue qname h q' vh))
          else deadLetterVia fn qname a ''rejected'' vh)"

definition getMessage :: "handler \<Rightarrow> string \<Rightarrow> VirtualHost \<Rightarrow> (addr option \<times> VirtualHost) option" where
  "getMessage fn qname vh =
     (case map_of (vh_queues vh) qname of
        None \<Rightarrow> Some (None, vh)
      | Some q \<Rightarrow>
          (case getLocked (vh_heap vh) q of
             (r, h, q', dlq) \<Rightarrow>
               map_option (Pair r) (deliverDeadLetters fn qname dlq (put_queue qname h q' vh))))"

definition flushQueue :: "handler \<Rightarrow> string \<Rightarrow> VirtualHost \<Rightarrow> VirtualHost option" where
  "flushQueue fn qname vh =
     (case map_of (vh_queues vh) qname of
        None \<Rightarrow> Some vh
      | Some q \<Rightarrow>
          (case flushLocked (vh_heap vh) q of
             (h, q', dlq) \<Rightarrow> deliverDeadLetters fn qname dlq (put_queue qname h q' vh)))"

fun flushAll :: "handler \<Rightarrow> string list \<Rightarrow> VirtualHost \<Rightarrow> VirtualHost option" where
  "flushAll fn [] vh = Some vh"
| "flushAll fn (qname # qnames) vh = do { vh1 \<leftarrow> flushQueue fn qname vh; flushAll fn qnames vh1 }"

definition tick :: "VirtualHost \<Rightarrow> VirtualHost option" where
  "tick vh = flushAll (onDeadLetter vh) (map fst (vh_queues vh)) vh"

text \<open>Consumers and purging, on the queue found by name.\<close>

definition addConsumerTo :: "string \<Rightarrow> addr \<Rightarrow> VirtualHost \<Rightarrow> VirtualHost" where
  "addConsumerTo qname ci vh =
     (case map_of (vh_queues vh) qname of
        None \<Rightarrow> vh
      | Some q \<Rightarrow> (case addConsumer ci (vh_heap vh) q of (h, q') \<Rightarrow> put_queue qname h q' vh))"

definition removeConsumerFrom :: "string \<Rightarrow> string \<Rightarrow> VirtualHost \<Rightarrow> VirtualHost" where
  "removeConsumerFrom qname tag vh =
     (case map_of (vh_queues vh) qname of
        None \<Rightarrow> vh
      | Some q \<Rightarrow> (case removeConsumer tag (vh_heap vh) q of (_, h, q') \<Rightarrow> put_queue qname h q' vh))"

definition purgeQueue :: "string \<Rightarrow> VirtualHost \<Rightarrow> u32 option \<times> VirtualHost" where
  "purgeQueue qname vh =
     (case map_of (vh_queues vh) qname of
        None \<Rightarrow> (None, vh)
      | Some q \<Rightarrow> (case purge q of (n, q') \<Rightarrow> (Some n, put_queue qname (vh_heap vh) q' vh)))"

section \<open>Clean-up after a connection\<close>

fun dropConsumers :: "u32 \<Rightarrow> string list \<Rightarrow> VirtualHost \<Rightarrow> VirtualHost" where
  "dropConsumers connectionId [] vh = vh"
| "dropConsumers connectionId (qname # qnames) vh =
     dropConsumers connectionId qnames
       (case map_of (vh_queues vh) qname of
          None \<Rightarrow> vh
        | Some q \<Rightarrow>
            (case removeConsumersByConnection connectionId (vh_heap vh) q of
               (h, q') \<Rightarrow> put_queue qname h q' vh))"

definition eraseExclusive :: "string \<Rightarrow> VirtualHost \<Rightarrow> VirtualHost" where
  "eraseExclusive name vh =
     (let vh1 = unbindEverywhere name vh in vh1\<lparr>vh_queues := AList.delete name (vh_queues vh1)\<rparr>)"

definition removeConnectionQueues :: "u32 \<Rightarrow> VirtualHost \<Rightarrow> VirtualHost" where
  "removeConnectionQueues connectionId vh =
     (let mine = (\<lambda>(n, q). q_exclusive q \<and> q_owner_connection q = connectionId);
          toRemove = map fst (filter mine (vh_queues vh));
          nonExclusive = map fst (filter (\<lambda>x. \<not> mine x) (vh_queues vh));
          vh1 = dropConsumers connectionId nonExclusive vh;
          vh2 = fold eraseExclusive toRemove vh1;
          autoDeleteRemove = map fst (filter (\<lambda>(n, q). q_auto_delete q \<and> consumerCount q = 0) (vh_queues vh2))
      in vh2\<lparr>vh_queues := fold AList.delete autoDeleteRemove (vh_queues vh2)\<rparr>)"

section \<open>Recovery\<close>

definition recoverExchange :: "StoredExchangeDecl \<Rightarrow> VirtualHost \<Rightarrow> VirtualHost" where
  "recoverExchange ed vh =
     (if map_of (vh_exchanges vh) (ed_name ed) \<noteq> None then vh
      else vh\<lparr>vh_exchanges := AList.update (ed_name ed)
             ((createExchange (ed_type ed))\<lparr>ex_name := ed_name ed, ex_durable := ed_durable ed,
                ex_auto_delete := ed_auto_delete ed, ex_internal := ed_internal ed\<rparr>) (vh_exchanges vh)\<rparr>)"

definition recoverQueue :: "StoredQueueDecl \<Rightarrow> VirtualHost \<Rightarrow> VirtualHost" where
  "recoverQueue qd vh =
     (if map_of (vh_queues vh) (qd_name qd) \<noteq> None then vh
      else bindDefault (qd_name qd)
        (vh\<lparr>vh_queues := AList.update (qd_name qd)
            ((new_MessageQueue (qd_name qd))\<lparr>q_durable := qd_durable qd, q_auto_delete := qd_auto_delete qd\<rparr>)
            (vh_queues vh)\<rparr>))"

definition recoverBinding :: "StoredBinding \<Rightarrow> VirtualHost \<Rightarrow> VirtualHost" where
  "recoverBinding sb vh =
     (case map_of (vh_exchanges vh) (sb_exchange sb) of
        None \<Rightarrow> vh
      | Some ex \<Rightarrow> vh\<lparr>vh_exchanges := AList.update (sb_exchange sb)
             (addBinding (sb_queue sb) (sb_routing_key sb) [] ex) (vh_exchanges vh)\<rparr>)"

definition recoverMessage :: "handler \<Rightarrow> StoredMessage \<Rightarrow> VirtualHost \<Rightarrow> VirtualHost option" where
  "recoverMessage fn sm vh =
     (if map_of (vh_queues vh) (sm_queue_name sm) = None then Some vh
      else let (a, h) = alloc_msg (new_Message\<lparr>m_exchange := sm_exchange sm,
                  m_routing_key := sm_routing_key sm, m_properties := sm_properties sm,
                  m_body := sm_body sm, m_wal_id := sm_id sm\<rparr>) (vh_heap vh)
           in deliverToQueue fn (sm_queue_name sm) a (vh\<lparr>vh_heap := h\<rparr>))"

fun recoverMessages :: "StoredMessage list \<Rightarrow> VirtualHost \<Rightarrow> VirtualHost option" where
  "recoverMessages [] vh = Some vh"
| "recoverMessages (sm # sms) vh =
     do { vh1 \<leftarrow> recoverMessage (onDeadLetter vh) sm vh; recoverMessages sms vh1 }"

definition recoverFromStore :: "VirtualHost \<Rightarrow> VirtualHost option" where
  "recoverFromStore vh =
     (case vh_store vh of
        None \<Rightarrow> Some vh
      | Some store \<Rightarrow>
          (case recover store of
             (d, store') \<Rightarrow>
               recoverMessages (rd_messages d)
                 (fold recoverBinding (rd_bindings d)
                   (fold recoverQueue (rd_queues d)
                     (fold recoverExchange (rd_exchanges d) (vh\<lparr>vh_store := Some store'\<rparr>))))))"

section \<open>Snapshots\<close>

record QueueSnapshot =
  qs_name :: string
  qs_durable :: bool
  qs_exclusive :: bool
  qs_auto_delete :: bool
  qs_message_count :: u32
  qs_consumer_count :: u32

record ExchangeSnapshot =
  es_name :: string
  es_type :: string
  es_durable :: bool
  es_auto_delete :: bool
  es_binding_count :: nat

definition snapshotQueues :: "VirtualHost \<Rightarrow> QueueSnapshot list" where
  "snapshotQueues vh = map (\<lambda>(n, q). \<lparr>qs_name = n, qs_durable = q_durable q, qs_exclusive = q_exclusive q,
     qs_auto_delete = q_auto_delete q, qs_message_count = messageCount q,
     qs_consumer_count = consumerCount q\<rparr>) (vh_queues vh)"

definition snapshotExchanges :: "VirtualHost \<Rightarrow> ExchangeSnapshot list" where
  "snapshotExchanges vh = map (\<lambda>(n, ex). \<lparr>es_name = n, es_type = ex_type ex, es_durable = ex_durable ex,
     es_auto_delete = ex_auto_delete ex, es_binding_count = length (getBindings ex)\<rparr>) (vh_exchanges vh)"

end
