(* ===== verification/Dead_Lettering.thy ===== *)
theory Dead_Lettering
  imports Virtual_Host
begin

text \<open>
  Dead-lettering terminates. Queues can dead-letter into each other in a cycle; the recursion
  through the handler ends because every call uses up a reference to a message, and each
  reference the handler adds costs one of the twenty hops of a message. \<open>potential\<close> counts
  both; fuel beyond it is enough, for every operation that can dead-letter.
\<close>

section \<open>The potential\<close>

text \<open>
  \<open>A\<close> holds the messages that queues may hold during the operation. Deliveries allocate further
  messages, but queues never hold those.
\<close>

definition queued :: "VirtualHost \<Rightarrow> nat" where
  "queued vh = sum_list (map (\<lambda>(n, q). length (q_messages q)) (vh_queues vh))"

definition hops_budget :: "addr set \<Rightarrow> Heap \<Rightarrow> nat" where
  "hops_budget A h = (\<Sum>a \<in> A. hops_left (msg_at h a))"

definition potential :: "addr set \<Rightarrow> VirtualHost \<Rightarrow> nat" where
  "potential A vh = queued vh + length (vh_queues vh) * hops_budget A (vh_heap vh)"

definition queue_inv :: "addr set \<Rightarrow> Heap \<Rightarrow> MessageQueue \<Rightarrow> bool" where
  "queue_inv A h q \<longleftrightarrow> queue_ok h q \<and> set (q_messages q) \<subseteq> A"

text \<open>
  \<open>hops_ok L A b vh\<close>: no hop counter can reach \<open>L\<close>, and so wrap, within \<open>b\<close> further increments.
\<close>

definition hops_ok :: "nat \<Rightarrow> addr set \<Rightarrow> nat \<Rightarrow> Heap \<Rightarrow> bool" where
  "hops_ok L A b h \<longleftrightarrow>
     L \<le> 2 ^ 32 \<and> (\<forall>a \<in> A. msg_ok h a \<and> unat (m_dlx_hops (msg_at h a)) + b < L)"

definition dl_inv :: "nat \<Rightarrow> addr set \<Rightarrow> nat \<Rightarrow> VirtualHost \<Rightarrow> bool" where
  "dl_inv L A b vh \<longleftrightarrow> distinct_keys (vh_queues vh) \<and>
     (\<forall>(n, q) \<in> set (vh_queues vh). queue_inv A (vh_heap vh) q) \<and>
     potential A vh \<le> b \<and> hops_ok L A b (vh_heap vh)"

lemma hops_ok_mono: "hops_ok L A b h \<Longrightarrow> c \<le> b \<Longrightarrow> hops_ok L A c h"
  by (fastforce simp: hops_ok_def)

lemma dl_inv_mono: "dl_inv L A b vh \<Longrightarrow> potential A vh \<le> c \<Longrightarrow> c \<le> b \<Longrightarrow> dl_inv L A c vh"
  by (auto simp: dl_inv_def intro: hops_ok_mono)

section \<open>Replacing one queue\<close>

lemma sum_update:
  assumes "distinct_keys m" "map_of m k = Some v"
  shows "sum_list (map (\<lambda>(n, x). f x) (AList.update k w m)) + f v =
    sum_list (map (\<lambda>(n, x). f x) m) + (f w :: nat)"
  using assms
proof (induction m)
  case (Cons e m)
  then show ?case
    by (cases e) (auto simp: dest: map_of_SomeD split: if_splits)
qed simp

lemma length_update: "map_of m k \<noteq> None \<Longrightarrow> length (AList.update k w m) = length m"
  by (induction m) auto

lemma set_update_subset: "distinct_keys m \<Longrightarrow> set (AList.update k w m) \<subseteq> insert (k, w) (set m)"
  by (induction m) auto

lemma queued_put_queue:
  assumes "distinct_keys (vh_queues vh)" "map_of (vh_queues vh) qname = Some q"
  shows "queued (put_queue qname h q' vh) + length (q_messages q) = queued vh + length (q_messages q')"
  using sum_update [OF assms, of "\<lambda>q. length (q_messages q)" q'] by (simp add: queued_def put_queue_def)

lemma dl_inv_put_queue:
  assumes inv: "dl_inv L A b vh" and q: "map_of (vh_queues vh) qname = Some q"
    and q': "queue_inv A h q'"
    and msgs: "\<And>a. a \<in> A \<Longrightarrow> msg_ok h a \<and> m_dlx_hops (msg_at h a) = m_dlx_hops (msg_at (vh_heap vh) a)"
    and ok: "\<And>x. queue_ok (vh_heap vh) x \<Longrightarrow> (\<And>a. a \<in> set (q_messages x) \<Longrightarrow> a \<in> A) \<Longrightarrow> queue_ok h x"
    and len: "length (q_messages q') + c \<le> length (q_messages q) + d" and d: "d \<le> b" "c \<le> b"
    and pot: "potential A vh + d \<le> b"
  shows "dl_inv L A (b - c) (put_queue qname h q' vh)"
proof -
  have dist: "distinct_keys (vh_queues vh)" using inv by (simp add: dl_inv_def)
  have bud: "hops_budget A h = hops_budget A (vh_heap vh)"
    unfolding hops_budget_def using msgs by (intro sum.cong) (simp_all add: hops_left_def)
  have keep: "queue_inv A h x" if "queue_inv A (vh_heap vh) x" for x
    using that ok [of x] by (auto simp: queue_inv_def)
  have "queue_inv A h x" if "(n, x) \<in> set (AList.update qname q' (vh_queues vh))" for n x
  proof (cases "(n, x) \<in> set (vh_queues vh)")
    case True
    then show ?thesis using inv by (intro keep) (auto simp: dl_inv_def)
  next
    case False
    then show ?thesis using set_update_subset [OF dist, of qname q'] that q' by blast
  qed
  then have "\<forall>(n, x) \<in> set (AList.update qname q' (vh_queues vh)). queue_inv A h x" by blast
  moreover have "potential A (put_queue qname h q' vh) \<le> b - c"
    using queued_put_queue [OF dist q, of h q'] len pot q bud
    by (simp add: potential_def put_queue_def length_update)
  moreover have "hops_ok L A (b - c) h" using inv msgs by (fastforce simp: dl_inv_def hops_ok_def)
  ultimately show ?thesis using dist by (simp add: dl_inv_def put_queue_def distinct_update)
qed

section \<open>The part of an operation under the queue's lock\<close>

definition hops_same :: "Heap \<Rightarrow> Heap \<Rightarrow> bool" where
  "hops_same h h' \<longleftrightarrow> (\<forall>b. msg_ok h b \<longrightarrow> msg_ok h' b \<and> m_dlx_hops (msg_at h' b) = m_dlx_hops (msg_at h b)) \<and>
     (\<forall>x. con_ok h x \<longrightarrow> con_ok h' x)"

text \<open>\<open>locked_part\<close>: at most \<open>c\<close> references are added, the expired ones are handed back.\<close>

definition locked_part ::
  "addr set \<Rightarrow> nat \<Rightarrow> Heap \<Rightarrow> MessageQueue \<Rightarrow> Heap \<Rightarrow> MessageQueue \<Rightarrow> dead_letters \<Rightarrow> bool" where
  "locked_part A c h q h' q' dlq \<longleftrightarrow> queue_inv A h' q' \<and> fst ` set dlq \<subseteq> A \<and>
     length (q_messages q') + length dlq \<le> length (q_messages q) + c \<and> hops_same h h'"

lemma hops_same_trans: "hops_same h h1 \<Longrightarrow> hops_same h1 h2 \<Longrightarrow> hops_same h h2"
  by (simp add: hops_same_def)

lemma hops_same_messages:
  "h_messages h' = h_messages h \<Longrightarrow> h_consumers h' = h_consumers h \<Longrightarrow> hops_same h h'"
  by (simp add: hops_same_def msg_ok_def con_ok_def msg_at_def)

lemma hops_same_put_msg:
  "m_dlx_hops m = m_dlx_hops (msg_at h a) \<Longrightarrow> hops_same h (put_msg a m h)"
  by (cases "msg_ok h a") (auto simp: hops_same_def heap_simps, simp add: msg_ok_def put_msg_def msg_at_def)

lemma queue_ok_hops_same: "hops_same h h' \<Longrightarrow> queue_ok h x \<Longrightarrow> queue_ok h' x"
  by (simp add: hops_same_def queue_ok_def)

lemma dispatch_part:
  assumes "queue_inv A h q" "dispatchLocked h q = (h', q')"
  shows "locked_part A 0 h q h' q' []"
proof -
  have ok: "queue_ok h q" using assms(1) by (simp add: queue_inv_def)
  have "msgs_kept h h'" "credit_only h h'"
    using dispatch.run_msgs [OF ok] dispatch.run_credit [OF ok] assms(2) by simp_all
  then have "hops_same h h'" by (simp add: hops_same_def msgs_kept_def credit_only_def)
  moreover have "set (q_messages q') \<subseteq> set (q_messages q)" "length (q_messages q') \<le> length (q_messages q)"
    "queue_ok h' q'"
    using dispatch.run_suffix [OF ok] dispatch.run_length [OF ok] dispatch.run_keeps_ok [OF ok] assms(2)
    by simp_all
  ultimately show ?thesis using assms(1) by (auto simp: locked_part_def queue_inv_def)
qed

lemma enqueue_part:
  assumes "queue_inv A h q" "msg_ok h a" "a \<in> A" "enqueueLocked a h q = (h', q', dlq)"
  shows "locked_part A 1 h q h' q' dlq"
proof -
  have ok: "queue_ok h q" using assms(1) by (simp add: queue_inv_def)
  obtain h1 E where e: "enqueueLocked a h q =
       (case dispatchLocked h1 (q\<lparr>q_messages := dropWhile E (arranged h q a)\<rparr>) of
          (h2, q2) \<Rightarrow> (h2, q2, map (\<lambda>a. (a, ''expired'')) (takeWhile E (arranged h q a))))"
    and h1: "h_messages h1 = h_messages (stamped a h)" "h_consumers h1 = h_consumers h"
      "queue_ok h1 (q\<lparr>q_messages := dropWhile E (arranged h q a)\<rparr>)"
    by (rule enqueueLocked_cases [OF ok assms(2)])
  let ?q = "q\<lparr>q_messages := dropWhile E (arranged h q a)\<rparr>"
  have lt: "b \<in> A" if "b \<in> set (arranged h q a)" for b
    using that assms(1,3) by (auto simp: queue_inv_def)
  have inv: "queue_inv A h1 ?q" using h1(3) lt by (auto simp: queue_inv_def dest: set_dropWhileD)
  have d: "dispatchLocked h1 ?q = (h', q')" and dlq: "dlq = map (\<lambda>a. (a, ''expired'')) (takeWhile E (arranged h q a))"
    using assms(4) e by (auto split: prod.splits)
  note p = dispatch_part [OF inv d]
  have "hops_same h h1"
    using hops_same_trans [OF hops_same_messages hops_same_put_msg, of "snd (now h)" h]
      hops_same_messages [of h1 "stamped a h"] h1(1,2)
    by (simp add: stamped_def now_def msg_at_def put_msg_def hops_same_def msg_ok_def con_ok_def)
  then have "hops_same h h'" using p hops_same_trans by (auto simp: locked_part_def)
  moreover have "length (takeWhile E (arranged h q a)) + length (dropWhile E (arranged h q a)) =
      length (q_messages q) + 1"
    by (metis length_append takeWhile_dropWhile_id arranged_def length_append_singleton length_sort
        prioritySort_def Suc_eq_plus1)
  moreover have "b \<in> A" if "b \<in> set (takeWhile E (arranged h q a))" for b
    using lt [of b] set_takeWhileD [OF that] by blast
  ultimately show ?thesis using p dlq by (auto simp: locked_part_def)
qed

lemma collect_part:
  assumes "queue_inv A h q" "collectExpired h q = (h', q', dlq)"
  shows "locked_part A 0 h q h' q' dlq"
proof -
  obtain h1 where c: "collectExpired h q =
     (h1, q\<lparr>q_messages := dropWhile (expired h q (h_clock h 0)) (q_messages q)\<rparr>,
      map (\<lambda>a. (a, ''expired'')) (takeWhile (expired h q (h_clock h 0)) (q_messages q)))"
    and h1: "h_messages h1 = h_messages h" "h_consumers h1 = h_consumers h"
    by (rule collectExpired_spec)
  let ?E = "expired h q (h_clock h 0)"
  have len: "length (takeWhile ?E (q_messages q)) + length (dropWhile ?E (q_messages q)) = length (q_messages q)"
    by (metis length_append takeWhile_dropWhile_id)
  have "queue_inv A h1 (q\<lparr>q_messages := dropWhile ?E (q_messages q)\<rparr>)"
    using assms(1) queue_ok_collect [of h q h1 "dropWhile ?E (q_messages q)"] h1
    by (auto simp: queue_inv_def dest: set_dropWhileD)
  then show ?thesis using c assms hops_same_messages [OF h1] len
    by (auto simp: locked_part_def queue_inv_def dest: set_takeWhileD)
qed

lemma locked_part_then:
  "locked_part A c h q h1 q1 dlq \<Longrightarrow> locked_part A 0 h1 q1 h2 q2 [] \<Longrightarrow> locked_part A c h q h2 q2 dlq"
  by (auto simp: locked_part_def intro: hops_same_trans)

lemma flush_part:
  assumes "queue_inv A h q" "flushLocked h q = (h', q', dlq)"
  shows "locked_part A 0 h q h' q' dlq"
proof -
  obtain h1 q1 dlq1 where c: "collectExpired h q = (h1, q1, dlq1)" by (cases "collectExpired h q")
  note p = collect_part [OF assms(1) c]
  then have "queue_inv A h1 q1" by (simp add: locked_part_def)
  then show ?thesis using locked_part_then [OF p dispatch_part] assms(2) c
    by (auto simp: flushLocked_def split: prod.splits)
qed

lemma get_part:
  assumes "queue_inv A h q" "getLocked h q = (r, h', q', dlq)"
  shows "locked_part A 0 h q h' q' dlq"
proof -
  obtain h1 q1 dlq1 where c: "collectExpired h q = (h1, q1, dlq1)" by (cases "collectExpired h q")
  show ?thesis using collect_part [OF assms(1) c] assms(2) c
    by (auto simp: getLocked_def locked_part_def queue_inv_def queue_ok_def split: list.splits)
qed

lemma requeue_part:
  assumes "queue_inv A h q" "msg_ok h a" "a \<in> A" "requeueLocked a h q = (h', q')"
  shows "locked_part A 1 h q h' q' []"
proof -
  let ?h = "put_msg a ((msg_at h a)\<lparr>m_redelivered := True\<rparr>) h"
  have "queue_inv A ?h (q\<lparr>q_messages := a # q_messages q\<rparr>)"
    using assms queue_ok_requeue [of h q a] by (simp add: queue_inv_def)
  moreover have "hops_same h ?h" by (rule hops_same_put_msg) simp
  ultimately show ?thesis using dispatch_part [of A ?h] assms(4)
    by (fastforce simp: requeueLocked_def locked_part_def intro: hops_same_trans)
qed

section \<open>One dead letter\<close>

lemma unat_inc_u32: "unat x + 1 < 2 ^ 32 \<Longrightarrow> unat (x + 1 :: u32) = unat x + 1"
  by (simp add: unat_word_ariths)

lemma deadLetter_hops:
  assumes "deadLetter q a reason h = (h', r)"
  shows "h' = h \<and> r = None \<or>
    (\<exists>m. h' = put_msg a m h \<and> m_dlx_hops m = m_dlx_hops (msg_at h a) + 1 \<and>
      (case r of None \<Rightarrow> m_dlx_hops m > 20 | Some (ex, rk, b) \<Rightarrow> b = a \<and> m_dlx_hops m \<le> 20))"
  using assms by (auto simp: deadLetter_def MAX_DLX_HOPS_def Let_def not_less split: if_splits)

lemma finite_addrs: "\<forall>a \<in> A. msg_ok h a \<Longrightarrow> finite A"
  by (rule finite_subset [of _ "{..<length (h_messages h)}"]) (auto simp: msg_ok_def)

lemma hops_budget_put_msg:
  assumes "a \<in> A" "\<forall>a \<in> A. msg_ok h a"
  shows "hops_budget A (put_msg a m h) + hops_left (msg_at h a) = hops_budget A h + hops_left m"
proof -
  note fin = finite_addrs [OF assms(2)]
  have "hops_budget A (put_msg a m h) = hops_left m + (\<Sum>b \<in> A - {a}. hops_left (msg_at h b))"
    unfolding hops_budget_def using assms fin
    by (subst sum.remove [of _ a]) (simp_all add: heap_simps)
  moreover have "hops_budget A h = hops_left (msg_at h a) + (\<Sum>b \<in> A - {a}. hops_left (msg_at h b))"
    unfolding hops_budget_def using assms fin by (subst sum.remove [of _ a]) simp_all
  ultimately show ?thesis by simp
qed

lemma hops_ok_put_msg:
  assumes "hops_ok L A b h" "a \<in> A" "m_dlx_hops m = m_dlx_hops (msg_at h a) + 1" "c < b"
  shows "hops_ok L A c (put_msg a m h)"
proof -
  have "msg_ok h a" using assms by (simp add: hops_ok_def msg_ok_def)
  moreover have "unat (m_dlx_hops m) = unat (m_dlx_hops (msg_at h a)) + 1"
    unfolding assms(3) using assms by (intro unat_inc_u32) (fastforce simp: hops_ok_def)
  ultimately show ?thesis using assms
    by (fastforce simp: hops_ok_def heap_simps put_msg_def [of a m h, THEN arg_cong [of _ _ h_messages]])
qed

lemma dl_inv_put_msg:
  assumes inv: "dl_inv L A b vh" and pot: "potential A vh < b" and a: "a \<in> A"
    and m: "m_dlx_hops m = m_dlx_hops (msg_at (vh_heap vh) a) + 1"
  shows "dl_inv L A (b - 1) (vh\<lparr>vh_heap := put_msg a m (vh_heap vh)\<rparr>)"
    and "m_dlx_hops m \<le> 20 \<Longrightarrow>
      potential A (vh\<lparr>vh_heap := put_msg a m (vh_heap vh)\<rparr>) + length (vh_queues vh) = potential A vh"
proof -
  let ?h = "vh_heap vh" and ?vh = "vh\<lparr>vh_heap := put_msg a m (vh_heap vh)\<rparr>"
  have ho: "hops_ok L A b ?h" using inv by (simp add: dl_inv_def)
  have ok: "\<forall>a \<in> A. msg_ok ?h a" using ho by (simp add: hops_ok_def)
  have h: "unat (m_dlx_hops m) = unat (m_dlx_hops (msg_at ?h a)) + 1"
    unfolding m using ho a pot by (intro unat_inc_u32) (fastforce simp: hops_ok_def)
  note bud = hops_budget_put_msg [OF a ok, of m]
  have le: "hops_budget A (put_msg a m ?h) \<le> hops_budget A ?h" using bud h by (simp add: hops_left_def)
  have "hops_ok L A (b - 1) (put_msg a m ?h)" by (rule hops_ok_put_msg [OF ho a m]) (use pot in simp)
  moreover have "potential A ?vh \<le> b - 1"
  proof -
    have "potential A ?vh \<le> potential A vh" using le by (simp add: potential_def queued_def)
    then show ?thesis using pot by linarith
  qed
  moreover have "queue_inv A (put_msg a m ?h) q = queue_inv A ?h q" for q
    by (simp add: queue_inv_def queue_ok_def heap_simps)
  ultimately show "dl_inv L A (b - 1) ?vh" using inv by (simp add: dl_inv_def)
  assume "m_dlx_hops m \<le> 20"
  then have "unat (m_dlx_hops m) \<le> 20" by (simp add: word_le_nat_alt)
  then have "hops_budget A (put_msg a m ?h) + 1 = hops_budget A ?h" using bud h by (simp add: hops_left_def)
  then have "length (vh_queues vh) * (hops_budget A (put_msg a m ?h) + 1) =
      length (vh_queues vh) * hops_budget A ?h" by simp
  then show "potential A ?vh + length (vh_queues vh) = potential A vh"
    by (simp add: potential_def queued_def)
qed

section \<open>The handler returns\<close>

text \<open>
  \<open>pending L A ks k vh\<close>: the invariant with \<open>k\<close> references in hand that are not in a queue,
  for a host whose queues are \<open>ks\<close>.
\<close>

definition pending :: "nat \<Rightarrow> addr set \<Rightarrow> string list \<Rightarrow> nat \<Rightarrow> VirtualHost \<Rightarrow> bool" where
  "pending L A ks k vh \<longleftrightarrow> map fst (vh_queues vh) = ks \<and> dl_inv L A (potential A vh + k) vh"

lemma pending_length: "pending L A ks k vh \<Longrightarrow> length (vh_queues vh) = length ks"
  by (auto simp: pending_def)

lemma pending_distinct: "pending L A ks k vh \<Longrightarrow> distinct ks"
  by (auto simp: pending_def dl_inv_def)

lemma pending_less: "pending L A ks k vh \<Longrightarrow> j \<le> k \<Longrightarrow> pending L A ks j vh"
  by (auto simp: pending_def intro: dl_inv_mono)

lemma keys_update: "map_of m k \<noteq> None \<Longrightarrow> map fst (AList.update k w m) = map fst m"
  by (induction m) auto

text \<open>The locked part of an operation, as seen from the host.\<close>

lemma pending_locked_part:
  assumes pen: "pending L A ks (k + c) vh" and q: "map_of (vh_queues vh) qname = Some q"
    and part: "locked_part A c (vh_heap vh) q h q' dlq"
  shows "pending L A ks (k + length dlq) (put_queue qname h q' vh) \<and>
    potential A (put_queue qname h q' vh) + length dlq \<le> potential A vh + c"
proof -
  let ?vh = "put_queue qname h q' vh"
  have inv: "dl_inv L A (potential A vh + (k + c)) vh" using pen by (simp add: pending_def)
  have same: "hops_same (vh_heap vh) h" using part by (simp add: locked_part_def)
  have A: "msg_ok (vh_heap vh) a" if "a \<in> A" for a using inv that by (simp add: dl_inv_def hops_ok_def)
  have msgs: "msg_ok h a \<and> m_dlx_hops (msg_at h a) = m_dlx_hops (msg_at (vh_heap vh) a)" if "a \<in> A" for a
    using that A same by (simp add: hops_same_def msg_ok_def)
  have len: "length (q_messages q') + length dlq \<le> length (q_messages q) + c" "queue_inv A h q'"
    using part by (simp_all add: locked_part_def)
  have bud: "hops_budget A h = hops_budget A (vh_heap vh)"
    unfolding hops_budget_def using msgs by (intro sum.cong) (simp_all add: hops_left_def)
  have dist: "distinct_keys (vh_queues vh)" using inv by (simp add: dl_inv_def)
  have pot: "potential A ?vh + length dlq \<le> potential A vh + c"
    using queued_put_queue [OF dist q, of h q'] len(1) bud q
    by (simp add: potential_def put_queue_def length_update)
  have "dl_inv L A (potential A vh + (k + c) - 0) ?vh"
    by (rule dl_inv_put_queue [OF inv q len(2) msgs, where d = c])
      (use len(1) in \<open>auto intro: queue_ok_hops_same [OF same]\<close>)
  then have "dl_inv L A (potential A ?vh + (k + length dlq)) ?vh"
    by (rule dl_inv_mono) (use pot in simp_all)
  then show ?thesis using pot pen q by (simp add: pending_def put_queue_def keys_update)
qed

text \<open>
  What the operations of the virtual host need of the handler: when the references in hand and
  the potential are below \<open>T\<close>, it returns, and it has kept the account.
\<close>

locale dead_letter_handler =
  fixes L :: nat and A :: "addr set" and ks :: "string list" and T :: nat and fn :: handler
  assumes fn_returns: "a \<in> A \<Longrightarrow> pending L A ks (k + length ks) vh \<Longrightarrow>
      potential A vh + k + length ks < T \<Longrightarrow>
      \<exists>vh'. fn exchange rk a vh = Some vh' \<and> pending L A ks k vh' \<and>
        potential A vh' \<le> potential A vh + length ks"
begin

lemma deadLetterVia_returns:
  assumes a: "a \<in> A" and pen: "pending L A ks (k + 1) vh" and T: "potential A vh + k < T"
  shows "\<exists>vh'. deadLetterVia fn qname a reason vh = Some vh' \<and> pending L A ks k vh' \<and>
    potential A vh' \<le> potential A vh + 1"
proof (cases "map_of (vh_queues vh) qname")
  case None
  then show ?thesis using pending_less [OF pen, of k] by (simp add: deadLetterVia_def)
next
  case (Some q)
  obtain h r where d: "deadLetter q a reason (vh_heap vh) = (h, r)" by (cases "deadLetter q a reason (vh_heap vh)")
  have inv: "dl_inv L A (potential A vh + (k + 1)) vh" and ks: "map fst (vh_queues vh) = ks"
    using pen by (simp_all add: pending_def)
  from deadLetter_hops [OF d] consider (off) "h = vh_heap vh" "r = None"
    | (hop) m where "h = put_msg a m (vh_heap vh)" "m_dlx_hops m = m_dlx_hops (msg_at (vh_heap vh) a) + 1"
      "case r of None \<Rightarrow> m_dlx_hops m > 20 | Some (ex, rk, b) \<Rightarrow> b = a \<and> m_dlx_hops m \<le> 20"
    by blast
  then show ?thesis
  proof cases
    case off
    then show ?thesis using Some d pending_less [OF pen, of k] by (simp add: deadLetterVia_def)
  next
    case (hop m)
    let ?vh = "vh\<lparr>vh_heap := h\<rparr>"
    have inv1: "dl_inv L A (potential A vh + k) ?vh"
      using dl_inv_put_msg(1) [OF inv _ a hop(2)] hop(1) by simp
    have le: "potential A ?vh \<le> potential A vh + k" using inv1 by (simp add: dl_inv_def)
    show ?thesis
    proof (cases r)
      case None
      have "potential A ?vh \<le> potential A vh"
      proof -
        have "dl_inv L A (potential A vh + 1) vh" by (rule dl_inv_mono [OF inv]) simp_all
        from dl_inv_put_msg(1) [OF this _ a hop(2)] show ?thesis using hop(1) by (simp add: dl_inv_def)
      qed
      moreover from this have "dl_inv L A (potential A ?vh + k) ?vh" by (intro dl_inv_mono [OF inv1]) simp_all
      ultimately show ?thesis using Some d None ks by (simp add: deadLetterVia_def pending_def)
    next
      case (Some r')
      obtain ex rk b where r': "r' = (ex, rk, b)" by (cases r')
      have b: "b = a" "m_dlx_hops m \<le> 20" using hop(3) Some r' by simp_all
      have pot: "potential A ?vh + length ks = potential A vh"
        using dl_inv_put_msg(2) [OF inv _ a hop(2) b(2)] hop(1) ks by auto
      then have "pending L A ks (k + length ks) ?vh" using inv1 ks by (simp add: pending_def add_ac)
      from fn_returns [OF a this, of ex rk] T pot
      show ?thesis using \<open>map_of (vh_queues vh) qname = Some q\<close> d Some r' b
        by (auto simp: deadLetterVia_def)
    qed
  qed
qed

lemma deliverDeadLetters_returns:
  assumes "fst ` set dlq \<subseteq> A" "pending L A ks (k + length dlq) vh"
    "potential A vh + k + length dlq \<le> T"
  shows "\<exists>vh'. deliverDeadLetters fn qname dlq vh = Some vh' \<and> pending L A ks k vh' \<and>
    potential A vh' \<le> potential A vh + length dlq"
  using assms
proof (induction dlq arbitrary: vh)
  case (Cons d dlq)
  obtain a reason where d: "d = (a, reason)" by (cases d)
  have "\<exists>vh1. deadLetterVia fn qname a reason vh = Some vh1 \<and> pending L A ks (k + length dlq) vh1 \<and>
      potential A vh1 \<le> potential A vh + 1"
    by (rule deadLetterVia_returns) (use Cons.prems d in \<open>simp_all add: add_ac\<close>)
  then obtain vh1 where vh1: "deadLetterVia fn qname a reason vh = Some vh1"
      "pending L A ks (k + length dlq) vh1" "potential A vh1 \<le> potential A vh + 1" by blast
  with Cons.IH [of vh1] Cons.prems show ?case by (fastforce simp: d)
qed simp

lemma locked_part_returns:
  assumes "pending L A ks (k + c) vh" "map_of (vh_queues vh) qname = Some q"
    "locked_part A c (vh_heap vh) q h q' dlq" "potential A vh + k + c \<le> T"
  shows "\<exists>vh'. deliverDeadLetters fn qname dlq (put_queue qname h q' vh) = Some vh' \<and>
    pending L A ks k vh' \<and> potential A vh' \<le> potential A vh + c"
proof -
  note p = pending_locked_part [OF assms(1-3)]
  have "\<exists>vh'. deliverDeadLetters fn qname dlq (put_queue qname h q' vh) = Some vh' \<and>
    pending L A ks k vh' \<and> potential A vh' \<le> potential A (put_queue qname h q' vh) + length dlq"
    by (rule deliverDeadLetters_returns) (use p assms(3,4) in \<open>auto simp: locked_part_def\<close>)
  then show ?thesis using p by fastforce
qed

end

section \<open>Delivery\<close>

lemma firstOnly_props: "distinct (firstOnly seen qs) \<and> set (firstOnly seen qs) = set qs - set seen"
  by (induction seen qs rule: firstOnly.induct) auto

lemma routeMessage_distinct: "distinct (routeMessage ex rk hs vh)"
  by (simp add: routeMessage_def firstOnly_props split: option.split)

context dead_letter_handler
begin

lemma deliverToQueue_returns:
  assumes a: "a \<in> A" and pen: "pending L A ks (k + 1) vh" and T: "potential A vh + k + 1 \<le> T"
  shows "\<exists>vh'. deliverToQueue fn qname a vh = Some vh' \<and> pending L A ks k vh' \<and>
    potential A vh' \<le> potential A vh + 1"
proof (cases "map_of (vh_queues vh) qname")
  case None
  then show ?thesis using pending_less [OF pen, of k] by (simp add: deliverToQueue_def)
next
  case (Some q)
  obtain h q' dlq where e: "enqueueLocked a (vh_heap vh) q = (h, q', dlq)" by (cases "enqueueLocked a (vh_heap vh) q")
  have "queue_inv A (vh_heap vh) q" "msg_ok (vh_heap vh) a"
    using pen a map_of_SomeD [OF Some] by (auto simp: pending_def dl_inv_def hops_ok_def msg_ok_def)
  from locked_part_returns [OF pen Some enqueue_part [OF this a e] T]
  show ?thesis using Some e by (simp add: deliverToQueue_def)
qed

lemma deliverToAll_returns:
  assumes "a \<in> A" "distinct qnames" "pending L A ks (k + card (set qnames \<inter> set ks)) vh"
    "potential A vh + k + card (set qnames \<inter> set ks) \<le> T"
  shows "\<exists>vh'. deliverToAll fn qnames a vh = Some vh' \<and> pending L A ks k vh' \<and>
    potential A vh' \<le> potential A vh + card (set qnames \<inter> set ks)"
  using assms(2-)
proof (induction qnames arbitrary: vh)
  case (Cons qname qnames)
  let ?c = "card (set qnames \<inter> set ks)"
  show ?case
  proof (cases "qname \<in> set ks")
    case True
    then have c: "card (set (qname # qnames) \<inter> set ks) = ?c + 1" using Cons.prems(1) by simp
    obtain vh1 where vh1: "deliverToQueue fn qname a vh = Some vh1" "pending L A ks (k + ?c) vh1"
        "potential A vh1 \<le> potential A vh + 1"
      using deliverToQueue_returns [OF assms(1), of "k + ?c" vh qname] Cons.prems c by (auto simp: add_ac)
    with Cons.IH [of vh1] Cons.prems c show ?thesis by fastforce
  next
    case False
    then have "map_of (vh_queues vh) qname = None"
      using Cons.prems(2) by (metis pending_def map_of_eq_None_iff set_map)
    then show ?thesis using Cons.IH [of vh] Cons.prems False by (simp add: deliverToQueue_def)
  qed
qed simp

end

lemma handler_returns: "dead_letter_handler L A ks T (deadLetterHandler T)"
proof (induction T)
  case 0
  show ?case by unfold_locales simp
next
  case (Suc T)
  show ?case
  proof
    fix a k vh exchange rk
    assume a: "a \<in> A" and pen: "pending L A ks (k + length ks) vh"
      and T: "potential A vh + k + length ks < Suc T"
    let ?qs = "routeMessage exchange rk (headers (m_properties (msg_at (vh_heap vh) a))) vh"
    let ?c = "card (set ?qs \<inter> set ks)"
    have c: "?c \<le> length ks"
      using card_mono [of "set ks" "set ?qs \<inter> set ks"] card_length [of ks] by fastforce
    have "\<exists>vh'. deliverToAll (deadLetterHandler T) ?qs a vh = Some vh' \<and> pending L A ks k vh' \<and>
        potential A vh' \<le> potential A vh + ?c"
      by (rule dead_letter_handler.deliverToAll_returns [OF Suc.IH a routeMessage_distinct])
        (use pen T c in \<open>auto intro: pending_less\<close>)
    then show "\<exists>vh'. deadLetterHandler (Suc T) exchange rk a vh = Some vh' \<and> pending L A ks k vh' \<and>
        potential A vh' \<le> potential A vh + length ks"
      using c by fastforce
  qed
qed

interpretation dlx: dead_letter_handler L A ks T "deadLetterHandler T"
  by (rule handler_returns)

section \<open>The operations of the host return\<close>

definition host_ok :: "VirtualHost \<Rightarrow> bool" where
  "host_ok vh \<longleftrightarrow> distinct_keys (vh_queues vh) \<and> (\<forall>q \<in> snd ` set (vh_queues vh). queue_ok (vh_heap vh) q)"

definition hops_bounded :: "VirtualHost \<Rightarrow> bool" where
  "hops_bounded vh \<longleftrightarrow> list_all (\<lambda>m. unat (m_dlx_hops m) + dlx_fuel vh < 2 ^ 32) (h_messages (vh_heap vh))"

text \<open>The messages of a heap, and those of them that are accounted for.\<close>

abbreviation all_msgs :: "VirtualHost \<Rightarrow> addr set" where
  "all_msgs vh \<equiv> {..<length (h_messages (vh_heap vh))}"

lemma potential_fuel:
  assumes "A \<subseteq> all_msgs vh"
  shows "potential A vh + length (vh_queues vh) + 2 \<le> dlx_fuel vh"
proof -
  have "hops_budget A (vh_heap vh) \<le> hops_budget (all_msgs vh) (vh_heap vh)"
    unfolding hops_budget_def using assms by (intro sum_mono2) auto
  then have "potential A vh \<le> potential (all_msgs vh) vh" by (simp add: potential_def)
  moreover have "dlx_fuel vh = potential (all_msgs vh) vh + length (vh_queues vh) + 2"
    by (simp add: dlx_fuel_def potential_def queued_def hops_budget_def msg_at_def sum_list_sum_nth
        atLeast0LessThan)
  ultimately show ?thesis by simp
qed

lemma pending_all_msgs: "pending L A ks k vh \<Longrightarrow> A \<subseteq> all_msgs vh"
  by (auto simp: pending_def dl_inv_def hops_ok_def msg_ok_def)

lemma pending_start:
  assumes "host_ok vh" "hops_bounded vh"
  shows "pending (2 ^ 32) (all_msgs vh) (map fst (vh_queues vh)) 1 vh"
  using assms potential_fuel [of "all_msgs vh" vh]
  by (fastforce simp: pending_def dl_inv_def host_ok_def queue_inv_def queue_ok_def msg_ok_def hops_ok_def
      hops_bounded_def list_all_length msg_at_def)

lemma pending_host_ok: "pending L A ks k vh \<Longrightarrow> host_ok vh"
  by (auto simp: pending_def dl_inv_def host_ok_def queue_inv_def)

lemma reject_returns:
  assumes "a \<in> A" "pending L A ks 1 vh" "potential A vh + 1 \<le> T"
  shows "\<exists>vh'. rejectMessage (deadLetterHandler T) qname requeue a vh = Some vh' \<and> pending L A ks 0 vh'"
proof (cases "map_of (vh_queues vh) qname")
  case None
  then show ?thesis using pending_less [OF assms(2), of 0] by (simp add: rejectMessage_def)
next
  case (Some q)
  have q: "queue_inv A (vh_heap vh) q" "msg_ok (vh_heap vh) a"
    using assms map_of_SomeD [OF Some] by (auto simp: pending_def dl_inv_def hops_ok_def msg_ok_def)
  obtain h q' where r: "requeueLocked a (vh_heap vh) q = (h, q')" by (cases "requeueLocked a (vh_heap vh) q")
  have "pending L A ks 0 (put_queue qname h q' vh)"
    using pending_locked_part [OF _ Some requeue_part [OF q assms(1) r], of L ks 0] assms(2) by simp
  then show ?thesis using dlx.deadLetterVia_returns [OF assms(1), of L ks 0 vh T qname "''rejected''"] assms Some r
    by (cases requeue) (auto simp: rejectMessage_def)
qed

lemma get_returns:
  assumes "pending L A ks 0 vh" "potential A vh \<le> T"
  shows "\<exists>r vh'. getMessage (deadLetterHandler T) qname vh = Some (r, vh') \<and> pending L A ks 0 vh' \<and>
    potential A vh' \<le> potential A vh"
proof (cases "map_of (vh_queues vh) qname")
  case None
  then show ?thesis using assms by (simp add: getMessage_def)
next
  case (Some q)
  have q: "queue_inv A (vh_heap vh) q"
    using assms map_of_SomeD [OF Some] by (auto simp: pending_def dl_inv_def)
  obtain r h q' dlq where g: "getLocked (vh_heap vh) q = (r, h, q', dlq)" by (cases "getLocked (vh_heap vh) q")
  show ?thesis using dlx.locked_part_returns [OF _ Some get_part [OF q g], of L ks 0 T] assms Some g
    by (auto simp: getMessage_def)
qed

lemma flushQueue_returns:
  assumes "pending L A ks 0 vh" "potential A vh \<le> T"
  shows "\<exists>vh'. flushQueue (deadLetterHandler T) qname vh = Some vh' \<and> pending L A ks 0 vh' \<and>
    potential A vh' \<le> potential A vh"
proof (cases "map_of (vh_queues vh) qname")
  case None
  then show ?thesis using assms by (simp add: flushQueue_def)
next
  case (Some q)
  have q: "queue_inv A (vh_heap vh) q"
    using assms map_of_SomeD [OF Some] by (auto simp: pending_def dl_inv_def)
  obtain h q' dlq where g: "flushLocked (vh_heap vh) q = (h, q', dlq)" by (cases "flushLocked (vh_heap vh) q")
  show ?thesis using dlx.locked_part_returns [OF _ Some flush_part [OF q g], of L ks 0 T] assms Some g
    by (auto simp: flushQueue_def)
qed

lemma flushAll_returns:
  "pending L A ks 0 vh \<Longrightarrow> potential A vh \<le> T \<Longrightarrow>
   \<exists>vh'. flushAll (deadLetterHandler T) qs vh = Some vh' \<and> pending L A ks 0 vh'"
proof (induction qs arbitrary: vh)
  case (Cons qname qs)
  obtain vh1 where "flushQueue (deadLetterHandler T) qname vh = Some vh1" "pending L A ks 0 vh1"
      "potential A vh1 \<le> potential A vh"
    using flushQueue_returns [OF Cons.prems] by blast
  then show ?case using Cons.IH [of vh1] Cons.prems by simp
qed simp

section \<open>Properties\<close>

text \<open>
  (C12) Every operation that can dead-letter returns, whatever dead-letter exchanges the queues
  name, also when they form a cycle or name their own queue: delivering a message, rejecting it,
  fetching one and the periodic tick all finish, with the same queues and every pointer
  in them valid. The hypothesis keeps the 32-bit hop counters from wrapping, which takes more
  than four thousand million dead letters.
\<close>

theorem dead_lettering_terminates:
  assumes "host_ok vh" "hops_bounded vh" "msg_ok (vh_heap vh) a"
  shows "(\<exists>vh'. deliverToQueue (onDeadLetter vh) qname a vh = Some vh' \<and> host_ok vh' \<and>
            map fst (vh_queues vh') = map fst (vh_queues vh)) \<and>
    (\<exists>vh'. rejectMessage (onDeadLetter vh) qname requeue a vh = Some vh' \<and> host_ok vh' \<and>
            map fst (vh_queues vh') = map fst (vh_queues vh)) \<and>
    (\<exists>r vh'. getMessage (onDeadLetter vh) qname vh = Some (r, vh') \<and> host_ok vh' \<and>
            map fst (vh_queues vh') = map fst (vh_queues vh)) \<and>
    (\<exists>vh'. tick vh = Some vh' \<and> host_ok vh' \<and> map fst (vh_queues vh') = map fst (vh_queues vh))"
proof -
  let ?A = "all_msgs vh" and ?ks = "map fst (vh_queues vh)" and ?T = "dlx_fuel vh"
  have pen: "pending (2 ^ 32) ?A ?ks 1 vh" "pending (2 ^ 32) ?A ?ks 0 vh"
    using pending_start [OF assms(1,2)] pending_less by fastforce+
  have a: "a \<in> ?A" using assms(3) by (simp add: msg_ok_def)
  have T: "potential ?A vh + 1 \<le> ?T" "potential ?A vh \<le> ?T" using potential_fuel [of ?A vh] by simp_all
  have res: "host_ok vh' \<and> map fst (vh_queues vh') = ?ks" if "pending (2 ^ 32) ?A ?ks 0 vh'" for vh'
    using pending_host_ok [OF that] that by (simp add: pending_def)
  show ?thesis
    unfolding onDeadLetter_def tick_def
    using dlx.deliverToQueue_returns [OF a, of "2 ^ 32" ?ks 0 vh ?T qname] reject_returns [OF a pen(1) T(1), of qname requeue]
      get_returns [OF pen(2) T(2), of qname] flushAll_returns [OF pen(2) T(2), of ?ks] pen T res
    by (metis add_0 add.right_neutral)
qed

text \<open>A queue that expires at once and names the exchange it is bound to: a cycle.\<close>

definition cyclic_host :: VirtualHost where
  "cyclic_host = (new_VirtualHost ''/'' None (sample_heap 0))
     \<lparr>vh_exchanges := [(''dlx'', (createExchange ''fanout'')\<lparr>ex_name := ''dlx'',
          ex_bindings := [\<lparr>queue_name = ''q'', b_routing_key = [], b_arguments = []\<rparr>]\<rparr>)],
      vh_queues := [(''q'', setDeadLetterHandler ((new_MessageQueue ''q'')\<lparr>q_queueTtlMs := 0,
          q_dlxExchange := ''dlx''\<rparr>))]\<rparr>"

lemma cyclic_host_ok: "host_ok cyclic_host" "hops_bounded cyclic_host" "msg_ok (vh_heap cyclic_host) 0"
  by (simp_all add: cyclic_host_def host_ok_def hops_bounded_def queue_ok_def msg_ok_def new_VirtualHost_def
      setDeadLetterHandler_def new_MessageQueue_def sample_heap_def sample_msg_def new_Message_def
      dlx_fuel_def hops_left_def)

theorem dead_lettering_terminates_witness:
  "host_ok cyclic_host \<and> hops_bounded cyclic_host \<and>
   (\<exists>vh'. deliverToQueue (onDeadLetter cyclic_host) ''q'' 0 cyclic_host = Some vh' \<and> host_ok vh')"
  using dead_lettering_terminates [OF cyclic_host_ok, of "''q''" False] cyclic_host_ok by blast

end
