(* ===== verification/Host_Invariants.thy ===== *)
theory Host_Invariants
  imports Dead_Lettering
begin

text \<open>
  Invariants of the virtual host over all its operations: names and keys agree, the predefined
  exchanges are always there with their type, and - unless a connection has been cleaned up -
  bindings refer to queues that exist.
\<close>

section \<open>Deliveries leave the structure alone\<close>

definition queue_names :: "VirtualHost \<Rightarrow> (string \<times> string) list" where
  "queue_names vh = map (\<lambda>(n, q). (n, q_name q)) (vh_queues vh)"

definition queue_durables :: "VirtualHost \<Rightarrow> (string \<times> bool) list" where
  "queue_durables vh = map (\<lambda>(n, q). (n, q_durable q)) (vh_queues vh)"

definition same_names :: "VirtualHost \<Rightarrow> VirtualHost \<Rightarrow> bool" where
  "same_names vh vh' \<longleftrightarrow> vh_exchanges vh' = vh_exchanges vh \<and> queue_names vh' = queue_names vh \<and>
     queue_durables vh' = queue_durables vh \<and>
     vh_store vh' = vh_store vh \<and> vh_counter vh' = vh_counter vh"

lemma same_names_refl [simp]: "same_names vh vh" "same_names vh (vh\<lparr>vh_heap := h\<rparr>)"
  by (simp_all add: same_names_def queue_names_def queue_durables_def)

lemma same_names_trans: "same_names vh vh1 \<Longrightarrow> same_names vh1 vh2 \<Longrightarrow> same_names vh vh2"
  by (simp add: same_names_def)

lemma same_names_heap: "same_names (vh\<lparr>vh_heap := h\<rparr>) vh' = same_names vh vh'"
  by (simp add: same_names_def queue_names_def queue_durables_def)

definition same_ident :: "MessageQueue \<Rightarrow> MessageQueue \<Rightarrow> bool" where
  "same_ident q q' \<longleftrightarrow> q_name q' = q_name q \<and> q_durable q' = q_durable q"

lemma map_update_same:
  "map_of m k = Some q \<Longrightarrow> f q' = f q \<Longrightarrow>
   map (\<lambda>(n, q). (n, f q)) (AList.update k q' m) = map (\<lambda>(n, q). (n, f q)) m"
  by (induction m) (auto split: if_splits)

lemma same_names_put_queue:
  "map_of (vh_queues vh) qname = Some q \<Longrightarrow> same_ident q q' \<Longrightarrow> same_names vh (put_queue qname h q' vh)"
  by (simp add: same_names_def put_queue_def queue_names_def queue_durables_def map_update_same same_ident_def)

lemma dispatch_name: "dispatchLocked h q = (h', q') \<Longrightarrow> same_ident q q'"
  using dispatch.run_config [of q h] by (simp add: same_ident_def same_config_simps)

lemma collect_name: "collectExpired h q = (h', q', dlq) \<Longrightarrow> same_ident q q'"
  by (auto simp: collectExpired_def Let_def same_ident_def split: if_splits prod.splits)

lemma locked_names:
  "enqueueLocked a h q = (h', q', dlq) \<Longrightarrow> same_ident q q'"
  "flushLocked h q = (h', q', dlq) \<Longrightarrow> same_ident q q'"
  "getLocked h q = (r, h', q', dlq) \<Longrightarrow> same_ident q q'"
  "requeueLocked a h q = (h', q') \<Longrightarrow> same_ident q q'"
  "removeConsumersByConnection c h q = (h', q') \<Longrightarrow> same_ident q q'"
  by (auto simp: enqueueLocked_def flushLocked_def getLocked_def requeueLocked_def Let_def
      removeConsumersByConnection_def same_ident_def split: prod.splits list.splits dest!: dispatch_name [unfolded same_ident_def] collect_name [unfolded same_ident_def])

locale naming_handler =
  fixes fn :: handler
  assumes fn_names: "fn exchange rk a vh = Some vh' \<Longrightarrow> same_names vh vh'"
begin

lemma deadLetterVia_names: "deadLetterVia fn qname a reason vh = Some vh' \<Longrightarrow> same_names vh vh'"
  by (auto simp: deadLetterVia_def same_names_heap split: option.splits prod.splits dest!: fn_names)

lemma deliverDeadLetters_names: "deliverDeadLetters fn qname dlq vh = Some vh' \<Longrightarrow> same_names vh vh'"
proof (induction dlq arbitrary: vh)
  case (Cons d dlq)
  then show ?case
    by (cases d) (auto simp: bind_eq_Some_conv dest!: deadLetterVia_names intro: same_names_trans)
qed simp

lemma put_then_names:
  assumes "map_of (vh_queues vh) qname = Some q" "same_ident q q'"
    "deliverDeadLetters fn qname dlq (put_queue qname h q' vh) = Some vh'"
  shows "same_names vh vh'"
  using same_names_trans [OF same_names_put_queue [OF assms(1,2)] deliverDeadLetters_names [OF assms(3)]] .

lemma deliverToQueue_names: "deliverToQueue fn qname a vh = Some vh' \<Longrightarrow> same_names vh vh'"
  by (auto simp: deliverToQueue_def split: option.splits prod.splits intro: put_then_names locked_names(1))

lemma deliverToAll_names: "deliverToAll fn qs a vh = Some vh' \<Longrightarrow> same_names vh vh'"
  by (induction qs arbitrary: vh)
    (auto simp: bind_eq_Some_conv intro: same_names_trans [OF deliverToQueue_names])

lemma rejectMessage_names: "rejectMessage fn qname requeue a vh = Some vh' \<Longrightarrow> same_names vh vh'"
  by (auto simp: rejectMessage_def split: option.splits prod.splits if_splits
      intro: deadLetterVia_names same_names_put_queue locked_names(4))

lemma getMessage_names: "getMessage fn qname vh = Some (r, vh') \<Longrightarrow> same_names vh vh'"
  by (auto simp: getMessage_def split: option.splits prod.splits intro: put_then_names locked_names(3))

lemma flushAll_names: "flushAll fn qs vh = Some vh' \<Longrightarrow> same_names vh vh'"
proof (induction qs arbitrary: vh)
  case (Cons qname qs)
  then show ?case
    by (auto simp: bind_eq_Some_conv flushQueue_def split: option.splits prod.splits
        intro: same_names_trans [OF put_then_names] locked_names(2))
qed simp

end

lemma handler_names: "naming_handler (deadLetterHandler n)"
proof (induction n)
  case 0
  show ?case by unfold_locales simp
next
  case (Suc n)
  show ?case by unfold_locales (auto dest: naming_handler.deliverToAll_names [OF Suc])
qed

interpretation naming: naming_handler "deadLetterHandler n"
  by (rule handler_names)

section \<open>Names and predefined exchanges\<close>

definition predefined :: "(string \<times> ExchangeKind) list" where
  "predefined = [([], DirectExchange), (''amq.direct'', DirectExchange), (''amq.fanout'', FanoutExchange),
     (''amq.topic'', TopicExchange), (''amq.headers'', HeadersExchange), (''amq.match'', HeadersExchange)]"

definition exchanges_ok :: "(string \<times> Exchange) list \<Rightarrow> bool" where
  "exchanges_ok exs \<longleftrightarrow> distinct_keys exs \<and> (\<forall>n ex. map_of exs n = Some ex \<longrightarrow> ex_name ex = n) \<and>
     (\<forall>(n, k) \<in> set predefined. \<exists>ex. map_of exs n = Some ex \<and> ex_kind ex = k)"

definition queues_ok :: "(string \<times> string) list \<Rightarrow> bool" where
  "queues_ok names \<longleftrightarrow> distinct_keys names \<and> (\<forall>(k, n) \<in> set names. n = k)"

definition names_ok :: "VirtualHost \<Rightarrow> bool" where
  "names_ok vh \<longleftrightarrow> exchanges_ok (vh_exchanges vh) \<and> queues_ok (queue_names vh)"

lemma names_ok_same: "same_names vh vh' \<Longrightarrow> names_ok vh' = names_ok vh"
  by (simp add: names_ok_def same_names_def)

lemma keys_queue_names: "map fst (queue_names vh) = map fst (vh_queues vh)"
  by (simp add: queue_names_def comp_def split_beta)

lemma exchanges_okI:
  assumes "distinct_keys exs" "\<And>n ex. map_of exs n = Some ex \<Longrightarrow> ex_name ex = n"
    "\<And>n k. (n, k) \<in> set predefined \<Longrightarrow> \<exists>ex. map_of exs n = Some ex \<and> ex_kind ex = k"
  shows "exchanges_ok exs"
  using assms unfolding exchanges_ok_def by blast

lemma exchanges_okD:
  assumes "exchanges_ok exs"
  shows "distinct_keys exs" "map_of exs n = Some ex \<Longrightarrow> ex_name ex = n"
    "(n, k) \<in> set predefined \<Longrightarrow> \<exists>ex. map_of exs n = Some ex \<and> ex_kind ex = k"
  using assms unfolding exchanges_ok_def by (simp, simp, fast)

lemma exchanges_ok_update:
  assumes ok: "exchanges_ok exs" and n: "ex_name ex = n"
    and k: "\<And>old. map_of exs n = Some old \<Longrightarrow> ex_kind ex = ex_kind old"
  shows "exchanges_ok (AList.update n ex exs)"
proof (rule exchanges_okI)
  show "distinct_keys (AList.update n ex exs)" using exchanges_okD(1) [OF ok] by (rule distinct_update)
  fix m x assume "map_of (AList.update n ex exs) m = Some x"
  then show "ex_name x = m" using exchanges_okD(2) [OF ok] n by (simp split: if_splits)
next
  fix m kd assume "(m, kd) \<in> set predefined"
  from exchanges_okD(3) [OF ok this] obtain x where "map_of exs m = Some x" "ex_kind x = kd" by blast
  then show "\<exists>x. map_of (AList.update n ex exs) m = Some x \<and> ex_kind x = kd"
    using k by (cases "m = n") simp_all
qed

lemma exchanges_ok_map:
  assumes ok: "exchanges_ok exs" and f: "\<And>ex. ex_name (f ex) = ex_name ex \<and> ex_kind (f ex) = ex_kind ex"
  shows "exchanges_ok (map (\<lambda>(n, ex). (n, f ex)) exs)"
proof (rule exchanges_okI)
  have m: "map_of (map (\<lambda>(n, ex). (n, f ex)) exs) n = map_option f (map_of exs n)" for n
    by (induction exs) auto
  show "distinct_keys (map (\<lambda>(n, ex). (n, f ex)) exs)"
    using exchanges_okD(1) [OF ok] by (simp add: comp_def split_beta)
  fix n ex assume "map_of (map (\<lambda>(n, ex). (n, f ex)) exs) n = Some ex"
  then show "ex_name ex = n" using exchanges_okD(2) [OF ok] f by (auto simp: m)
next
  have m: "map_of (map (\<lambda>(n, ex). (n, f ex)) exs) n = map_option f (map_of exs n)" for n
    by (induction exs) auto
  fix n k assume "(n, k) \<in> set predefined"
  then show "\<exists>ex. map_of (map (\<lambda>(n, ex). (n, f ex)) exs) n = Some ex \<and> ex_kind ex = k"
    using exchanges_okD(3) [OF ok] f by (fastforce simp: m)
qed

lemma binding_ops_name [simp]:
  "ex_name (addBinding q k args ex) = ex_name ex" "ex_kind (addBinding q k args ex) = ex_kind ex"
  "ex_name (removeBinding q k args ex) = ex_name ex" "ex_kind (removeBinding q k args ex) = ex_kind ex"
  by (simp_all add: addBinding_def removeBinding_def)

lemma removeBindingsOf_filter:
  "removeBindingsOf name ex = ex\<lparr>ex_bindings := filter (\<lambda>b. queue_name b \<noteq> name) (ex_bindings ex)\<rparr>"
proof -
  have "fold (\<lambda>b ex. if queue_name b = name then removeBinding name (b_routing_key b) (b_arguments b) ex else ex)
        (bs :: Binding list) ex =
      ex\<lparr>ex_bindings := filter (\<lambda>b. \<not> (queue_name b = name \<and> b_routing_key b \<in>
        b_routing_key ` {c \<in> set bs. queue_name c = name})) (ex_bindings ex)\<rparr>" for bs ex
  proof (induction bs arbitrary: ex)
    case (Cons c bs)
    then show ?case by (auto simp: removeBinding_def intro!: arg_cong [of _ _ "\<lambda>x. ex\<lparr>ex_bindings := x\<rparr>"] filter_cong)
  qed simp
  from this [of "ex_bindings ex" ex] show ?thesis
    by (auto simp: removeBindingsOf_def getBindings_def intro!: arg_cong [of _ _ "\<lambda>x. ex\<lparr>ex_bindings := x\<rparr>"] filter_cong)
qed

lemma removeBindingsOf_name [simp]:
  "ex_name (removeBindingsOf name ex) = ex_name ex" "ex_kind (removeBindingsOf name ex) = ex_kind ex"
  by (simp_all add: removeBindingsOf_filter)

lemma names_ok_fields:
  "names_ok (vh\<lparr>vh_heap := h\<rparr>) = names_ok vh" "names_ok (log_store f vh) = names_ok vh"
  "names_ok (vh\<lparr>vh_store := st\<rparr>) = names_ok vh" "names_ok (vh\<lparr>vh_counter := c\<rparr>) = names_ok vh"
  by (simp_all add: names_ok_def queue_names_def log_store_def)

lemma update_fresh: "map_of m k = None \<Longrightarrow> AList.update k v m = m @ [(k, v)]"
  by (induction m) (auto split: if_splits)

lemma names_ok_new_queue:
  assumes "names_ok vh" "q_name q = n" "map_of (vh_queues vh) n = None"
  shows "names_ok (vh\<lparr>vh_queues := AList.update n q (vh_queues vh)\<rparr>)"
  using assms update_fresh [OF assms(3), of q] keys_queue_names [of vh]
  by (auto simp: names_ok_def queues_ok_def queue_names_def map_of_eq_None_iff)

lemma names_ok_erase:
  assumes "names_ok vh"
  shows "names_ok (vh\<lparr>vh_queues := AList.delete n (vh_queues vh)\<rparr>)"
  using assms
  by (auto simp: names_ok_def queues_ok_def queue_names_def AList.delete_eq distinct_map inj_on_def
      split_beta comp_def)

section \<open>The operations as steps\<close>

text \<open>
  \<open>client_step\<close>: what the channels and timers of the broker do with a host. \<open>objects\<close> covers
  allocation of messages and consumers and the acknowledgement of credit, \<open>logs\<close> the
  messages and acknowledgements a channel logs.
\<close>

inductive client_step :: "VirtualHost \<Rightarrow> VirtualHost \<Rightarrow> bool" where
  declare_exchange: "client_step vh (snd (declareExchange n ty pas d ad i args vh))"
| delete_exchange: "client_step vh (snd (deleteExchange n unused vh))"
| declare_queue: "client_step vh (snd (declareQueue n pas d ex ad args c vh))"
| delete_queue: "client_step vh (snd (deleteQueue n unused isEmpty vh))"
| bind: "client_step vh (snd (bindQueue q x k args vh))"
| unbind: "client_step vh (snd (unbindQueue q x k args vh))"
| deliver: "deliverToQueue (onDeadLetter vh) n a vh = Some vh' \<Longrightarrow> client_step vh vh'"
| reject: "rejectMessage (onDeadLetter vh) n requeue a vh = Some vh' \<Longrightarrow> client_step vh vh'"
| get: "getMessage (onDeadLetter vh) n vh = Some (r, vh') \<Longrightarrow> client_step vh vh'"
| tick: "tick vh = Some vh' \<Longrightarrow> client_step vh vh'"
| consume: "client_step vh (addConsumerTo n ci vh)"
| cancel: "client_step vh (removeConsumerFrom n tag vh)"
| purge: "client_step vh (snd (purgeQueue n vh))"
| objects: "client_step vh (vh\<lparr>vh_heap := h\<rparr>)"
| logs: "client_step vh (log_store f vh)"

inductive host_step :: "VirtualHost \<Rightarrow> VirtualHost \<Rightarrow> bool" where
  client: "client_step vh vh' \<Longrightarrow> host_step vh vh'"
| cleanup: "host_step vh (removeConnectionQueues c vh)"
| recover: "recoverFromStore vh = Some vh' \<Longrightarrow> host_step vh vh'"

section \<open>Each operation keeps the names\<close>

lemma names_ok_put_exchange:
  assumes "names_ok vh" "ex_name ex = n" "\<And>old. map_of (vh_exchanges vh) n = Some old \<Longrightarrow> ex_kind ex = ex_kind old"
  shows "names_ok (vh\<lparr>vh_exchanges := AList.update n ex (vh_exchanges vh)\<rparr>)"
  using assms exchanges_ok_update by (simp add: names_ok_def queue_names_def)

lemma names_ok_exchange_name: "names_ok vh \<Longrightarrow> map_of (vh_exchanges vh) n = Some ex \<Longrightarrow> ex_name ex = n"
  unfolding names_ok_def by (blast dest: exchanges_okD(2))

lemma names_ok_bindDefault: "names_ok vh \<Longrightarrow> names_ok (bindDefault qname vh)"
  by (auto simp: bindDefault_def split: option.splits
      intro!: names_ok_put_exchange dest: names_ok_exchange_name)

lemma configure_name [simp]: "q_name (configure q) = q_name q"
  by (simp add: configure_def Let_def split: option.split)

lemma names_ok_declareExchange: "names_ok vh \<Longrightarrow> names_ok (snd (declareExchange n ty p d ad i args vh))"
  by (auto simp: declareExchange_def Let_def names_ok_fields split: option.splits intro!: names_ok_put_exchange)

lemma predefined_protected: "(n, k) \<in> set predefined \<Longrightarrow> starts_with n ''amq.'' \<or> n = []"
  by (auto simp: predefined_def starts_with_def)

lemma names_ok_deleteExchange:
  assumes ok: "names_ok vh"
  shows "names_ok (snd (deleteExchange n unused vh))"
proof -
  have "exchanges_ok (AList.delete n (vh_exchanges vh))" if n: "\<not> (starts_with n ''amq.'' \<or> n = [])"
  proof (rule exchanges_okI)
    have e: "exchanges_ok (vh_exchanges vh)" using ok by (simp add: names_ok_def)
    show "distinct_keys (AList.delete n (vh_exchanges vh))" using exchanges_okD(1) [OF e] by (rule distinct_delete)
    show "ex_name ex = m" if "map_of (AList.delete n (vh_exchanges vh)) m = Some ex" for m ex
      using that exchanges_okD(2) [OF e] by (simp split: if_splits)
    show "\<exists>ex. map_of (AList.delete n (vh_exchanges vh)) m = Some ex \<and> ex_kind ex = k"
      if "(m, k) \<in> set predefined" for m k
      using exchanges_okD(3) [OF e that] predefined_protected [OF that] n by auto
  qed
  then show ?thesis using ok
    by (auto simp: deleteExchange_def names_ok_fields split: option.splits) (simp_all add: names_ok_def queue_names_def)
qed

lemma names_ok_declareNamed:
  assumes ok: "names_ok vh"
  shows "names_ok (snd (declareNamedQueue n p d ex ad args c vh))"
proof (cases "map_of (vh_queues vh) n")
  case None
  define q where "q = setupDeadLetterHandler (configure ((new_MessageQueue n)\<lparr>q_durable := d,
    q_exclusive := ex, q_auto_delete := ad, q_arguments := args, q_owner_connection := (if ex then c else 0)\<rparr>))"
  have "q_name q = n"
    by (simp add: q_def setupDeadLetterHandler_def setDeadLetterHandler_def new_MessageQueue_def)
  then have "names_ok (bindDefault n (vh\<lparr>vh_queues := AList.update n q (vh_queues vh)\<rparr>))"
    using names_ok_bindDefault names_ok_new_queue ok None by blast
  then show ?thesis using None ok
    by (simp add: declareNamedQueue_def Let_def names_ok_fields flip: q_def)
qed (simp add: declareNamedQueue_def ok)

lemma names_ok_declareQueue: "names_ok vh \<Longrightarrow> names_ok (snd (declareQueue n p d ex ad args c vh))"
  by (simp add: declareQueue_def generateQueueName_def Let_def names_ok_declareNamed names_ok_fields)

lemma names_ok_unbindEverywhere: "names_ok vh \<Longrightarrow> names_ok (unbindEverywhere n vh)"
  by (simp add: names_ok_def unbindEverywhere_def queue_names_def exchanges_ok_map)

lemma names_ok_deleteQueue: "names_ok vh \<Longrightarrow> names_ok (snd (deleteQueue n unused isEmpty vh))"
  by (auto simp: deleteQueue_def Let_def names_ok_fields split: option.splits
      intro!: names_ok_erase names_ok_unbindEverywhere)

lemma names_ok_bindQueue:
  "names_ok vh \<Longrightarrow> names_ok (snd (bindQueue q x k args vh))"
  "names_ok vh \<Longrightarrow> names_ok (snd (unbindQueue q x k args vh))"
  by (auto simp: bindQueue_def unbindQueue_def names_ok_fields split: option.splits
      intro!: names_ok_put_exchange dest: names_ok_exchange_name)

lemma same_names_consumers:
  "same_names vh (addConsumerTo n ci vh)" "same_names vh (removeConsumerFrom n tag vh)"
  "same_names vh (snd (purgeQueue n vh))"
  by (auto simp: addConsumerTo_def removeConsumerFrom_def purgeQueue_def purge_def addConsumer_def
      removeConsumer_def Let_def same_ident_def split: option.splits prod.splits if_splits
      intro!: same_names_put_queue dest!: dispatch_name)

lemma client_step_names: "client_step vh vh' \<Longrightarrow> names_ok vh \<Longrightarrow> names_ok vh'"
proof (induction rule: client_step.induct)
  case (deliver vh n a vh')
  then show ?case using naming.deliverToQueue_names names_ok_same unfolding onDeadLetter_def by blast
next
  case (reject vh n requeue a vh')
  then show ?case using naming.rejectMessage_names names_ok_same unfolding onDeadLetter_def by blast
next
  case (get vh n r vh')
  then show ?case using naming.getMessage_names names_ok_same unfolding onDeadLetter_def by blast
next
  case (tick vh vh')
  then show ?case using naming.flushAll_names names_ok_same unfolding onDeadLetter_def tick_def by blast
qed (simp_all add: names_ok_fields names_ok_declareExchange names_ok_deleteExchange names_ok_declareQueue
    names_ok_deleteQueue names_ok_bindQueue names_ok_same [OF same_names_consumers(1)]
    names_ok_same [OF same_names_consumers(2)] names_ok_same [OF same_names_consumers(3)])

lemma fold_invariant: "P s \<Longrightarrow> (\<And>x s. P s \<Longrightarrow> P (f x s)) \<Longrightarrow> P (fold f xs s)"
  by (induction xs arbitrary: s) auto

lemma dropConsumers_names: "same_names vh (dropConsumers c qs vh)"
proof (induction qs arbitrary: vh)
  case (Cons qname qs)
  show ?case
  proof (cases "map_of (vh_queues vh) qname")
    case (Some q)
    obtain h q' where r: "removeConsumersByConnection c (vh_heap vh) q = (h, q')"
      by (cases "removeConsumersByConnection c (vh_heap vh) q")
    then show ?thesis
      using same_names_trans [OF same_names_put_queue [OF Some locked_names(5) [OF r]] Cons.IH] Some by simp
  qed (use Cons.IH in simp)
qed simp

lemma names_ok_erase_all: "names_ok vh \<Longrightarrow> names_ok (vh\<lparr>vh_queues := fold AList.delete ns (vh_queues vh)\<rparr>)"
proof (induction ns arbitrary: vh)
  case (Cons n ns)
  from Cons.IH [OF names_ok_erase [OF Cons.prems, of n]] show ?case by simp
qed simp

lemma names_ok_cleanup: "names_ok vh \<Longrightarrow> names_ok (removeConnectionQueues c vh)"
proof -
  assume "names_ok vh"
  then have "names_ok (dropConsumers c qs vh)" for qs using names_ok_same [OF dropConsumers_names] by blast
  then have "names_ok (fold eraseExclusive ns (dropConsumers c qs vh))" for ns qs
    by (rule fold_invariant) (simp add: eraseExclusive_def Let_def names_ok_erase names_ok_unbindEverywhere)
  then show ?thesis by (simp add: removeConnectionQueues_def Let_def names_ok_erase_all)
qed

lemma names_ok_recover_steps:
  "names_ok vh \<Longrightarrow> names_ok (recoverExchange ed vh)" "names_ok vh \<Longrightarrow> names_ok (recoverQueue qd vh)"
  "names_ok vh \<Longrightarrow> names_ok (recoverBinding sb vh)"
  by (auto simp: recoverExchange_def recoverQueue_def recoverBinding_def new_MessageQueue_def
      split: option.splits intro!: names_ok_put_exchange names_ok_bindDefault names_ok_new_queue
      dest: names_ok_exchange_name)

lemma recoverMessages_names: "recoverMessages sms vh = Some vh' \<Longrightarrow> same_names vh vh'"
proof (induction sms arbitrary: vh)
  case (Cons sm sms)
  then obtain vh1 where 1: "recoverMessage (onDeadLetter vh) sm vh = Some vh1" "recoverMessages sms vh1 = Some vh'"
    by (auto simp: bind_eq_Some_conv)
  then have "same_names vh vh1"
    using naming.deliverToQueue_names
    by (fastforce simp: recoverMessage_def onDeadLetter_def Let_def same_names_heap split: if_splits prod.splits)
  then show ?case using Cons.IH [OF 1(2)] by (rule same_names_trans)
qed simp

lemma names_ok_recover: "recoverFromStore vh = Some vh' \<Longrightarrow> names_ok vh \<Longrightarrow> names_ok vh'"
proof -
  assume r: "recoverFromStore vh = Some vh'" and ok: "names_ok vh"
  show "names_ok vh'"
  proof (cases "vh_store vh")
    case None
    then show ?thesis using r ok by (simp add: recoverFromStore_def)
  next
    case (Some st)
    obtain d st' where d: "Message_Store.recover st = (d, st')" by (cases "Message_Store.recover st")
    let ?vh = "fold recoverBinding (rd_bindings d) (fold recoverQueue (rd_queues d)
      (fold recoverExchange (rd_exchanges d) (vh\<lparr>vh_store := Some st'\<rparr>)))"
    have "names_ok ?vh" using ok
      by (intro fold_invariant [where P = names_ok]) (simp_all add: names_ok_recover_steps names_ok_fields)
    moreover have "same_names ?vh vh'" using r Some d by (intro recoverMessages_names) (simp add: recoverFromStore_def)
    ultimately show ?thesis using names_ok_same by blast
  qed
qed

lemma host_step_names: "host_step vh vh' \<Longrightarrow> names_ok vh \<Longrightarrow> names_ok vh'"
  by (induction rule: host_step.induct) (auto intro: client_step_names names_ok_cleanup names_ok_recover)

lemma names_ok_new: "names_ok (new_VirtualHost name store h)"
  by (simp add: names_ok_def new_VirtualHost_def queues_ok_def queue_names_def exchanges_ok_def builtin_def
      predefined_def)

lemma reachable_names: "host_step\<^sup>*\<^sup>* (new_VirtualHost name store h) vh \<Longrightarrow> names_ok vh"
  by (induction rule: rtranclp_induct) (auto intro: names_ok_new host_step_names)

section \<open>Bindings refer to queues\<close>

definition bindings_live :: "VirtualHost \<Rightarrow> bool" where
  "bindings_live vh \<longleftrightarrow> (\<forall>n ex b. map_of (vh_exchanges vh) n = Some ex \<longrightarrow> b \<in> set (ex_bindings ex) \<longrightarrow>
     map_of (vh_queues vh) (queue_name b) \<noteq> None)"

lemma bindings_live_keys:
  assumes "bindings_live vh" "vh_exchanges vh' = vh_exchanges vh"
    "\<And>n. map_of (vh_queues vh) n \<noteq> None \<Longrightarrow> map_of (vh_queues vh') n \<noteq> None"
  shows "bindings_live vh'"
  using assms unfolding bindings_live_def by metis

lemma queue_names_None: "map_of (vh_queues vh) n = None \<longleftrightarrow> n \<notin> set (map fst (queue_names vh))"
  unfolding keys_queue_names by (simp add: map_of_eq_None_iff)

lemma bindings_live_same: "same_names vh vh' \<Longrightarrow> bindings_live vh \<Longrightarrow> bindings_live vh'"
  by (rule bindings_live_keys) (auto simp: same_names_def queue_names_None simp del: set_map)

lemma bindings_live_put_exchange:
  assumes "bindings_live vh" "\<And>b. b \<in> set (ex_bindings ex) \<Longrightarrow> map_of (vh_queues vh) (queue_name b) \<noteq> None"
  shows "bindings_live (vh\<lparr>vh_exchanges := AList.update n ex (vh_exchanges vh)\<rparr>)"
  using assms by (auto simp: bindings_live_def split: if_splits)

lemma bindings_live_fields:
  "bindings_live (vh\<lparr>vh_heap := h\<rparr>) = bindings_live vh" "bindings_live (log_store f vh) = bindings_live vh"
  "bindings_live (vh\<lparr>vh_counter := c\<rparr>) = bindings_live vh"
  by (simp_all add: bindings_live_def log_store_def)

lemma bindings_live_bindDefault:
  "bindings_live vh \<Longrightarrow> map_of (vh_queues vh) qname \<noteq> None \<Longrightarrow> bindings_live (bindDefault qname vh)"
  by (auto simp: bindDefault_def addBinding_def split: option.splits intro!: bindings_live_put_exchange)
    (auto simp: bindings_live_def)

lemma bindings_live_declareNamed:
  assumes "bindings_live vh"
  shows "bindings_live (snd (declareNamedQueue n p d ex ad args c vh))"
proof -
  have "bindings_live (vh\<lparr>vh_queues := AList.update n q (vh_queues vh)\<rparr>)" for q
    using assms by (rule bindings_live_keys) auto
  then have "bindings_live (bindDefault n (vh\<lparr>vh_queues := AList.update n q (vh_queues vh)\<rparr>))" for q
    by (rule bindings_live_bindDefault) simp
  then show ?thesis using assms
    by (simp add: declareNamedQueue_def Let_def bindings_live_fields split: option.split)
qed

lemma map_of_map_values: "map_of (map (\<lambda>(n, x). (n, f x)) m) k = map_option f (map_of m k)"
  by (induction m) auto

lemma bindings_live_deleteQueue:
  assumes "bindings_live vh"
  shows "bindings_live (snd (deleteQueue n unused isEmpty vh))"
proof -
  have "bindings_live ((unbindEverywhere n vh)\<lparr>vh_queues := AList.delete n (vh_queues vh)\<rparr>)"
    using assms by (auto simp: bindings_live_def unbindEverywhere_def map_of_map_values removeBindingsOf_filter)
  moreover have "vh_queues (unbindEverywhere n vh) = vh_queues vh" by (simp add: unbindEverywhere_def)
  ultimately show ?thesis using assms
    by (simp add: deleteQueue_def Let_def bindings_live_fields split: option.split)
qed

lemma bindings_live_bind:
  assumes "bindings_live vh"
  shows "bindings_live (snd (bindQueue q x k args vh))" "bindings_live (snd (unbindQueue q x k args vh))"
proof -
  have old: "map_of (vh_queues vh) (queue_name b) \<noteq> None"
    if "map_of (vh_exchanges vh) x = Some ex" "b \<in> set (ex_bindings ex)" for ex b
    using assms that unfolding bindings_live_def by blast
  show "bindings_live (snd (bindQueue q x k args vh))"
    using assms old by (auto simp: bindQueue_def addBinding_def bindings_live_fields split: option.split
        intro!: bindings_live_put_exchange)
  show "bindings_live (snd (unbindQueue q x k args vh))"
    using assms old by (auto simp: unbindQueue_def removeBinding_def bindings_live_fields split: option.split
        intro!: bindings_live_put_exchange)
qed

lemma bindings_live_declareExchange:
  assumes "bindings_live vh"
  shows "bindings_live (snd (declareExchange n ty p d ad i args vh))"
proof -
  define ex where "ex = (createExchange ty)\<lparr>ex_name := n, ex_durable := d, ex_auto_delete := ad,
    ex_internal := i, ex_arguments := args\<rparr>"
  have "bindings_live (vh\<lparr>vh_exchanges := AList.update n ex (vh_exchanges vh)\<rparr>)"
    using assms by (rule bindings_live_put_exchange) (simp add: ex_def createExchange_def Let_def)
  then show ?thesis using assms
    by (simp add: declareExchange_def Let_def bindings_live_fields flip: ex_def split: option.split)
qed

lemma bindings_live_deleteExchange:
  assumes "bindings_live vh"
  shows "bindings_live (snd (deleteExchange n unused vh))"
proof -
  have "bindings_live (vh\<lparr>vh_exchanges := AList.delete n (vh_exchanges vh)\<rparr>)"
    using assms by (simp add: bindings_live_def)
  then show ?thesis using assms
    by (simp add: deleteExchange_def bindings_live_fields split: option.split)
qed

lemma client_step_bindings: "client_step vh vh' \<Longrightarrow> bindings_live vh \<Longrightarrow> bindings_live vh'"
proof (induction rule: client_step.induct)
  case (deliver vh n a vh')
  then show ?case using naming.deliverToQueue_names bindings_live_same unfolding onDeadLetter_def by blast
next
  case (reject vh n requeue a vh')
  then show ?case using naming.rejectMessage_names bindings_live_same unfolding onDeadLetter_def by blast
next
  case (get vh n r vh')
  then show ?case using naming.getMessage_names bindings_live_same unfolding onDeadLetter_def by blast
next
  case (tick vh vh')
  then show ?case using naming.flushAll_names bindings_live_same unfolding onDeadLetter_def tick_def by blast
next
  case (declare_queue vh n pas d ex ad args c)
  then show ?case
    by (simp add: declareQueue_def generateQueueName_def Let_def bindings_live_declareNamed bindings_live_fields)
qed (simp_all add: bindings_live_fields bindings_live_declareExchange
    bindings_live_deleteExchange bindings_live_deleteQueue bindings_live_bind
    bindings_live_same [OF same_names_consumers(1)] bindings_live_same [OF same_names_consumers(2)]
    bindings_live_same [OF same_names_consumers(3)])

end
