(* ===== verification/Host_Properties.thy ===== *)
theory Host_Properties
  imports Host_Invariants
begin

text \<open>
  Properties of the virtual host: its invariants from the constructor on, routing after
  declaring and deleting queues, the clean-up after a connection, and what a restart restores.
\<close>

section \<open>Routing\<close>

lemma firstOnly_append:
  "n \<notin> set xs \<Longrightarrow> n \<notin> set seen \<Longrightarrow> firstOnly seen (xs @ [n]) = firstOnly seen xs @ [n]"
  by (induction seen xs rule: firstOnly.induct) auto

lemma firstOnly_filter:
  "set seen - {n} = set seen' - {n} \<Longrightarrow>
   filter (\<lambda>x. x \<noteq> n) (firstOnly seen xs) = firstOnly seen' (filter (\<lambda>x. x \<noteq> n) xs)"
proof (induction xs arbitrary: seen seen')
  case (Cons x xs)
  show ?case
  proof (cases "x = n")
    case True
    then show ?thesis using Cons.IH [of seen seen'] Cons.IH [of "n # seen" seen'] Cons.prems by auto
  next
    case False
    then have "x \<in> set seen \<longleftrightarrow> x \<in> set seen'" using Cons.prems by blast
    then show ?thesis using False Cons.IH [of seen seen'] Cons.IH [of "x # seen" "x # seen'"] Cons.prems by auto
  qed
qed simp

lemma routeMessage_mem:
  "q \<in> set (routeMessage x k hs vh) \<longleftrightarrow>
   (\<exists>ex. map_of (vh_exchanges vh) x = Some ex \<and> q \<in> set (route ex k hs))"
  by (cases "map_of (vh_exchanges vh) x") (simp_all add: routeMessage_def firstOnly_props)

lemma route_mem_binding: "q \<in> set (route ex k hs) \<Longrightarrow> \<exists>b \<in> set (ex_bindings ex). queue_name b = q"
  by (auto simp: route_by_bindings)

lemma routed_exists: "bindings_live vh \<Longrightarrow> q \<in> set (routeMessage x k hs vh) \<Longrightarrow> findQueue q vh \<noteq> None"
proof -
  assume live: "bindings_live vh" and q: "q \<in> set (routeMessage x k hs vh)"
  obtain ex where ex: "map_of (vh_exchanges vh) x = Some ex" "q \<in> set (route ex k hs)"
    using q by (auto simp: routeMessage_mem)
  then obtain b where "b \<in> set (ex_bindings ex)" "queue_name b = q" using route_mem_binding by blast
  with ex(1) live show "findQueue q vh \<noteq> None" unfolding findQueue_def bindings_live_def by metis
qed

lemma reachable_bindings: "client_step\<^sup>*\<^sup>* (new_VirtualHost name store h) vh \<Longrightarrow> bindings_live vh"
proof (induction rule: rtranclp_induct)
  case base
  show ?case by (simp add: bindings_live_def new_VirtualHost_def builtin_def split: if_splits)
qed (rule client_step_bindings)

lemma client_reachable: "client_step\<^sup>*\<^sup>* vh vh' \<Longrightarrow> host_step\<^sup>*\<^sup>* vh vh'"
  by (induction rule: rtranclp_induct) (auto intro: rtranclp.rtrancl_into_rtrancl host_step.client)

lemma default_exchange:
  assumes "names_ok vh"
  obtains ex where "map_of (vh_exchanges vh) [] = Some ex" "ex_kind ex = DirectExchange"
proof -
  have "([], DirectExchange) \<in> set predefined" by (simp add: predefined_def)
  then show ?thesis using that exchanges_okD(3) assms unfolding names_ok_def by blast
qed

section \<open>A new queue\<close>

definition fresh_queue :: "string \<Rightarrow> bool \<Rightarrow> bool \<Rightarrow> bool \<Rightarrow> FieldTable \<Rightarrow> u32 \<Rightarrow> MessageQueue" where
  "fresh_queue n d excl ad args c = setupDeadLetterHandler (configure ((new_MessageQueue n)\<lparr>q_durable := d,
    q_exclusive := excl, q_auto_delete := ad, q_arguments := args, q_owner_connection := (if excl then c else 0)\<rparr>))"

lemma fresh_queue_simps [simp]:
  "q_messages (fresh_queue n d excl ad args c) = []" "q_consumers (fresh_queue n d excl ad args c) = []"
  "q_exclusive (fresh_queue n d excl ad args c) = excl" "q_auto_delete (fresh_queue n d excl ad args c) = ad"
  "q_owner_connection (fresh_queue n d excl ad args c) = (if excl then c else 0)"
  by (simp_all add: fresh_queue_def setupDeadLetterHandler_def setDeadLetterHandler_def configure_def
      new_MessageQueue_def Let_def split: option.split)

lemma declareQueue_new:
  assumes "declareQueue n False d excl ad args c vh = (r, vh')" "n \<noteq> []" "findQueue n vh = None"
    "map_of (vh_exchanges vh) [] = Some ex"
  shows "r = Inr (n, True)" "findQueue n vh' = Some (fresh_queue n d excl ad args c)"
    "map_of (vh_exchanges vh') [] = Some (addBinding n n [] ex)"
    "distinct_keys (vh_queues vh) \<Longrightarrow> distinct_keys (vh_queues vh')"
  using assms
  by (auto simp: declareQueue_def declareNamedQueue_def findQueue_def bindDefault_def log_store_def Let_def
      distinct_update simp flip: fresh_queue_def)

lemma new_host_parts:
  "map_of (vh_exchanges (new_VirtualHost name store h)) [] = Some (snd (builtin [] ''direct'' DirectExchange))"
  "findQueue n (new_VirtualHost name store h) = None" "vh_queues (new_VirtualHost name store h) = []"
  by (simp_all add: new_VirtualHost_def builtin_def findQueue_def)

text \<open>A host with one queue, for the examples.\<close>

definition one_queue_host :: "bool \<Rightarrow> bool \<Rightarrow> VirtualHost" where
  "one_queue_host excl ad =
     snd (declareQueue ''q'' False True excl ad [] 1 (new_VirtualHost ''/'' None (sample_heap 0)))"

lemma one_queue_host:
  "findQueue ''q'' (one_queue_host excl ad) = Some (fresh_queue ''q'' True excl ad [] 1)"
  "map_of (vh_exchanges (one_queue_host excl ad)) [] =
     Some (addBinding ''q'' ''q'' [] (snd (builtin [] ''direct'' DirectExchange)))"
  "distinct_keys (vh_queues (one_queue_host excl ad))"
  "client_step\<^sup>*\<^sup>* (new_VirtualHost ''/'' None (sample_heap 0)) (one_queue_host excl ad)"
proof -
  obtain r where r: "declareQueue ''q'' False True excl ad [] 1 (new_VirtualHost ''/'' None (sample_heap 0)) =
      (r, one_queue_host excl ad)"
    unfolding one_queue_host_def by (metis prod.collapse)
  note new = declareQueue_new [OF r _ new_host_parts(2,1)]
  show "findQueue ''q'' (one_queue_host excl ad) = Some (fresh_queue ''q'' True excl ad [] 1)"
    "map_of (vh_exchanges (one_queue_host excl ad)) [] =
       Some (addBinding ''q'' ''q'' [] (snd (builtin [] ''direct'' DirectExchange)))"
    "distinct_keys (vh_queues (one_queue_host excl ad))"
    using new(2-4) by (simp_all add: new_host_parts)
  show "client_step\<^sup>*\<^sup>* (new_VirtualHost ''/'' None (sample_heap 0)) (one_queue_host excl ad)"
    unfolding one_queue_host_def by (intro r_into_rtranclp client_step.declare_queue)
qed

lemma one_queue_route: "routeMessage [] ''q'' hs (one_queue_host excl ad) = [''q'']"
  by (simp add: routeMessage_def one_queue_host addBinding_def builtin_def route_by_bindings binding_accepts_def)

section \<open>Clean-up after a connection\<close>

definition without_consumers_of :: "u32 \<Rightarrow> Heap \<Rightarrow> MessageQueue \<Rightarrow> MessageQueue" where
  "without_consumers_of c h q =
     q\<lparr>q_consumers := filter (\<lambda>ci. c_connection_id (con_at h ci) \<noteq> c) (q_consumers q)\<rparr>"

definition owned_by :: "u32 \<Rightarrow> MessageQueue \<Rightarrow> bool" where
  "owned_by c q \<longleftrightarrow> q_exclusive q \<and> q_owner_connection q = c"

definition idle_auto_delete :: "MessageQueue \<Rightarrow> bool" where
  "idle_auto_delete q \<longleftrightarrow> q_auto_delete q \<and> consumerCount q = 0"

lemma clear_on_deliver_connection [simp]:
  "c_connection_id (con_at (clear_on_deliver ci h) y) = c_connection_id (con_at h y)"
  by (cases "ci < length (h_consumers h)")
    (auto simp: clear_on_deliver_def con_at_def put_con_def nth_list_update list_update_beyond)

lemma clear_all_connection:
  "c_connection_id (con_at (fold (\<lambda>ci h. if P h ci then clear_on_deliver ci h else h) cs h) y) =
   c_connection_id (con_at h y)"
  by (induction cs arbitrary: h) auto

lemma removeConsumersByConnection_result:
  assumes "removeConsumersByConnection c h q = (h', q')"
  shows "q' = without_consumers_of c h q \<and> c_connection_id (con_at h' y) = c_connection_id (con_at h y)"
  using assms
  by (auto simp: removeConsumersByConnection_def Let_def without_consumers_of_def clear_all_connection)

lemma dropConsumers_queues:
  "distinct qs \<Longrightarrow> map_of (vh_queues (dropConsumers c qs vh)) n =
     map_option (\<lambda>q. if n \<in> set qs then without_consumers_of c (vh_heap vh) q else q) (map_of (vh_queues vh) n)"
proof (induction qs arbitrary: vh)
  case (Cons qname qs)
  show ?case
  proof (cases "map_of (vh_queues vh) qname")
    case None
    then show ?thesis using Cons by (cases "n = qname") simp_all
  next
    case (Some q)
    obtain h q' where r: "removeConsumersByConnection c (vh_heap vh) q = (h, q')"
      by (cases "removeConsumersByConnection c (vh_heap vh) q")
    have q': "q' = without_consumers_of c (vh_heap vh) q" using removeConsumersByConnection_result [OF r] by blast
    have h: "without_consumers_of c (vh_heap (put_queue qname h q' vh)) = without_consumers_of c (vh_heap vh)"
      using removeConsumersByConnection_result [OF r]
      by (intro ext) (simp add: without_consumers_of_def put_queue_def)
    have "map_of (vh_queues (dropConsumers c qs (put_queue qname h q' vh))) n =
      map_option (\<lambda>q. if n \<in> set qs then without_consumers_of c (vh_heap vh) q else q)
        (map_of (vh_queues (put_queue qname h q' vh)) n)"
      using Cons.IH [of "put_queue qname h q' vh"] Cons.prems unfolding h by simp
    then show ?thesis using Some r q' Cons.prems by (auto simp: put_queue_def split: option.split)
  qed
qed (simp add: option.map_ident)

lemma eraseAll_parts:
  "map_of (vh_queues (fold eraseExclusive ns vh)) n = (if n \<in> set ns then None else map_of (vh_queues vh) n)"
  "map_of (vh_exchanges (fold eraseExclusive ns vh)) x =
     map_option (\<lambda>ex. ex\<lparr>ex_bindings := filter (\<lambda>b. queue_name b \<notin> set ns) (ex_bindings ex)\<rparr>)
       (map_of (vh_exchanges vh) x)"
  by (induction ns arbitrary: vh)
    (auto simp: eraseExclusive_def Let_def unbindEverywhere_def map_of_map_values removeBindingsOf_filter
      option.map_comp comp_def option.map_ident conj_commute intro!: option.map_cong filter_cong)

lemma distinct_eraseAll: "distinct_keys (vh_queues vh) \<Longrightarrow> distinct_keys (vh_queues (fold eraseExclusive ns vh))"
  by (induction ns arbitrary: vh) (simp_all add: eraseExclusive_def unbindEverywhere_def Let_def map_of_delete_distinct)

lemma map_of_delete_all: "map_of (fold AList.delete ns m) n = (if n \<in> set ns then None else map_of m n)"
  by (induction ns arbitrary: m) auto

lemma mem_keys_filter:
  "distinct_keys m \<Longrightarrow> n \<in> set (map fst (filter (\<lambda>(n, q). P q) m)) \<longleftrightarrow> (\<exists>q. map_of m n = Some q \<and> P q)"
  by (induction m) (auto simp: map_of_eq_Some_iff rev_image_eqI)

lemma cleanup_exchanges:
  assumes "distinct_keys (vh_queues vh)"
  shows "map_of (vh_exchanges (removeConnectionQueues c vh)) x =
    map_option (\<lambda>ex. ex\<lparr>ex_bindings := filter (\<lambda>b. \<not> (\<exists>q. findQueue (queue_name b) vh = Some q \<and> owned_by c q))
      (ex_bindings ex)\<rparr>) (map_of (vh_exchanges vh) x)"
proof -
  have "vh_exchanges (dropConsumers c qs vh) = vh_exchanges vh" for qs
    using dropConsumers_names [of vh c qs] by (simp add: same_names_def)
  moreover have "\<not> (\<exists>q. findQueue n vh = Some q \<and> owned_by c q) \<longleftrightarrow>
      n \<notin> set (map fst (filter (\<lambda>(n, q). q_exclusive q \<and> q_owner_connection q = c) (vh_queues vh)))" for n
    unfolding findQueue_def owned_by_def mem_keys_filter [OF assms] by blast
  ultimately show ?thesis by (simp add: removeConnectionQueues_def Let_def eraseAll_parts)
qed

lemma cleanup_result_of:
  assumes "distinct_keys (vh_queues vh)"
  shows "findQueue n (removeConnectionQueues c vh) =
    (case findQueue n vh of
       None \<Rightarrow> None
     | Some q \<Rightarrow>
         if owned_by c q \<or> idle_auto_delete (without_consumers_of c (vh_heap vh) q) then None
         else Some (without_consumers_of c (vh_heap vh) q))"
proof -
  define qs where "qs = map fst (filter (\<lambda>(n, q). \<not> owned_by c q) (vh_queues vh))"
  define ns where "ns = map fst (filter (\<lambda>(n, q). owned_by c q) (vh_queues vh))"
  define vh2 where "vh2 = fold eraseExclusive ns (dropConsumers c qs vh)"
  define ad where "ad = map fst (filter (\<lambda>(n, q). idle_auto_delete q) (vh_queues vh2))"
  have result: "removeConnectionQueues c vh = vh2\<lparr>vh_queues := fold AList.delete ad (vh_queues vh2)\<rparr>"
    by (simp add: removeConnectionQueues_def Let_def ad_def vh2_def qs_def ns_def owned_by_def idle_auto_delete_def
        case_prod_unfold)
  have qs: "n \<in> set qs \<longleftrightarrow> (\<exists>q. map_of (vh_queues vh) n = Some q \<and> \<not> owned_by c q)"
    "n \<in> set ns \<longleftrightarrow> (\<exists>q. map_of (vh_queues vh) n = Some q \<and> owned_by c q)"
    unfolding qs_def ns_def by (rule mem_keys_filter [OF assms])+
  have "distinct qs" unfolding qs_def by (rule distinct_map_filter [OF assms])
  then have vh2: "map_of (vh_queues vh2) n = (if n \<in> set ns then None else
      map_option (\<lambda>q. if n \<in> set qs then without_consumers_of c (vh_heap vh) q else q) (map_of (vh_queues vh) n))"
    by (simp add: vh2_def eraseAll_parts dropConsumers_queues)
  have "distinct_keys (vh_queues vh2)"
    using dropConsumers_names [of vh c qs] assms unfolding vh2_def
    by (intro distinct_eraseAll) (metis keys_queue_names same_names_def)
  then have "n \<in> set ad \<longleftrightarrow> (\<exists>q. map_of (vh_queues vh2) n = Some q \<and> idle_auto_delete q)"
    unfolding ad_def by (rule mem_keys_filter)
  then show ?thesis unfolding findQueue_def result using qs vh2
    by (auto simp: map_of_delete_all split: option.split)
qed

section \<open>Properties\<close>

text \<open>
  (C20) From the constructor on, through every sequence of operations of clients, timers, clean-up
  and recovery: a queue is stored under its name, an exchange under its name, and the six
  predefined exchanges are there, each of its own type.
\<close>

theorem reachable_host_is_well_named:
  assumes "host_step\<^sup>*\<^sup>* (new_VirtualHost name store h) vh"
  shows "distinct_keys (vh_queues vh) \<and> distinct_keys (vh_exchanges vh) \<and>
    (findQueue n vh = Some q \<longrightarrow> q_name q = n) \<and> (findExchange n vh = Some ex \<longrightarrow> ex_name ex = n) \<and>
    ((n, k) \<in> set predefined \<longrightarrow> (\<exists>ex. findExchange n vh = Some ex \<and> ex_kind ex = k))"
proof -
  have ok: "exchanges_ok (vh_exchanges vh)" "queues_ok (queue_names vh)"
    using reachable_names [OF assms] by (simp_all add: names_ok_def)
  have "distinct_keys (vh_queues vh)" using ok(2) keys_queue_names [of vh] by (simp add: queues_ok_def)
  moreover have "q_name q = n" if "findQueue n vh = Some q"
    using map_of_SomeD that ok(2) unfolding findQueue_def queues_ok_def queue_names_def by fastforce
  ultimately show ?thesis using exchanges_okD [OF ok(1)] by (simp add: findExchange_def)
qed

theorem reachable_host_is_well_named_witness:
  "\<exists>ex. findExchange ''amq.topic'' (one_queue_host False False) = Some ex \<and> ex_kind ex = TopicExchange"
  using reachable_host_is_well_named [OF client_reachable [OF one_queue_host(4)],
      where n = "''amq.topic''" and k = TopicExchange]
  by (simp add: predefined_def)

text \<open>
  (C21) Until a connection is cleaned up or a log recovered, a message is only ever routed to
  queues that exist, whatever was declared, bound, unbound and deleted before.
\<close>

theorem clients_never_route_to_missing_queues:
  assumes "client_step\<^sup>*\<^sup>* (new_VirtualHost name store h) vh" "q \<in> set (routeMessage exchange key hs vh)"
  shows "\<exists>queue. findQueue q vh = Some queue"
  using routed_exists [OF reachable_bindings [OF assms(1)] assms(2)] by blast

theorem clients_never_route_to_missing_queues_witness:
  "\<exists>queue. findQueue ''q'' (one_queue_host True False) = Some queue"
  using clients_never_route_to_missing_queues [OF one_queue_host(4), where q = "''q''" and key = "''q''"]
  by (metis list.set_intros(1) one_queue_route)

text \<open>
  A new queue is reachable through the default exchange under its own name at once:
  messages with that key go where they went before and then to the queue, once.
\<close>

theorem declared_queue_is_routable:
  assumes "client_step\<^sup>*\<^sup>* (new_VirtualHost name store h) vh" "n \<noteq> []" "findQueue n vh = None"
    "declareQueue n False d excl ad args c vh = (r, vh')"
  shows "r = Inr (n, True) \<and> (\<exists>q. findQueue n vh' = Some q \<and> q_messages q = [] \<and> q_consumers q = []) \<and>
    routeMessage [] n hs vh' = routeMessage [] n hs vh @ [n]"
proof -
  obtain ex where ex: "map_of (vh_exchanges vh) [] = Some ex" "ex_kind ex = DirectExchange"
    by (rule default_exchange [OF reachable_names [OF client_reachable [OF assms(1)]]])
  note r = declareQueue_new [OF assms(4,2,3) ex(1)]
  have "n \<notin> set (routeMessage [] n hs vh)"
    using routed_exists [OF reachable_bindings [OF assms(1)], of n "[]" n hs] assms(3) by auto
  then have "n \<notin> set (route ex n hs)" using ex(1) by (auto simp: routeMessage_mem)
  moreover have "route (addBinding n n [] ex) n hs = route ex n hs @ [n]"
    using ex(2) by (simp add: route_by_bindings addBinding_def binding_accepts_def)
  ultimately have "routeMessage [] n hs vh' = routeMessage [] n hs vh @ [n]"
    using r(3) ex(1) by (simp add: routeMessage_def firstOnly_append)
  then show ?thesis using r(1,2) by simp
qed

theorem declared_queue_is_routable_witness:
  "routeMessage [] ''q'' None (one_queue_host False False) =
   routeMessage [] ''q'' None (new_VirtualHost ''/'' None (sample_heap 0)) @ [''q'']"
proof -
  obtain r where "declareQueue ''q'' False True False False [] 1 (new_VirtualHost ''/'' None (sample_heap 0)) =
      (r, one_queue_host False False)"
    unfolding one_queue_host_def by (metis prod.collapse)
  from declared_queue_is_routable [OF rtranclp.rtrancl_refl _ new_host_parts(2) this, of None] show ?thesis by simp
qed

text \<open>
  (C23) The clean-up after a connection, queue by queue: the exclusive queues of the
  connection are gone; every other queue loses exactly the consumers of the connection and
  keeps everything else, and is erased if it is then an auto-delete queue without consumers.
\<close>

theorem cleanup_result:
  assumes "distinct_keys (vh_queues vh)"
  shows "findQueue n (removeConnectionQueues c vh) =
    (case findQueue n vh of
       None \<Rightarrow> None
     | Some q \<Rightarrow>
         if owned_by c q \<or> idle_auto_delete (without_consumers_of c (vh_heap vh) q) then None
         else Some (without_consumers_of c (vh_heap vh) q))"
  by (rule cleanup_result_of [OF assms])

theorem cleanup_result_witness:
  "findQueue ''q'' (removeConnectionQueues 1 (one_queue_host True False)) = None \<and>
   findQueue ''q'' (removeConnectionQueues 2 (one_queue_host True False)) \<noteq> None"
  using cleanup_result [OF one_queue_host(3), of "''q''" 1 True False]
    cleanup_result [OF one_queue_host(3), of "''q''" 2 True False]
  by (simp add: one_queue_host owned_by_def idle_auto_delete_def without_consumers_of_def)

text \<open>
  (C35) A queue that is declared auto-delete and has no consumer yet does not survive the end
  of any connection, whichever connection declared it, and its bindings stay: the default
  exchange still routes to the name that is gone.
\<close>

theorem auto_delete_queue_lost_on_any_disconnect:
  assumes "client_step\<^sup>*\<^sup>* (new_VirtualHost name store h) vh" "n \<noteq> []" "findQueue n vh = None"
    "declareQueue n False d False True args c vh = (r, vh')"
  shows "findQueue n vh' \<noteq> None \<and> findQueue n (removeConnectionQueues c' vh') = None \<and>
    n \<in> set (routeMessage [] n hs (removeConnectionQueues c' vh'))"
proof -
  have ok: "names_ok vh" using reachable_names [OF client_reachable [OF assms(1)]] .
  obtain ex where ex: "map_of (vh_exchanges vh) [] = Some ex" "ex_kind ex = DirectExchange"
    by (rule default_exchange [OF ok])
  note new = declareQueue_new [OF assms(4,2,3) ex(1)]
  have keys: "distinct_keys (vh_queues vh')"
    using new(4) ok keys_queue_names [of vh] by (simp add: names_ok_def queues_ok_def)
  have "findQueue n (removeConnectionQueues c' vh') = None"
    using new(2) by (simp add: cleanup_result_of [OF keys] idle_auto_delete_def without_consumers_of_def consumerCount_def)
  moreover have "n \<in> set (routeMessage [] n hs (removeConnectionQueues c' vh'))"
    using new(2,3) ex(2)
    by (auto simp: routeMessage_mem cleanup_exchanges [OF keys] addBinding_def route_by_bindings owned_by_def
        binding_accepts_def image_iff)
  ultimately show ?thesis using new(2) by simp
qed

theorem auto_delete_queue_lost_on_any_disconnect_witness:
  "findQueue ''q'' (removeConnectionQueues 7 (one_queue_host False True)) = None \<and>
   ''q'' \<in> set (routeMessage [] ''q'' None (removeConnectionQueues 7 (one_queue_host False True)))"
proof -
  obtain r where "declareQueue ''q'' False True False True [] 1 (new_VirtualHost ''/'' None (sample_heap 0)) =
      (r, one_queue_host False True)"
    unfolding one_queue_host_def by (metis prod.collapse)
  from auto_delete_queue_lost_on_any_disconnect [OF rtranclp.rtrancl_refl _ new_host_parts(2) this, of 7 None]
  show ?thesis by simp
qed

text \<open>
  (C22) After a queue has been deleted it is gone and no exchange routes to it, while every
  message reaches the other queues exactly as before and in the same order.
\<close>

theorem deleted_queue_is_unrouted:
  assumes "deleteQueue n unused isEmpty vh = (Inr cnt, vh')"
  shows "findQueue n vh' = None \<and>
    routeMessage exchange key hs vh' = filter (\<lambda>q. q \<noteq> n) (routeMessage exchange key hs vh)"
proof -
  have vh': "map_of (vh_queues vh') = (map_of (vh_queues vh))(n := None)"
    "map_of (vh_exchanges vh') x = map_option (removeBindingsOf n) (map_of (vh_exchanges vh) x)" for x
    using assms by (auto simp: deleteQueue_def unbindEverywhere_def log_store_def Let_def map_of_map_values
        split: option.splits if_splits)
  have "route (removeBindingsOf n ex) key hs = filter (\<lambda>q. q \<noteq> n) (route ex key hs)" for ex
    by (simp add: route_by_bindings removeBindingsOf_filter filter_map comp_def conj_commute)
  then show ?thesis using vh' firstOnly_filter [of "[]" n "[]"]
    by (simp add: findQueue_def routeMessage_def split: option.split)
qed

theorem deleted_queue_is_unrouted_witness:
  "let vh' = snd (deleteQueue ''q'' True True (one_queue_host False False))
   in findQueue ''q'' vh' = None \<and>
      routeMessage [] ''q'' None vh' = filter (\<lambda>q. q \<noteq> ''q'') (routeMessage [] ''q'' None (one_queue_host False False))"
proof -
  obtain r vh' where d: "deleteQueue ''q'' True True (one_queue_host False False) = (r, vh')"
    by (cases "deleteQueue ''q'' True True (one_queue_host False False)")
  then have "r = Inr 0" using one_queue_host(1) [of False False]
    by (simp add: deleteQueue_def findQueue_def consumerCount_def messageCount_def Let_def)
  with d deleted_queue_is_unrouted [of "''q''" True True "one_queue_host False False" 0 vh' "[]" "''q''" None]
  show ?thesis by (simp add: Let_def)
qed

end
