(* ===== verification/User_Store.thy ===== *)
theory User_Store
  imports Prelude
begin

text \<open>
  The user database (\<open>broker/auth.h\<close>): pairs \<open>user:password\<close> read from a text file, and the
  built-in user \<open>guest\<close> when there is no file.
\<close>

section \<open>The store\<close>

record UserStore =
  us_users :: "(string \<times> string) list"
  us_loaded :: bool

definition new_UserStore :: UserStore where
  "new_UserStore = \<lparr>us_users = [], us_loaded = False\<rparr>"

text \<open>\<open>std::getline\<close> until the end of the file; a newline at the end starts no further line.\<close>

abbreviation newline :: char where
  "newline \<equiv> CHR 0x0A"

function getlines :: "string \<Rightarrow> string list" where
  "getlines s =
     (if s = [] then []
      else takeWhile (\<lambda>c. c \<noteq> newline) s # getlines (drop 1 (dropWhile (\<lambda>c. c \<noteq> newline) s)))"
  by pat_completeness auto
termination
proof (relation "measure length")
  fix s :: string assume "s \<noteq> []"
  then have "length (drop 1 (dropWhile (\<lambda>c. c \<noteq> newline) s)) < length s"
    by (cases s) (auto simp: less_Suc_eq_le intro: le_trans [OF diff_le_self length_dropWhile_le])
  then show "(drop 1 (dropWhile (\<lambda>c. c \<noteq> newline) s), s) \<in> measure length" by simp
qed simp

declare getlines.simps [simp del]

definition trimCR :: "string \<Rightarrow> string" where
  "trimCR line = (if line \<noteq> [] \<and> last line = CHR 0x0D then butlast line else line)"

definition loadLine :: "string \<Rightarrow> (string \<times> string) list \<Rightarrow> (string \<times> string) list" where
  "loadLine line0 users =
     (let line = trimCR line0 in
      if line = [] \<or> hd line = CHR ''#'' then users
      else if CHR '':'' \<notin> set line then users
      else AList.update (takeWhile (\<lambda>c. c \<noteq> CHR '':'') line) (drop 1 (dropWhile (\<lambda>c. c \<noteq> CHR '':'') line)) users)"

text \<open>The content of the file, or \<open>None\<close> if it cannot be opened.\<close>

definition loadFromFile :: "string option \<Rightarrow> UserStore \<Rightarrow> bool \<times> UserStore" where
  "loadFromFile content us =
     (case content of
        None \<Rightarrow> (False, us)
      | Some text \<Rightarrow> (True, us\<lparr>us_users := fold loadLine (getlines text) [], us_loaded := True\<rparr>))"

definition verify :: "string \<Rightarrow> string \<Rightarrow> UserStore \<Rightarrow> bool" where
  "verify user password us =
     (if \<not> us_loaded us then user = ''guest'' \<and> password = ''guest''
      else case map_of (us_users us) user of None \<Rightarrow> False | Some p \<Rightarrow> p = password)"

definition listUsers :: "UserStore \<Rightarrow> string list" where
  "listUsers us = (if \<not> us_loaded us then [''guest''] else map fst (us_users us))"

definition isLoaded :: "UserStore \<Rightarrow> bool" where
  "isLoaded us = us_loaded us"

section \<open>Files that list users\<close>

definition plain_user :: "string \<times> string \<Rightarrow> bool" where
  "plain_user = (\<lambda>(u, p). CHR '':'' \<notin> set u \<and> newline \<notin> set u \<and> newline \<notin> set p \<and>
     (u = [] \<or> hd u \<noteq> CHR ''#'') \<and> (p = [] \<or> last p \<noteq> CHR 0x0D))"

definition user_line :: "string \<times> string \<Rightarrow> string" where
  "user_line = (\<lambda>(u, p). u @ CHR '':'' # p)"

definition users_file :: "(string \<times> string) list \<Rightarrow> string" where
  "users_file ups = concat (map (\<lambda>up. user_line up @ [newline]) ups)"

lemma split_at:
  "c \<notin> set l \<Longrightarrow> takeWhile (\<lambda>x. x \<noteq> c) (l @ c # r) = l" "c \<notin> set l \<Longrightarrow> dropWhile (\<lambda>x. x \<noteq> c) (l @ c # r) = c # r"
  by (induction l) auto

lemma getlines_line: "newline \<notin> set l \<Longrightarrow> getlines (l @ newline # rest) = l # getlines rest"
proof -
  assume "newline \<notin> set l"
  then show ?thesis by (subst getlines.simps) (simp add: split_at)
qed

lemma getlines_file:
  "list_all plain_user ups \<Longrightarrow> getlines (users_file ups) = map user_line ups"
proof (induction ups)
  case Nil
  show ?case by (simp add: users_file_def getlines.simps [of "[]"])
next
  case (Cons up ups)
  then have "newline \<notin> set (user_line up)" by (auto simp: plain_user_def user_line_def split: prod.splits)
  then show ?case using Cons getlines_line [of "user_line up" "users_file ups"] by (simp add: users_file_def)
qed

lemma loadLine_user: "plain_user (u, p) \<Longrightarrow> loadLine (user_line (u, p)) users = AList.update u p users"
proof -
  assume ok: "plain_user (u, p)"
  then have "trimCR (u @ CHR '':'' # p) = u @ CHR '':'' # p"
    by (auto simp: trimCR_def plain_user_def)
  moreover have "takeWhile (\<lambda>c. c \<noteq> CHR '':'') (u @ CHR '':'' # p) = u"
    "dropWhile (\<lambda>c. c \<noteq> CHR '':'') (u @ CHR '':'' # p) = CHR '':'' # p"
    using ok by (simp_all add: plain_user_def split_at)
  moreover have "hd (u @ CHR '':'' # p) \<noteq> CHR ''#''" using ok by (cases u) (auto simp: plain_user_def)
  ultimately show ?thesis by (simp add: loadLine_def user_line_def)
qed

lemma fold_loadLine:
  "list_all plain_user ups \<Longrightarrow> map_of (fold loadLine (map user_line ups) users) = map_of users ++ map_of (rev ups)"
proof (induction ups arbitrary: users)
  case (Cons up ups)
  obtain u p where up: "up = (u, p)" by (cases up)
  have "loadLine (user_line up) users = AList.update u p users" using Cons.prems up loadLine_user by simp
  then show ?case using Cons by (simp add: up map_add_upd_left fun_eq_iff map_add_def split: option.split)
qed simp

section \<open>Properties\<close>

text \<open>
  (C32) Loading a file of \<open>user:password\<close> lines admits exactly the users it lists with exactly
  their passwords, the last line of a user counting; in particular \<open>guest\<close> is admitted only if
  listed. Without a file only \<open>guest\<close> with password \<open>guest\<close> is admitted.
\<close>

theorem users_file_decides_access:
  assumes "list_all plain_user ups"
  shows "(verify u p (snd (loadFromFile (Some (users_file ups)) us)) \<longleftrightarrow> map_of (rev ups) u = Some p) \<and>
    (verify u p (snd (loadFromFile None new_UserStore)) \<longleftrightarrow> u = ''guest'' \<and> p = ''guest'')"
  using getlines_file [OF assms] fold_loadLine [OF assms, of "[]"]
  by (auto simp: loadFromFile_def verify_def new_UserStore_def split: option.splits)

theorem users_file_decides_access_witness:
  "let us = snd (loadFromFile (Some (users_file [(''ann'', ''a:b''), (''bob'', ''x'')])) new_UserStore)
   in verify ''ann'' ''a:b'' us \<and> \<not> verify ''guest'' ''guest'' us"
  using users_file_decides_access [of "[(''ann'', ''a:b''), (''bob'', ''x'')]"]
  by (simp add: plain_user_def Let_def)

end
