(* ===== verification/Frames.thy ===== *)
theory Frames
  imports Basic_Properties
begin

text \<open>
  Frames on the wire (\<open>amqp/frame.h\<close>, \<open>amqp/methods.h\<close>) and the senders that channels and
  connections share: a method frame, and the header and body frames of a message, the body
  cut to the negotiated frame size.
\<close>

section \<open>Protocol constants\<close>

named_theorems protocol

definition FRAME_METHOD :: byte where [protocol]: "FRAME_METHOD = 1"
definition FRAME_HEADER :: byte where [protocol]: "FRAME_HEADER = 2"
definition FRAME_BODY :: byte where [protocol]: "FRAME_BODY = 3"
definition FRAME_HEARTBEAT :: byte where [protocol]: "FRAME_HEARTBEAT = 8"
definition FRAME_END :: byte where [protocol]: "FRAME_END = 0xCE"
definition FRAME_HEADER_SIZE :: nat where [protocol]: "FRAME_HEADER_SIZE = 7"
definition FRAME_END_SIZE :: nat where [protocol]: "FRAME_END_SIZE = 1"
definition PROTOCOL_HEADER :: "byte list" where [protocol]: "PROTOCOL_HEADER = [65, 77, 81, 80, 0, 0, 9, 1]"
definition PROTOCOL_HEADER_SIZE :: nat where [protocol]: "PROTOCOL_HEADER_SIZE = 8"

definition class_CONNECTION :: u16 where [protocol]: "class_CONNECTION = 10"
definition class_CHANNEL :: u16 where [protocol]: "class_CHANNEL = 20"
definition class_EXCHANGE :: u16 where [protocol]: "class_EXCHANGE = 40"
definition class_QUEUE :: u16 where [protocol]: "class_QUEUE = 50"
definition class_BASIC :: u16 where [protocol]: "class_BASIC = 60"
definition class_CONFIRM :: u16 where [protocol]: "class_CONFIRM = 85"
definition class_TX :: u16 where [protocol]: "class_TX = 90"

definition connection_START :: u16 where [protocol]: "connection_START = 10"
definition connection_START_OK :: u16 where [protocol]: "connection_START_OK = 11"
definition connection_SECURE :: u16 where [protocol]: "connection_SECURE = 20"
definition connection_SECURE_OK :: u16 where [protocol]: "connection_SECURE_OK = 21"
definition connection_TUNE :: u16 where [protocol]: "connection_TUNE = 30"
definition connection_TUNE_OK :: u16 where [protocol]: "connection_TUNE_OK = 31"
definition connection_OPEN :: u16 where [protocol]: "connection_OPEN = 40"
definition connection_OPEN_OK :: u16 where [protocol]: "connection_OPEN_OK = 41"
definition connection_CLOSE :: u16 where [protocol]: "connection_CLOSE = 50"
definition connection_CLOSE_OK :: u16 where [protocol]: "connection_CLOSE_OK = 51"

definition channel_OPEN :: u16 where [protocol]: "channel_OPEN = 10"
definition channel_OPEN_OK :: u16 where [protocol]: "channel_OPEN_OK = 11"
definition channel_FLOW :: u16 where [protocol]: "channel_FLOW = 20"
definition channel_FLOW_OK :: u16 where [protocol]: "channel_FLOW_OK = 21"
definition channel_CLOSE :: u16 where [protocol]: "channel_CLOSE = 40"
definition channel_CLOSE_OK :: u16 where [protocol]: "channel_CLOSE_OK = 41"

definition exchange_DECLARE :: u16 where [protocol]: "exchange_DECLARE = 10"
definition exchange_DECLARE_OK :: u16 where [protocol]: "exchange_DECLARE_OK = 11"
definition exchange_DELETE :: u16 where [protocol]: "exchange_DELETE = 20"
definition exchange_DELETE_OK :: u16 where [protocol]: "exchange_DELETE_OK = 21"

definition queue_DECLARE :: u16 where [protocol]: "queue_DECLARE = 10"
definition queue_DECLARE_OK :: u16 where [protocol]: "queue_DECLARE_OK = 11"
definition queue_BIND :: u16 where [protocol]: "queue_BIND = 20"
definition queue_BIND_OK :: u16 where [protocol]: "queue_BIND_OK = 21"
definition queue_PURGE :: u16 where [protocol]: "queue_PURGE = 30"
definition queue_PURGE_OK :: u16 where [protocol]: "queue_PURGE_OK = 31"
definition queue_DELETE :: u16 where [protocol]: "queue_DELETE = 40"
definition queue_DELETE_OK :: u16 where [protocol]: "queue_DELETE_OK = 41"
definition queue_UNBIND :: u16 where [protocol]: "queue_UNBIND = 50"
definition queue_UNBIND_OK :: u16 where [protocol]: "queue_UNBIND_OK = 51"

definition basic_QOS :: u16 where [protocol]: "basic_QOS = 10"
definition basic_QOS_OK :: u16 where [protocol]: "basic_QOS_OK = 11"
definition basic_CONSUME :: u16 where [protocol]: "basic_CONSUME = 20"
definition basic_CONSUME_OK :: u16 where [protocol]: "basic_CONSUME_OK = 21"
definition basic_CANCEL :: u16 where [protocol]: "basic_CANCEL = 30"
definition basic_CANCEL_OK :: u16 where [protocol]: "basic_CANCEL_OK = 31"
definition basic_PUBLISH :: u16 where [protocol]: "basic_PUBLISH = 40"
definition basic_RETURN :: u16 where [protocol]: "basic_RETURN = 50"
definition basic_DELIVER :: u16 where [protocol]: "basic_DELIVER = 60"
definition basic_GET :: u16 where [protocol]: "basic_GET = 70"
definition basic_GET_OK :: u16 where [protocol]: "basic_GET_OK = 71"
definition basic_GET_EMPTY :: u16 where [protocol]: "basic_GET_EMPTY = 72"
definition basic_ACK :: u16 where [protocol]: "basic_ACK = 80"
definition basic_REJECT :: u16 where [protocol]: "basic_REJECT = 90"
definition basic_RECOVER_ASYNC :: u16 where [protocol]: "basic_RECOVER_ASYNC = 100"
definition basic_RECOVER :: u16 where [protocol]: "basic_RECOVER = 110"
definition basic_RECOVER_OK :: u16 where [protocol]: "basic_RECOVER_OK = 111"
definition basic_NACK :: u16 where [protocol]: "basic_NACK = 120"

definition confirm_SELECT :: u16 where [protocol]: "confirm_SELECT = 10"
definition confirm_SELECT_OK :: u16 where [protocol]: "confirm_SELECT_OK = 11"

definition tx_SELECT :: u16 where [protocol]: "tx_SELECT = 10"
definition tx_SELECT_OK :: u16 where [protocol]: "tx_SELECT_OK = 11"
definition tx_COMMIT :: u16 where [protocol]: "tx_COMMIT = 20"
definition tx_COMMIT_OK :: u16 where [protocol]: "tx_COMMIT_OK = 21"
definition tx_ROLLBACK :: u16 where [protocol]: "tx_ROLLBACK = 30"
definition tx_ROLLBACK_OK :: u16 where [protocol]: "tx_ROLLBACK_OK = 31"

definition SUCCESS :: u16 where [protocol]: "SUCCESS = 200"
definition CONTENT_TOO_LARGE :: u16 where [protocol]: "CONTENT_TOO_LARGE = 311"
definition NO_ROUTE :: u16 where [protocol]: "NO_ROUTE = 312"
definition NO_CONSUMERS :: u16 where [protocol]: "NO_CONSUMERS = 313"
definition CONNECTION_FORCED :: u16 where [protocol]: "CONNECTION_FORCED = 320"
definition INVALID_PATH :: u16 where [protocol]: "INVALID_PATH = 402"
definition ACCESS_REFUSED :: u16 where [protocol]: "ACCESS_REFUSED = 403"
definition NOT_FOUND :: u16 where [protocol]: "NOT_FOUND = 404"
definition RESOURCE_LOCKED :: u16 where [protocol]: "RESOURCE_LOCKED = 405"
definition PRECONDITION_FAILED :: u16 where [protocol]: "PRECONDITION_FAILED = 406"
definition FRAME_ERROR :: u16 where [protocol]: "FRAME_ERROR = 501"
definition SYNTAX_ERROR :: u16 where [protocol]: "SYNTAX_ERROR = 502"
definition COMMAND_INVALID :: u16 where [protocol]: "COMMAND_INVALID = 503"
definition CHANNEL_ERROR :: u16 where [protocol]: "CHANNEL_ERROR = 504"
definition UNEXPECTED_FRAME :: u16 where [protocol]: "UNEXPECTED_FRAME = 505"
definition RESOURCE_ERROR :: u16 where [protocol]: "RESOURCE_ERROR = 506"
definition NOT_ALLOWED :: u16 where [protocol]: "NOT_ALLOWED = 530"
definition NOT_IMPLEMENTED :: u16 where [protocol]: "NOT_IMPLEMENTED = 540"
definition INTERNAL_ERROR :: u16 where [protocol]: "INTERNAL_ERROR = 541"

section \<open>Frames\<close>

record Frame =
  f_type :: byte
  f_channel :: u16
  f_payload :: "byte list"

text \<open>The five writes that every sender of a frame repeats.\<close>

definition frame_bytes :: "Frame \<Rightarrow> byte list" where
  "frame_bytes f =
     bdata (writeUint8 FRAME_END (writeBytes (f_payload f)
       (writeUint32 (word_of_nat (length (f_payload f)))
         (writeUint16 (f_channel f) (writeUint8 (f_type f) (Buffer_of []))))))"

definition methodFrame :: "u16 \<Rightarrow> u16 \<Rightarrow> u16 \<Rightarrow> (Buffer \<Rightarrow> Buffer) \<Rightarrow> byte list" where
  "methodFrame channel classId methodId writeArgs =
     frame_bytes \<lparr>f_type = FRAME_METHOD, f_channel = channel,
       f_payload = bdata (writeArgs (writeUint16 methodId (writeUint16 classId (Buffer_of []))))\<rparr>"

text \<open>A method without arguments (\<open>nullptr\<close> for \<open>writeArgs\<close>).\<close>

definition no_args :: "Buffer \<Rightarrow> Buffer" where
  [simp]: "no_args b = b"

definition headerFrame :: "u16 \<Rightarrow> u16 \<Rightarrow> BasicProperties \<Rightarrow> byte list \<Rightarrow> byte list" where
  "headerFrame channel classId props body =
     frame_bytes \<lparr>f_type = FRAME_HEADER, f_channel = channel,
       f_payload = bdata (encode props (writeUint64 (word_of_nat (length body))
         (writeUint16 0 (writeUint16 classId (Buffer_of [])))))\<rparr>"

definition bodyFrame :: "u16 \<Rightarrow> byte list \<Rightarrow> byte list" where
  "bodyFrame channel chunk =
     frame_bytes \<lparr>f_type = FRAME_BODY, f_channel = channel, f_payload = chunk\<rparr>"

definition maxBodyPayload :: "u32 \<Rightarrow> nat" where
  "maxBodyPayload frameMax = unat (let m = (if frameMax > 8 then frameMax - 8 else 131064)
                                   in if m = 0 then 131064 else m)"

text \<open>
  The \<open>do\<close> loop over the offset. It makes progress because a payload may hold at least
  one byte; the test of \<open>m\<close> is there because the definition is total.
\<close>

function bodyLoop :: "nat \<Rightarrow> byte list \<Rightarrow> nat \<Rightarrow> byte list list" where
  "bodyLoop m body offset =
     (let chunkSize = min m (length body - offset)
      in take chunkSize (drop offset body) #
         (if offset + chunkSize < length body \<and> 0 < m then bodyLoop m body (offset + chunkSize) else []))"
  by pat_completeness auto
termination by (relation "measure (\<lambda>(m, body, offset). length body - offset)") auto

declare bodyLoop.simps [simp del]

definition contentFrames :: "u16 \<Rightarrow> u32 \<Rightarrow> u16 \<Rightarrow> BasicProperties \<Rightarrow> byte list \<Rightarrow> byte list list" where
  "contentFrames channel frameMax classId props body =
     headerFrame channel classId props body #
     map (bodyFrame channel) (bodyLoop (maxBodyPayload frameMax) body 0) @
     (if body = [] then [bodyFrame channel []] else [])"

section \<open>What the frames hold\<close>

lemma frame_bytes_enc [wire]:
  "frame_bytes f = f_type f # enc16 (f_channel f) @ enc32 (word_of_nat (length (f_payload f))) @
     f_payload f @ [FRAME_END]"
  by (simp add: frame_bytes_def writes_append Buffer_of_def)

lemma length_frame_bytes: "length (frame_bytes f) = length (f_payload f) + 8"
  by (simp add: frame_bytes_enc)

lemma maxBodyPayload_pos: "0 < maxBodyPayload frameMax"
  by (simp add: maxBodyPayload_def Let_def unat_gt_0)

lemma maxBodyPayload_fits: "8 < frameMax \<Longrightarrow> maxBodyPayload frameMax + 8 = unat frameMax"
proof -
  assume "8 < frameMax"
  then have le: "(8 :: u32) \<le> frameMax" and n: "8 < unat frameMax" by (simp_all add: less_imp_le word_less_nat_alt [of 8])
  from unat_sub [OF le] have "unat (frameMax - 8) = unat frameMax - 8" by simp
  moreover from this n have "frameMax - 8 \<noteq> 0" by (metis unat_0 zero_less_diff less_irrefl)
  ultimately show ?thesis using \<open>8 < frameMax\<close> n by (simp add: maxBodyPayload_def)
qed

lemma bodyLoop_chunks:
  assumes "0 < m" "offset \<le> length body"
  shows "concat (bodyLoop m body offset) = drop offset body \<and> (\<forall>c \<in> set (bodyLoop m body offset). length c \<le> m)"
  using assms
proof (induction m body offset rule: bodyLoop.induct)
  case (1 m body offset)
  let ?n = "min m (length body - offset)"
  show ?case
  proof (cases "offset + ?n < length body")
    case True
    then have IH: "concat (bodyLoop m body (offset + ?n)) = drop (offset + ?n) body"
      "\<forall>c \<in> set (bodyLoop m body (offset + ?n)). length c \<le> m"
      using 1 by simp_all
    have step: "bodyLoop m body offset = take ?n (drop offset body) # bodyLoop m body (offset + ?n)"
      using True 1(2) by (subst bodyLoop.simps) (simp only: Let_def if_P simp_thms)
    have "take ?n (drop offset body) @ drop (offset + ?n) body = drop offset body"
      by (metis append_take_drop_id drop_drop add.commute)
    then show ?thesis using IH by (simp add: step)
  next
    case False
    then have "bodyLoop m body offset = [drop offset body]" "length body - offset \<le> m"
      using 1(3) by (subst bodyLoop.simps, auto simp: Let_def)+
    then show ?thesis by simp
  qed
qed

end
