(* ===== verification/Channel.thy ===== *)
theory Channel
  imports Frames Virtual_Host
begin

text \<open>
  Channels (\<open>broker/channel.h\<close>, \<open>broker/channel.cpp\<close>): the methods of the classes exchange,
  queue, basic, confirm and tx, the assembly of published messages from content frames,
  deliveries and acknowledgements. A handler takes the session - the channel, its virtual
  host and the frames handed to \<open>sendFrame_\<close> so far - and returns it changed, together with
  the exception if reading the arguments threw one.
\<close>

section \<open>State\<close>

record PendingPublish =
  pp_exchange :: string
  pp_routing_key :: string
  pp_mandatory :: bool
  pp_immediate :: bool
  pp_bodySize :: u64
  pp_bodyReceived :: u64
  pp_properties :: BasicProperties
  pp_body :: "byte list"

definition new_PendingPublish :: PendingPublish where
  "new_PendingPublish = \<lparr>pp_exchange = [], pp_routing_key = [], pp_mandatory = False, pp_immediate = False,
     pp_bodySize = 0, pp_bodyReceived = 0, pp_properties = no_properties, pp_body = []\<rparr>"

record UnackedMessage =
  ua_message :: addr
  ua_queue_name :: string
  ua_consumer :: "addr option"

text \<open>\<open>ch_self\<close> numbers the channel object, as the closures of consumers refer to it.\<close>

record Channel =
  ch_self :: nat
  ch_id :: u16
  ch_connectionId :: u32
  ch_frameMax :: u32
  ch_open :: bool
  ch_flow :: bool
  ch_confirmMode :: bool
  ch_nextDeliveryTag :: u64
  ch_nextConfirmSeqNo :: u64
  ch_prefetchCount :: u16
  ch_prefetchSize :: u32
  ch_consumers :: "(string \<times> addr) list"
  ch_consumerTagCounter :: u64
  ch_pendingPublish :: "PendingPublish option"
  ch_unackedMessages :: "(u64 \<times> UnackedMessage) list"

definition new_Channel :: "nat \<Rightarrow> u16 \<Rightarrow> u32 \<Rightarrow> u32 \<Rightarrow> Channel" where
  "new_Channel self num connectionId frameMax =
     \<lparr>ch_self = self, ch_id = num, ch_connectionId = connectionId, ch_frameMax = frameMax, ch_open = False,
      ch_flow = True, ch_confirmMode = False, ch_nextDeliveryTag = 1, ch_nextConfirmSeqNo = 1,
      ch_prefetchCount = 0, ch_prefetchSize = 0, ch_consumers = [], ch_consumerTagCounter = 0,
      ch_pendingPublish = None, ch_unackedMessages = []\<rparr>"

definition MAX_BODY_SIZE :: u64 where
  "MAX_BODY_SIZE = 128 * 1024 * 1024"

record Session =
  s_channel :: Channel
  s_host :: VirtualHost
  s_out :: "byte list list"

type_synonym outcome = "amqp_error option \<times> Session"

definition on_channel :: "(Channel \<Rightarrow> Channel) \<Rightarrow> Session \<Rightarrow> Session" where
  "on_channel f s = s\<lparr>s_channel := f (s_channel s)\<rparr>"

definition on_host :: "(VirtualHost \<Rightarrow> VirtualHost) \<Rightarrow> Session \<Rightarrow> Session" where
  "on_host f s = s\<lparr>s_host := f (s_host s)\<rparr>"

text \<open>The arguments are read, then the method runs; dead-lettering may run out of fuel.\<close>

definition receive :: "Session \<Rightarrow> amqp_error + Session \<Rightarrow> outcome" where
  "receive s r = (case r of Inl e \<Rightarrow> (Some e, s) | Inr s' \<Rightarrow> (None, s'))"

definition attempt :: "Session option \<Rightarrow> amqp_error + Session" where
  "attempt r = (case r of None \<Rightarrow> Inl FuelExhausted | Some s' \<Rightarrow> Inr s')"

text \<open>A read in the middle of a handler: an exception leaves the session as it is by then.\<close>

definition reading :: "Session \<Rightarrow> amqp_error + 'a \<Rightarrow> ('a \<Rightarrow> outcome) \<Rightarrow> outcome" where
  "reading s r f = (case r of Inl e \<Rightarrow> (Some e, s) | Inr x \<Rightarrow> f x)"

section \<open>Sending\<close>

definition sendMethodFrame :: "u16 \<Rightarrow> u16 \<Rightarrow> (Buffer \<Rightarrow> Buffer) \<Rightarrow> Session \<Rightarrow> Session" where
  "sendMethodFrame classId methodId writeArgs s =
     s\<lparr>s_out := s_out s @ [methodFrame (ch_id (s_channel s)) classId methodId writeArgs]\<rparr>"

definition sendContentFrames :: "u16 \<Rightarrow> BasicProperties \<Rightarrow> byte list \<Rightarrow> Session \<Rightarrow> Session" where
  "sendContentFrames classId props body s =
     s\<lparr>s_out := s_out s @ contentFrames (ch_id (s_channel s)) (ch_frameMax (s_channel s)) classId props body\<rparr>"

definition sendChannelClose :: "u16 \<Rightarrow> string \<Rightarrow> u16 \<Rightarrow> u16 \<Rightarrow> Session \<Rightarrow> Session" where
  "sendChannelClose replyCode replyText classId methodId =
     sendMethodFrame class_CHANNEL channel_CLOSE (\<lambda>b.
       writeUint16 methodId (writeUint16 classId (writeShortString replyText (writeUint16 replyCode b))))"

definition replyUnless :: "bool \<Rightarrow> u16 \<Rightarrow> u16 \<Rightarrow> (Buffer \<Rightarrow> Buffer) \<Rightarrow> Session \<Rightarrow> Session" where
  "replyUnless noWait classId methodId writeArgs s =
     (if noWait then s else sendMethodFrame classId methodId writeArgs s)"

section \<open>Exchange and queue methods\<close>

definition exchangeDeclare :: "string \<Rightarrow> string \<Rightarrow> byte \<Rightarrow> FieldTable \<Rightarrow> Session \<Rightarrow> Session" where
  "exchangeDeclare exchange type0 bits args s =
     (let isPassive = bit bits 0;
          type = (if type0 = [] \<and> \<not> isPassive then ''direct'' else type0)
      in case declareExchange exchange type isPassive (bit bits 1) (bit bits 2) (bit bits 3) args (s_host s) of
           (Inl (replyCode, replyText), vh) \<Rightarrow>
             sendChannelClose replyCode replyText class_EXCHANGE exchange_DECLARE (s\<lparr>s_host := vh\<rparr>)
         | (Inr ex, vh) \<Rightarrow>
             replyUnless (bit bits 4) class_EXCHANGE exchange_DECLARE_OK no_args (s\<lparr>s_host := vh\<rparr>))"

definition handleExchangeDeclare :: "Buffer \<Rightarrow> Session \<Rightarrow> outcome" where
  "handleExchangeDeclare buf s = receive s (
     bindE (readUint16 buf) (\<lambda>(reserved, buf).
     bindE (readShortString buf) (\<lambda>(exchange, buf).
     bindE (readShortString buf) (\<lambda>(type, buf).
     bindE (readUint8 buf) (\<lambda>(bits, buf).
     bindE (readFieldTable buf) (\<lambda>(args, buf).
     Inr (exchangeDeclare exchange type bits args s)))))))"

definition exchangeDelete :: "string \<Rightarrow> byte \<Rightarrow> Session \<Rightarrow> Session" where
  "exchangeDelete exchange bits s =
     (case deleteExchange exchange (bit bits 0) (s_host s) of
        (Inl (replyCode, replyText), vh) \<Rightarrow>
          sendChannelClose replyCode replyText class_EXCHANGE exchange_DELETE (s\<lparr>s_host := vh\<rparr>)
      | (Inr _, vh) \<Rightarrow>
          replyUnless (bit bits 1) class_EXCHANGE exchange_DELETE_OK no_args (s\<lparr>s_host := vh\<rparr>))"

definition handleExchangeDelete :: "Buffer \<Rightarrow> Session \<Rightarrow> outcome" where
  "handleExchangeDelete buf s = receive s (
     bindE (readUint16 buf) (\<lambda>(reserved, buf).
     bindE (readShortString buf) (\<lambda>(exchange, buf).
     bindE (readUint8 buf) (\<lambda>(bits, buf).
     Inr (exchangeDelete exchange bits s)))))"

definition queueCounts :: "string \<Rightarrow> VirtualHost \<Rightarrow> u32 \<times> u32" where
  "queueCounts qname vh =
     (case findQueue qname vh of None \<Rightarrow> (0, 0) | Some q \<Rightarrow> (messageCount q, consumerCount q))"

definition queueDeclare :: "string \<Rightarrow> byte \<Rightarrow> FieldTable \<Rightarrow> Session \<Rightarrow> Session" where
  "queueDeclare queue bits args s =
     (case declareQueue queue (bit bits 0) (bit bits 1) (bit bits 2) (bit bits 3) args
             (ch_connectionId (s_channel s)) (s_host s) of
        (Inl (replyCode, replyText), vh) \<Rightarrow>
          sendChannelClose replyCode replyText class_QUEUE queue_DECLARE (s\<lparr>s_host := vh\<rparr>)
      | (Inr (qname, created), vh) \<Rightarrow>
          replyUnless (bit bits 4) class_QUEUE queue_DECLARE_OK (\<lambda>b.
            let (messages, consumers) = queueCounts qname vh
            in writeUint32 consumers (writeUint32 messages (writeShortString qname b))) (s\<lparr>s_host := vh\<rparr>))"

definition handleQueueDeclare :: "Buffer \<Rightarrow> Session \<Rightarrow> outcome" where
  "handleQueueDeclare buf s = receive s (
     bindE (readUint16 buf) (\<lambda>(reserved, buf).
     bindE (readShortString buf) (\<lambda>(queue, buf).
     bindE (readUint8 buf) (\<lambda>(bits, buf).
     bindE (readFieldTable buf) (\<lambda>(args, buf).
     Inr (queueDeclare queue bits args s))))))"

definition queueBind :: "string \<Rightarrow> string \<Rightarrow> string \<Rightarrow> byte \<Rightarrow> FieldTable \<Rightarrow> Session \<Rightarrow> Session" where
  "queueBind queue exchange routingKey bits args s =
     (case bindQueue queue exchange routingKey args (s_host s) of
        (Inl (replyCode, replyText), vh) \<Rightarrow>
          sendChannelClose replyCode replyText class_QUEUE queue_BIND (s\<lparr>s_host := vh\<rparr>)
      | (Inr _, vh) \<Rightarrow> replyUnless (bit bits 0) class_QUEUE queue_BIND_OK no_args (s\<lparr>s_host := vh\<rparr>))"

definition handleQueueBind :: "Buffer \<Rightarrow> Session \<Rightarrow> outcome" where
  "handleQueueBind buf s = receive s (
     bindE (readUint16 buf) (\<lambda>(reserved, buf).
     bindE (readShortString buf) (\<lambda>(queue, buf).
     bindE (readShortString buf) (\<lambda>(exchange, buf).
     bindE (readShortString buf) (\<lambda>(routingKey, buf).
     bindE (readUint8 buf) (\<lambda>(bits, buf).
     bindE (readFieldTable buf) (\<lambda>(args, buf).
     Inr (queueBind queue exchange routingKey bits args s))))))))"

definition queueUnbind :: "string \<Rightarrow> string \<Rightarrow> string \<Rightarrow> FieldTable \<Rightarrow> Session \<Rightarrow> Session" where
  "queueUnbind queue exchange routingKey args s =
     (case unbindQueue queue exchange routingKey args (s_host s) of
        (Inl (replyCode, replyText), vh) \<Rightarrow>
          sendChannelClose replyCode replyText class_QUEUE queue_UNBIND (s\<lparr>s_host := vh\<rparr>)
      | (Inr _, vh) \<Rightarrow> sendMethodFrame class_QUEUE queue_UNBIND_OK no_args (s\<lparr>s_host := vh\<rparr>))"

definition handleQueueUnbind :: "Buffer \<Rightarrow> Session \<Rightarrow> outcome" where
  "handleQueueUnbind buf s = receive s (
     bindE (readUint16 buf) (\<lambda>(reserved, buf).
     bindE (readShortString buf) (\<lambda>(queue, buf).
     bindE (readShortString buf) (\<lambda>(exchange, buf).
     bindE (readShortString buf) (\<lambda>(routingKey, buf).
     bindE (readFieldTable buf) (\<lambda>(args, buf).
     Inr (queueUnbind queue exchange routingKey args s)))))))"

definition queuePurge :: "string \<Rightarrow> byte \<Rightarrow> Session \<Rightarrow> Session" where
  "queuePurge queue bits s =
     (case purgeQueue queue (s_host s) of
        (None, vh) \<Rightarrow> sendChannelClose NOT_FOUND (quoted ''queue'' queue) class_QUEUE queue_PURGE s
      | (Some n, vh) \<Rightarrow>
          replyUnless (bit bits 0) class_QUEUE queue_PURGE_OK (writeUint32 n) (s\<lparr>s_host := vh\<rparr>))"

definition handleQueuePurge :: "Buffer \<Rightarrow> Session \<Rightarrow> outcome" where
  "handleQueuePurge buf s = receive s (
     bindE (readUint16 buf) (\<lambda>(reserved, buf).
     bindE (readShortString buf) (\<lambda>(queue, buf).
     bindE (readUint8 buf) (\<lambda>(bits, buf).
     Inr (queuePurge queue bits s)))))"

definition queueDelete :: "string \<Rightarrow> byte \<Rightarrow> Session \<Rightarrow> Session" where
  "queueDelete queue bits s =
     (case deleteQueue queue (bit bits 0) (bit bits 1) (s_host s) of
        (Inl (replyCode, replyText), vh) \<Rightarrow>
          sendChannelClose replyCode replyText class_QUEUE queue_DELETE (s\<lparr>s_host := vh\<rparr>)
      | (Inr n, vh) \<Rightarrow>
          replyUnless (bit bits 2) class_QUEUE queue_DELETE_OK (writeUint32 n) (s\<lparr>s_host := vh\<rparr>))"

definition handleQueueDelete :: "Buffer \<Rightarrow> Session \<Rightarrow> outcome" where
  "handleQueueDelete buf s = receive s (
     bindE (readUint16 buf) (\<lambda>(reserved, buf).
     bindE (readShortString buf) (\<lambda>(queue, buf).
     bindE (readUint8 buf) (\<lambda>(bits, buf).
     Inr (queueDelete queue bits s)))))"

section \<open>Consumers\<close>

text \<open>\<open>basic.qos\<close> stores each value as it reads it.\<close>

definition handleBasicQos :: "Buffer \<Rightarrow> Session \<Rightarrow> outcome" where
  "handleBasicQos buf s =
     reading s (readUint32 buf) (\<lambda>(sz, buf).
     let s1 = on_channel (\<lambda>ch. ch\<lparr>ch_prefetchSize := sz\<rparr>) s in
     reading s1 (readUint16 buf) (\<lambda>(cnt, buf).
     let s2 = on_channel (\<lambda>ch. ch\<lparr>ch_prefetchCount := cnt\<rparr>) s1 in
     reading s2 (readUint8 buf) (\<lambda>(global, buf).
     (None, sendMethodFrame class_BASIC basic_QOS_OK no_args s2))))"

definition chooseTag :: "string \<Rightarrow> Session \<Rightarrow> string \<times> Session" where
  "chooseTag tag s =
     (if tag = [] then
        let n = ch_consumerTagCounter (s_channel s) + 1;
            s1 = on_channel (\<lambda>ch. ch\<lparr>ch_consumerTagCounter := n\<rparr>) s
        in (''amq.ctag-'' @ show_nat (unat (ch_connectionId (s_channel s))) @ ''-'' @
            show_nat (unat (ch_id (s_channel s))) @ ''-'' @ show_nat (unat n), s1)
      else (tag, s))"

definition new_consumer :: "string \<Rightarrow> string \<Rightarrow> byte \<Rightarrow> Channel \<Rightarrow> Consumer" where
  "new_consumer tag queue bits ch =
     \<lparr>c_tag = tag, c_queue_name = queue, c_no_local = bit bits 0, c_no_ack = bit bits 1,
      c_exclusive = bit bits 2, c_channel_id = ch_id ch, c_connection_id = ch_connectionId ch,
      c_prefetch_count = ch_prefetchCount ch, c_in_flight = 0,
      c_on_deliver = Some (ch_self ch, queue)\<rparr>"

definition basicConsume :: "string \<Rightarrow> string \<Rightarrow> byte \<Rightarrow> FieldTable \<Rightarrow> Session \<Rightarrow> Session" where
  "basicConsume queue consumerTag bits args s =
     (if findQueue queue (s_host s) = None
      then sendChannelClose NOT_FOUND (quoted ''queue'' queue) class_BASIC basic_CONSUME s
      else
        let (tag, s1) = chooseTag consumerTag s;
            (ci, h) = alloc_con (new_consumer tag queue bits (s_channel s1)) (vh_heap (s_host s1));
            s2 = on_host (\<lambda>vh. vh\<lparr>vh_heap := h\<rparr>) s1;
            s3 = on_channel (\<lambda>ch. ch\<lparr>ch_consumers := AList.update tag ci (ch_consumers ch)\<rparr>) s2;
            s4 = replyUnless (bit bits 3) class_BASIC basic_CONSUME_OK (writeShortString tag) s3
        in on_host (addConsumerTo queue ci) s4)"

definition handleBasicConsume :: "Buffer \<Rightarrow> Session \<Rightarrow> outcome" where
  "handleBasicConsume buf s = receive s (
     bindE (readUint16 buf) (\<lambda>(reserved, buf).
     bindE (readShortString buf) (\<lambda>(queue, buf).
     bindE (readShortString buf) (\<lambda>(consumerTag, buf).
     bindE (readUint8 buf) (\<lambda>(bits, buf).
     bindE (readFieldTable buf) (\<lambda>(args, buf).
     Inr (basicConsume queue consumerTag bits args s)))))))"

text \<open>Taking a consumer of the channel off its queue, if the queue is still there.\<close>

definition detachConsumer :: "string \<Rightarrow> addr \<Rightarrow> VirtualHost \<Rightarrow> VirtualHost" where
  "detachConsumer tag ci vh = removeConsumerFrom (c_queue_name (con_at (vh_heap vh) ci)) tag vh"

definition basicCancel :: "string \<Rightarrow> byte \<Rightarrow> Session \<Rightarrow> Session" where
  "basicCancel consumerTag bits s =
     (let s1 = (case map_of (ch_consumers (s_channel s)) consumerTag of
                  None \<Rightarrow> s
                | Some ci \<Rightarrow> on_channel (\<lambda>ch. ch\<lparr>ch_consumers := AList.delete consumerTag (ch_consumers ch)\<rparr>)
                               (on_host (detachConsumer consumerTag ci) s))
      in replyUnless (bit bits 0) class_BASIC basic_CANCEL_OK (writeShortString consumerTag) s1)"

definition handleBasicCancel :: "Buffer \<Rightarrow> Session \<Rightarrow> outcome" where
  "handleBasicCancel buf s = receive s (
     bindE (readShortString buf) (\<lambda>(consumerTag, buf).
     bindE (readUint8 buf) (\<lambda>(bits, buf).
     Inr (basicCancel consumerTag bits s))))"

section \<open>Publishing\<close>

definition basicPublish :: "string \<Rightarrow> string \<Rightarrow> byte \<Rightarrow> Session \<Rightarrow> Session" where
  "basicPublish exchange routingKey bits s =
     (if bit bits 1 then
        sendChannelClose NOT_IMPLEMENTED ''immediate=true is not supported'' class_BASIC basic_PUBLISH s
      else on_channel (\<lambda>ch. ch\<lparr>ch_pendingPublish := Some (new_PendingPublish\<lparr>pp_exchange := exchange,
             pp_routing_key := routingKey, pp_mandatory := bit bits 0\<rparr>)\<rparr>) s)"

definition handleBasicPublish :: "Buffer \<Rightarrow> Session \<Rightarrow> outcome" where
  "handleBasicPublish buf s = receive s (
     bindE (readUint16 buf) (\<lambda>(reserved, buf).
     bindE (readShortString buf) (\<lambda>(exchange, buf).
     bindE (readShortString buf) (\<lambda>(routingKey, buf).
     bindE (readUint8 buf) (\<lambda>(bits, buf).
     Inr (basicPublish exchange routingKey bits s))))))"

definition persistMessage :: "string \<Rightarrow> addr \<Rightarrow> VirtualHost \<Rightarrow> VirtualHost" where
  "persistMessage qname a vh =
     (let m = msg_at (vh_heap vh) a in
      case vh_store vh of
        None \<Rightarrow> vh
      | Some store \<Rightarrow>
          if isPersistent m then
            (case findQueue qname vh of
               None \<Rightarrow> vh
             | Some q \<Rightarrow>
                 if q_durable q then
                   let (i, store') = storeMessage qname m store
                   in vh\<lparr>vh_store := Some store', vh_heap := put_msg a (m\<lparr>m_wal_id := i\<rparr>) (vh_heap vh)\<rparr>
                 else vh)
          else vh)"

text \<open>The loop over the routed queues; with more than one queue each gets its own copy.\<close>

fun publishLoop :: "bool \<Rightarrow> string list \<Rightarrow> addr \<Rightarrow> VirtualHost \<Rightarrow> VirtualHost option" where
  "publishLoop several [] a vh = Some vh"
| "publishLoop several (qname # qnames) a vh =
     (let (c, h) = (if several then alloc_msg (msg_at (vh_heap vh) a) (vh_heap vh) else (a, vh_heap vh));
          vh1 = persistMessage qname c (vh\<lparr>vh_heap := h\<rparr>)
      in do { vh2 \<leftarrow> deliverToQueue (onDeadLetter vh1) qname c vh1; publishLoop several qnames a vh2 })"

definition published :: "PendingPublish \<Rightarrow> u32 \<Rightarrow> Message" where
  "published p connectionId = new_Message\<lparr>m_exchange := pp_exchange p, m_routing_key := pp_routing_key p,
     m_mandatory := pp_mandatory p, m_immediate := pp_immediate p, m_properties := pp_properties p,
     m_body := pp_body p, m_source_connection_id := connectionId\<rparr>"

definition confirmPublish :: "Session \<Rightarrow> Session" where
  "confirmPublish s =
     (if ch_confirmMode (s_channel s) then
        let seqNo = ch_nextConfirmSeqNo (s_channel s)
        in sendMethodFrame class_BASIC basic_ACK (\<lambda>b. writeUint8 0 (writeUint64 seqNo b))
             (on_channel (\<lambda>ch. ch\<lparr>ch_nextConfirmSeqNo := seqNo + 1\<rparr>) s)
      else s)"

definition completePublish :: "PendingPublish \<Rightarrow> Session \<Rightarrow> Session option" where
  "completePublish p s =
     (let m = published p (ch_connectionId (s_channel s));
          (a, h) = alloc_msg m (vh_heap (s_host s));
          s1 = on_host (\<lambda>vh. vh\<lparr>vh_heap := h\<rparr>) s;
          queues = routeMessage (m_exchange m) (m_routing_key m) (headers (m_properties m)) (s_host s1)
      in do {
           s2 \<leftarrow> (if queues = [] \<and> m_mandatory m then
                   Some (sendContentFrames class_BASIC (m_properties m) (m_body m)
                     (sendMethodFrame class_BASIC basic_RETURN (\<lambda>b.
                        writeShortString (m_routing_key m) (writeShortString (m_exchange m)
                          (writeShortString ''NO_ROUTE'' (writeUint16 NO_ROUTE b)))) s1))
                 else map_option (\<lambda>vh. s1\<lparr>s_host := vh\<rparr>) (publishLoop (length queues > 1) queues a (s_host s1)));
           Some (on_channel (\<lambda>ch. ch\<lparr>ch_pendingPublish := None\<rparr>) (confirmPublish s2)) })"

definition handleContentBody :: "byte list \<Rightarrow> Session \<Rightarrow> outcome" where
  "handleContentBody data s =
     (case ch_pendingPublish (s_channel s) of
        None \<Rightarrow> (None, s)
      | Some p0 \<Rightarrow>
          let p = p0\<lparr>pp_body := pp_body p0 @ data, pp_bodyReceived := pp_bodyReceived p0 + word_of_nat (length data)\<rparr>;
              s1 = on_channel (\<lambda>ch. ch\<lparr>ch_pendingPublish := Some p\<rparr>) s
          in if pp_bodyReceived p \<ge> pp_bodySize p then receive s1 (attempt (completePublish p s1)) else (None, s1))"

definition handleContentHeader :: "Buffer \<Rightarrow> Session \<Rightarrow> outcome" where
  "handleContentHeader buf s =
     (case ch_pendingPublish (s_channel s) of
        None \<Rightarrow> (None, s)
      | Some p \<Rightarrow>
          reading s (readUint16 buf) (\<lambda>(classId, buf).
          reading s (readUint16 buf) (\<lambda>(weight, buf).
          reading s (readUint64 buf) (\<lambda>(bodySize, buf).
          if bodySize > MAX_BODY_SIZE then
            (None, sendChannelClose CONTENT_TOO_LARGE ''Message body exceeds maximum size''
                     class_BASIC basic_PUBLISH (on_channel (\<lambda>ch. ch\<lparr>ch_pendingPublish := None\<rparr>) s))
          else
            let p1 = p\<lparr>pp_bodySize := bodySize\<rparr>;
                s1 = on_channel (\<lambda>ch. ch\<lparr>ch_pendingPublish := Some p1\<rparr>) s
            in reading s1 (decode buf) (\<lambda>(props, buf).
               let s2 = on_channel (\<lambda>ch. ch\<lparr>ch_pendingPublish := Some (p1\<lparr>pp_properties := props\<rparr>)\<rparr>) s
               in if bodySize = 0 then handleContentBody [] s2 else (None, s2))))))"

section \<open>Deliveries\<close>

definition deliverMessage :: "DeliveryTask \<Rightarrow> Session \<Rightarrow> Session" where
  "deliverMessage t s =
     (let deliveryTag = ch_nextDeliveryTag (s_channel s);
          s1 = on_channel (\<lambda>ch. ch\<lparr>ch_nextDeliveryTag := deliveryTag + 1\<rparr>) s;
          s2 = (case map_of (ch_consumers (s_channel s)) (t_tag t) of
                  None \<Rightarrow> s1
                | Some ci \<Rightarrow>
                    if c_no_ack (con_at (vh_heap (s_host s)) ci) then s1
                    else on_channel (\<lambda>ch. ch\<lparr>ch_unackedMessages := AList.update deliveryTag
                           \<lparr>ua_message = t_msg t, ua_queue_name = t_queue t, ua_consumer = Some ci\<rparr> (ch_unackedMessages ch)\<rparr>) s1)
      in sendContentFrames class_BASIC (t_props t) (t_body t)
           (sendMethodFrame class_BASIC basic_DELIVER (\<lambda>b.
              writeShortString (t_routing_key t) (writeShortString (t_exchange t)
                (writeUint8 (if t_redelivered t then 1 else 0)
                  (writeUint64 deliveryTag (writeShortString (t_tag t) b))))) s2))"

text \<open>The task posted to the strand: nothing happens once the channel is closed.\<close>

definition runDelivery :: "DeliveryTask \<Rightarrow> Session \<Rightarrow> Session" where
  "runDelivery t s = (if ch_open (s_channel s) then deliverMessage t s else s)"

definition basicGet :: "string \<Rightarrow> byte \<Rightarrow> Session \<Rightarrow> Session option" where
  "basicGet queue bits s =
     (if findQueue queue (s_host s) = None
      then Some (sendChannelClose NOT_FOUND (quoted ''queue'' queue) class_BASIC basic_GET s)
      else do {
        (r, vh) \<leftarrow> getMessage (onDeadLetter (s_host s)) queue (s_host s);
        let s1 = s\<lparr>s_host := vh\<rparr>;
        Some (case r of
            None \<Rightarrow> sendMethodFrame class_BASIC basic_GET_EMPTY (writeShortString []) s1
          | Some a \<Rightarrow>
              let m = msg_at (vh_heap vh) a;
                  deliveryTag = ch_nextDeliveryTag (s_channel s);
                  s2 = on_channel (\<lambda>ch. ch\<lparr>ch_nextDeliveryTag := deliveryTag + 1\<rparr>) s1;
                  s3 = (if bit bits 0 then s2
                        else on_channel (\<lambda>ch. ch\<lparr>ch_unackedMessages := AList.update deliveryTag
                               \<lparr>ua_message = a, ua_queue_name = queue, ua_consumer = None\<rparr> (ch_unackedMessages ch)\<rparr>) s2)
              in sendContentFrames class_BASIC (m_properties m) (m_body m)
                   (sendMethodFrame class_BASIC basic_GET_OK (\<lambda>b.
                      writeUint32 (fst (queueCounts queue vh)) (writeShortString (m_routing_key m)
                        (writeShortString (m_exchange m) (writeUint8 (if m_redelivered m then 1 else 0)
                          (writeUint64 deliveryTag b))))) s3)) })"

definition handleBasicGet :: "Buffer \<Rightarrow> Session \<Rightarrow> outcome" where
  "handleBasicGet buf s = receive s (
     bindE (readUint16 buf) (\<lambda>(reserved, buf).
     bindE (readShortString buf) (\<lambda>(queue, buf).
     bindE (readUint8 buf) (\<lambda>(bits, buf).
     attempt (basicGet queue bits s)))))"

section \<open>Acknowledgements\<close>

definition releaseCredit :: "addr option \<Rightarrow> VirtualHost \<Rightarrow> VirtualHost" where
  "releaseCredit co vh =
     (case co of
        None \<Rightarrow> vh
      | Some ci \<Rightarrow> vh\<lparr>vh_heap := put_con ci ((con_at (vh_heap vh) ci)\<lparr>c_in_flight :=
                        c_in_flight (con_at (vh_heap vh) ci) - 1\<rparr>) (vh_heap vh)\<rparr>)"

definition persistAck :: "UnackedMessage \<Rightarrow> VirtualHost \<Rightarrow> VirtualHost" where
  "persistAck u vh0 =
     (let vh = releaseCredit (ua_consumer u) vh0;
          m = msg_at (vh_heap vh) (ua_message u)
      in if \<not> isPersistent m \<or> vh_store vh = None then vh
         else case findQueue (ua_queue_name u) vh of
                None \<Rightarrow> vh
              | Some q \<Rightarrow>
                  if q_durable q \<and> m_wal_id m \<noteq> 0
                  then log_store (storeAck (ua_queue_name u) (m_wal_id m)) vh
                  else vh)"

text \<open>\<open>reject(tag, true, message)\<close> on the queue of an unacknowledged message.\<close>

definition requeueMessage :: "string \<Rightarrow> addr \<Rightarrow> VirtualHost \<Rightarrow> VirtualHost" where
  "requeueMessage qname a vh =
     (case findQueue qname vh of
        None \<Rightarrow> vh
      | Some q \<Rightarrow> (case requeueLocked a (vh_heap vh) q of (h, q') \<Rightarrow> put_queue qname h q' vh))"

lemma rejectMessage_requeue: "rejectMessage fn qname True a vh = Some (requeueMessage qname a vh)"
  by (simp add: rejectMessage_def requeueMessage_def findQueue_def split: option.split prod.split)

definition requeueUnackedMessages :: "Session \<Rightarrow> Session" where
  "requeueUnackedMessages s =
     on_channel (\<lambda>ch. ch\<lparr>ch_unackedMessages := []\<rparr>)
       (on_host (fold (\<lambda>(tag, u) vh. requeueMessage (ua_queue_name u) (ua_message u)
            (releaseCredit (ua_consumer u) vh)) (ch_unackedMessages (s_channel s))) s)"

definition removeAllConsumers :: "Session \<Rightarrow> Session" where
  "removeAllConsumers s =
     requeueUnackedMessages
       (on_channel (\<lambda>ch. ch\<lparr>ch_consumers := []\<rparr>)
         (on_host (fold (\<lambda>(tag, ci). detachConsumer tag ci) (ch_consumers (s_channel s))) s))"

definition ackOne :: "u64 \<Rightarrow> Session \<Rightarrow> Session" where
  "ackOne tag s =
     (case map_of (ch_unackedMessages (s_channel s)) tag of
        None \<Rightarrow> s
      | Some u \<Rightarrow> on_channel (\<lambda>ch. ch\<lparr>ch_unackedMessages := AList.delete tag (ch_unackedMessages ch)\<rparr>) (on_host (persistAck u) s))"

definition tagsUpTo :: "u64 \<Rightarrow> Session \<Rightarrow> u64 list" where
  "tagsUpTo deliveryTag s = filter (\<lambda>tag. tag \<le> deliveryTag) (map fst (ch_unackedMessages (s_channel s)))"

definition basicAck :: "u64 \<Rightarrow> byte \<Rightarrow> Session \<Rightarrow> Session" where
  "basicAck deliveryTag bits s =
     (if bit bits 0 then fold ackOne (tagsUpTo deliveryTag s) s else ackOne deliveryTag s)"

definition handleBasicAck :: "Buffer \<Rightarrow> Session \<Rightarrow> outcome" where
  "handleBasicAck buf s = receive s (
     bindE (readUint64 buf) (\<lambda>(deliveryTag, buf).
     bindE (readUint8 buf) (\<lambda>(bits, buf).
     Inr (basicAck deliveryTag bits s))))"

definition rejectOne :: "bool \<Rightarrow> u64 \<Rightarrow> Session \<Rightarrow> Session option" where
  "rejectOne requeue tag s =
     (case map_of (ch_unackedMessages (s_channel s)) tag of
        None \<Rightarrow> Some s
      | Some u \<Rightarrow>
          let s1 = (if requeue then s else on_host (persistAck u) s)
          in map_option (\<lambda>vh. on_channel (\<lambda>ch. ch\<lparr>ch_unackedMessages := AList.delete tag (ch_unackedMessages ch)\<rparr>) (s1\<lparr>s_host := vh\<rparr>))
               (rejectMessage (onDeadLetter (s_host s1)) (ua_queue_name u) requeue (ua_message u) (s_host s1)))"

fun rejectAll :: "bool \<Rightarrow> u64 list \<Rightarrow> Session \<Rightarrow> Session option" where
  "rejectAll requeue [] s = Some s"
| "rejectAll requeue (tag # tags) s = do { s1 \<leftarrow> rejectOne requeue tag s; rejectAll requeue tags s1 }"

definition handleBasicReject :: "Buffer \<Rightarrow> Session \<Rightarrow> outcome" where
  "handleBasicReject buf s = receive s (
     bindE (readUint64 buf) (\<lambda>(deliveryTag, buf).
     bindE (readUint8 buf) (\<lambda>(bits, buf).
     attempt (rejectOne (bit bits 0) deliveryTag s))))"

definition basicNack :: "u64 \<Rightarrow> byte \<Rightarrow> Session \<Rightarrow> Session option" where
  "basicNack deliveryTag bits s =
     rejectAll (bit bits 1) (if bit bits 0 then tagsUpTo deliveryTag s else [deliveryTag]) s"

definition handleBasicNack :: "Buffer \<Rightarrow> Session \<Rightarrow> outcome" where
  "handleBasicNack buf s = receive s (
     bindE (readUint64 buf) (\<lambda>(deliveryTag, buf).
     bindE (readUint8 buf) (\<lambda>(bits, buf).
     attempt (basicNack deliveryTag bits s))))"

definition basicRecover :: "byte \<Rightarrow> Session \<Rightarrow> Session" where
  "basicRecover bits s =
     (let s1 = (if bit bits 0 then
                  on_host (fold (\<lambda>(tag, u). requeueMessage (ua_queue_name u) (ua_message u))
                    (ch_unackedMessages (s_channel s))) s
                else s)
      in sendMethodFrame class_BASIC basic_RECOVER_OK no_args
           (on_channel (\<lambda>ch. ch\<lparr>ch_unackedMessages := []\<rparr>) s1))"

definition handleBasicRecover :: "Buffer \<Rightarrow> Session \<Rightarrow> outcome" where
  "handleBasicRecover buf s = receive s (
     bindE (readUint8 buf) (\<lambda>(bits, buf). Inr (basicRecover bits s)))"

section \<open>Confirms and transactions\<close>

definition confirmSelect :: "byte \<Rightarrow> Session \<Rightarrow> Session" where
  "confirmSelect bits s =
     replyUnless (bit bits 0) class_CONFIRM confirm_SELECT_OK no_args
       (on_channel (\<lambda>ch. ch\<lparr>ch_confirmMode := True, ch_nextConfirmSeqNo := 1\<rparr>) s)"

definition handleConfirmSelect :: "Buffer \<Rightarrow> Session \<Rightarrow> outcome" where
  "handleConfirmSelect buf s = receive s (
     bindE (readUint8 buf) (\<lambda>(bits, buf). Inr (confirmSelect bits s)))"

definition handleTxSelect :: "Buffer \<Rightarrow> Session \<Rightarrow> outcome" where
  "handleTxSelect buf s = (None, sendMethodFrame class_TX tx_SELECT_OK no_args s)"

definition handleTxCommit :: "Buffer \<Rightarrow> Session \<Rightarrow> outcome" where
  "handleTxCommit buf s = (None, sendMethodFrame class_TX tx_COMMIT_OK no_args s)"

definition handleTxRollback :: "Buffer \<Rightarrow> Session \<Rightarrow> outcome" where
  "handleTxRollback buf s = (None, sendMethodFrame class_TX tx_ROLLBACK_OK no_args s)"

section \<open>Dispatch\<close>

definition notImplemented :: "u16 \<Rightarrow> u16 \<Rightarrow> Session \<Rightarrow> Session" where
  "notImplemented classId methodId =
     sendChannelClose NOT_IMPLEMENTED
       (''Method not implemented: '' @ show_nat (unat classId) @ ''.'' @ show_nat (unat methodId))
       classId methodId"

definition handleMethod :: "u16 \<Rightarrow> u16 \<Rightarrow> Buffer \<Rightarrow> Session \<Rightarrow> outcome" where
  "handleMethod classId methodId buf s =
     (if classId = class_EXCHANGE \<and> methodId = exchange_DECLARE then handleExchangeDeclare buf s
      else if classId = class_EXCHANGE \<and> methodId = exchange_DELETE then handleExchangeDelete buf s
      else if classId = class_QUEUE \<and> methodId = queue_DECLARE then handleQueueDeclare buf s
      else if classId = class_QUEUE \<and> methodId = queue_BIND then handleQueueBind buf s
      else if classId = class_QUEUE \<and> methodId = queue_UNBIND then handleQueueUnbind buf s
      else if classId = class_QUEUE \<and> methodId = queue_PURGE then handleQueuePurge buf s
      else if classId = class_QUEUE \<and> methodId = queue_DELETE then handleQueueDelete buf s
      else if classId = class_BASIC \<and> methodId = basic_QOS then handleBasicQos buf s
      else if classId = class_BASIC \<and> methodId = basic_CONSUME then handleBasicConsume buf s
      else if classId = class_BASIC \<and> methodId = basic_CANCEL then handleBasicCancel buf s
      else if classId = class_BASIC \<and> methodId = basic_PUBLISH then handleBasicPublish buf s
      else if classId = class_BASIC \<and> methodId = basic_GET then handleBasicGet buf s
      else if classId = class_BASIC \<and> methodId = basic_ACK then handleBasicAck buf s
      else if classId = class_BASIC \<and> methodId = basic_REJECT then handleBasicReject buf s
      else if classId = class_BASIC \<and> methodId = basic_RECOVER then handleBasicRecover buf s
      else if classId = class_BASIC \<and> methodId = basic_RECOVER_ASYNC then handleBasicRecover buf s
      else if classId = class_BASIC \<and> methodId = basic_NACK then handleBasicNack buf s
      else if classId = class_CONFIRM \<and> methodId = confirm_SELECT then handleConfirmSelect buf s
      else if classId = class_TX \<and> methodId = tx_SELECT then handleTxSelect buf s
      else if classId = class_TX \<and> methodId = tx_COMMIT then handleTxCommit buf s
      else if classId = class_TX \<and> methodId = tx_ROLLBACK then handleTxRollback buf s
      else (None, notImplemented classId methodId s))"

end
