(* ===== verification/Connection.thy ===== *)
theory Connection
  imports User_Store Channel
begin

text \<open>
  Connections (\<open>broker/connection.h\<close>, \<open>broker/connection.cpp\<close>): the handshake, the reading of
  frames, the dispatch of methods to channels, the write queue, heartbeats and shutdown. Boost.Asio
  calls back when an asynchronous operation completes; each callback is one function of the
  model, and the state records which operations are outstanding.
\<close>

section \<open>State\<close>

datatype State = AWAITING_PROTOCOL_HEADER | AWAITING_START_OK | AWAITING_TUNE_OK | AWAITING_OPEN
  | OPEN | CLOSING | CLOSED

text \<open>The read that is outstanding on the socket, if any.\<close>

datatype Reading = ReadProtocolHeader | ReadFrameHeader | ReadFramePayload byte u16 u32 | NoRead

text \<open>
  \<open>co_inflight\<close> is the frame given to \<open>async_write\<close>, \<open>co_sent\<close> the frames written before it;
  the two timer fields say whether the timer is running.
\<close>

record Connection =
  co_id :: u32
  co_state :: State
  co_channelMax :: u16
  co_frameMax :: u32
  co_heartbeatInterval :: u16
  co_channels :: "(u16 \<times> Channel) list"
  co_read :: Reading
  co_writeQueue :: "byte list list"
  co_writing :: bool
  co_inflight :: "byte list option"
  co_sent :: "byte list list"
  co_receivedData :: bool
  co_heartbeatTimer :: bool
  co_heartbeatCheckTimer :: bool
  co_authUser :: string
  co_peerAddress :: string
  co_connectedAtMs :: int
  co_userStore :: "UserStore option"

definition HARD_FRAME_MAX :: u32 where
  "HARD_FRAME_MAX = 16 * 1024 * 1024"

text \<open>The address and the time come from the operating system.\<close>

definition new_Connection :: "u32 \<Rightarrow> UserStore option \<Rightarrow> string \<Rightarrow> int \<Rightarrow> Connection" where
  "new_Connection i us peer time =
     \<lparr>co_id = i, co_state = AWAITING_PROTOCOL_HEADER, co_channelMax = 2047, co_frameMax = 131072,
      co_heartbeatInterval = 60, co_channels = [], co_read = NoRead, co_writeQueue = [], co_writing = False,
      co_inflight = None, co_sent = [], co_receivedData = False, co_heartbeatTimer = False,
      co_heartbeatCheckTimer = False, co_authUser = [], co_peerAddress = peer, co_connectedAtMs = time,
      co_userStore = us\<rparr>"

text \<open>
  A connection with the virtual host it works on, the number of the next channel object, and
  the connection ids that \<open>onClose_\<close> has been called with.
\<close>

record Peer =
  p_conn :: Connection
  p_host :: VirtualHost
  p_objects :: nat
  p_closed :: "u32 list"

definition on_conn :: "(Connection \<Rightarrow> Connection) \<Rightarrow> Peer \<Rightarrow> Peer" where
  "on_conn f p = p\<lparr>p_conn := f (p_conn p)\<rparr>"

type_synonym result = "amqp_error option \<times> Peer"

definition gets :: "Peer \<Rightarrow> amqp_error + 'a \<Rightarrow> ('a \<Rightarrow> result) \<Rightarrow> result" where
  "gets p r f = (case r of Inl e \<Rightarrow> (Some e, p) | Inr x \<Rightarrow> f x)"

section \<open>Writing\<close>

definition doWrite :: "Connection \<Rightarrow> Connection" where
  "doWrite c =
     (case co_writeQueue c of
        [] \<Rightarrow> c\<lparr>co_writing := False\<rparr>
      | d # ds \<Rightarrow> c\<lparr>co_writeQueue := ds, co_inflight := Some d\<rparr>)"

definition sendFrame :: "byte list \<Rightarrow> Connection \<Rightarrow> Connection" where
  "sendFrame d c =
     (let c1 = c\<lparr>co_writeQueue := co_writeQueue c @ [d]\<rparr>
      in if co_writing c then c1 else doWrite (c1\<lparr>co_writing := True\<rparr>))"

definition connMethodFrame :: "u16 \<Rightarrow> u16 \<Rightarrow> u16 \<Rightarrow> (Buffer \<Rightarrow> Buffer) \<Rightarrow> Connection \<Rightarrow> Connection" where
  "connMethodFrame channel classId methodId writeArgs =
     sendFrame (methodFrame channel classId methodId writeArgs)"

definition sendConnectionClose :: "u16 \<Rightarrow> string \<Rightarrow> u16 \<Rightarrow> u16 \<Rightarrow> Connection \<Rightarrow> Connection" where
  "sendConnectionClose replyCode replyText classId methodId c =
     (if co_state c = CLOSING \<or> co_state c = CLOSED then c
      else connMethodFrame 0 class_CONNECTION connection_CLOSE (\<lambda>b.
             writeUint16 methodId (writeUint16 classId (writeShortString replyText (writeUint16 replyCode b))))
           (c\<lparr>co_state := CLOSING\<rparr>))"

definition close_connection :: "Connection \<Rightarrow> Connection" where
  "close_connection = sendConnectionClose CONNECTION_FORCED ''Connection forced'' 0 0"

section \<open>Channels of a connection\<close>

text \<open>
  A handler of a channel runs on the channel, the host and an empty list of frames; the
  frames it sends go through \<open>sendFrame\<close> in their order.
\<close>

definition in_channel :: "u16 \<Rightarrow> Channel \<Rightarrow> (Session \<Rightarrow> outcome) \<Rightarrow> Peer \<Rightarrow> result" where
  "in_channel num ch f p =
     (case f \<lparr>s_channel = ch, s_host = p_host p, s_out = []\<rparr> of
        (e, s) \<Rightarrow>
          (e, p\<lparr>p_host := s_host s,
                p_conn := fold sendFrame (s_out s)
                  ((p_conn p)\<lparr>co_channels := AList.update num (s_channel s) (co_channels (p_conn p))\<rparr>)\<rparr>))"

text \<open>\<open>setOpen(false)\<close> and \<open>removeAllConsumers\<close> on a channel that is about to be dropped.\<close>

definition retireChannel :: "Channel \<Rightarrow> VirtualHost \<Rightarrow> VirtualHost" where
  "retireChannel ch vh =
     s_host (removeAllConsumers \<lparr>s_channel = ch\<lparr>ch_open := False\<rparr>, s_host = vh, s_out = []\<rparr>)"

definition cleanupChannel :: "u16 \<Rightarrow> Peer \<Rightarrow> Peer" where
  "cleanupChannel num p =
     (case map_of (co_channels (p_conn p)) num of
        None \<Rightarrow> p
      | Some ch \<Rightarrow> p\<lparr>p_host := retireChannel ch (p_host p),
                     p_conn := (p_conn p)\<lparr>co_channels := AList.delete num (co_channels (p_conn p))\<rparr>\<rparr>)"

definition cleanupAllChannels :: "Peer \<Rightarrow> Peer" where
  "cleanupAllChannels p =
     p\<lparr>p_host := fold (\<lambda>(num, ch). retireChannel ch) (co_channels (p_conn p)) (p_host p),
       p_conn := (p_conn p)\<lparr>co_channels := []\<rparr>\<rparr>"

text \<open>
  Closing the socket makes the outstanding operations complete with an error, unless they had
  completed before; those callbacks come later.
\<close>

definition shutdown :: "Peer \<Rightarrow> Peer" where
  "shutdown p =
     (if co_state (p_conn p) = CLOSED then p
      else
        let p1 = on_conn (\<lambda>c. c\<lparr>co_state := CLOSED, co_heartbeatTimer := False, co_heartbeatCheckTimer := False\<rparr>) p;
            p2 = cleanupAllChannels p1
        in p2\<lparr>p_host := removeConnectionQueues (co_id (p_conn p2)) (p_host p2),
              p_closed := p_closed p2 @ [co_id (p_conn p2)]\<rparr>)"

definition handleChannelOpen :: "u16 \<Rightarrow> Buffer \<Rightarrow> Peer \<Rightarrow> result" where
  "handleChannelOpen num buf p =
     gets p (readShortString buf) (\<lambda>(reserved, buf).
     (None,
      if num = 0 \<or> num > co_channelMax (p_conn p) then
        on_conn (sendConnectionClose CHANNEL_ERROR (''Invalid channel number '' @ show_nat (unat num))
                   class_CHANNEL channel_OPEN) p
      else
        on_conn (connMethodFrame num class_CHANNEL channel_OPEN_OK (writeLongString []))
          (p\<lparr>p_objects := p_objects p + 1,
             p_conn := (p_conn p)\<lparr>co_channels := AList.update num
               ((new_Channel (p_objects p) num (co_id (p_conn p)) (co_frameMax (p_conn p)))\<lparr>ch_open := True\<rparr>)
               (co_channels (p_conn p))\<rparr>\<rparr>)))"

definition handleChannelClose :: "u16 \<Rightarrow> Buffer \<Rightarrow> Peer \<Rightarrow> result" where
  "handleChannelClose num buf p =
     gets p (readUint16 buf) (\<lambda>(replyCode, buf).
     gets p (readShortString buf) (\<lambda>(replyText, buf).
     gets p (readUint16 buf) (\<lambda>(classId, buf).
     gets p (readUint16 buf) (\<lambda>(methodId, buf).
     (None, on_conn (connMethodFrame num class_CHANNEL channel_CLOSE_OK no_args) (cleanupChannel num p))))))"

definition handleChannelCloseOk :: "u16 \<Rightarrow> Peer \<Rightarrow> result" where
  "handleChannelCloseOk num p = (None, cleanupChannel num p)"

definition handleChannelFlow :: "u16 \<Rightarrow> Buffer \<Rightarrow> Peer \<Rightarrow> result" where
  "handleChannelFlow num buf p =
     gets p (readUint8 buf) (\<lambda>(bits, buf).
     (None, on_conn (connMethodFrame num class_CHANNEL channel_FLOW_OK (writeUint8 (if bit bits 0 then 1 else 0))) p))"

section \<open>The handshake\<close>

definition serverProps :: FieldTable where
  "serverProps =
     map_assign ''capabilities'' (tableVal
       (map_assign ''direct_reply_to'' (boolean False)
       (map_assign ''per_consumer_qos'' (boolean True)
       (map_assign ''authentication_failure_close'' (boolean True)
       (map_assign ''consumer_priorities'' (boolean False)
       (map_assign ''connection.blocked'' (boolean False)
       (map_assign ''consumer_cancel_notify'' (boolean True)
       (map_assign ''basic.nack'' (boolean True)
       (map_assign ''exchange_exchange_bindings'' (boolean False)
       (map_assign ''publisher_confirms'' (boolean True) []))))))))))
     (map_assign ''information'' (longString ''https://github.com/broko'')
     (map_assign ''copyright'' (longString [])
     (map_assign ''platform'' (longString ''C++'')
     (map_assign ''version'' (longString ''0.1.0'')
     (map_assign ''product'' (longString ''Broko'') [])))))"

definition sendConnectionStart :: "Connection \<Rightarrow> Connection" where
  "sendConnectionStart =
     connMethodFrame 0 class_CONNECTION connection_START (\<lambda>b.
       writeLongString ''en_US'' (writeLongString ''PLAIN AMQPLAIN'' (writeFieldTable serverProps
         (writeUint8 9 (writeUint8 0 b)))))"

definition sendConnectionTune :: "Connection \<Rightarrow> Connection" where
  "sendConnectionTune c =
     connMethodFrame 0 class_CONNECTION connection_TUNE (\<lambda>b.
       writeUint16 (co_heartbeatInterval c) (writeUint32 (co_frameMax c) (writeUint16 (co_channelMax c) b))) c"

text \<open>The two loops over a PLAIN response, and the table of an AMQPLAIN response.\<close>

definition plainCredentials :: "string \<Rightarrow> string \<times> string" where
  "plainCredentials response =
     (let r = (if response \<noteq> [] \<and> hd response = CHR 0x00 then tl response else response)
      in (takeWhile (\<lambda>c. c \<noteq> CHR 0x00) r, drop 1 (dropWhile (\<lambda>c. c \<noteq> CHR 0x00) r)))"

definition fieldString :: "string \<Rightarrow> FieldTable \<Rightarrow> string" where
  "fieldString name tbl = (case map_of tbl name of None \<Rightarrow> [] | Some v \<Rightarrow> string_val v)"

definition credentials :: "string \<Rightarrow> string \<Rightarrow> amqp_error + (string \<times> string) option" where
  "credentials mechanism response =
     (if mechanism = ''PLAIN'' then Inr (Some (plainCredentials response))
      else if mechanism = ''AMQPLAIN'' then
        bindE (readFieldTable (Buffer_of (bytes_of_string response))) (\<lambda>(tbl, buf).
          Inr (Some (fieldString ''LOGIN'' tbl, fieldString ''PASSWORD'' tbl)))
      else Inr None)"

definition admitted :: "UserStore option \<Rightarrow> string \<Rightarrow> string \<Rightarrow> bool" where
  "admitted us user pass = (case us of None \<Rightarrow> True | Some s \<Rightarrow> verify user pass s)"

definition handleStartOk :: "Buffer \<Rightarrow> Peer \<Rightarrow> result" where
  "handleStartOk buf p =
     (if co_state (p_conn p) \<noteq> AWAITING_START_OK then
        (None, on_conn (sendConnectionClose COMMAND_INVALID ''Unexpected Start-Ok'' class_CONNECTION connection_START_OK) p)
      else
        gets p (readFieldTable buf) (\<lambda>(clientProps, buf).
        gets p (readShortString buf) (\<lambda>(mechanism, buf).
        gets p (readLongString buf) (\<lambda>(response, buf).
        gets p (readShortString buf) (\<lambda>(locale, buf).
        gets p (credentials mechanism response) (\<lambda>cred.
        (None, on_conn (\<lambda>c.
           case cred of
             None \<Rightarrow> sendConnectionClose ACCESS_REFUSED (''Unsupported mechanism: '' @ mechanism)
                       class_CONNECTION connection_START_OK c
           | Some (user, pass) \<Rightarrow>
               if \<not> admitted (co_userStore c) user pass then
                 sendConnectionClose ACCESS_REFUSED
                   (''ACCESS_REFUSED - Login was refused using authentication mechanism '' @ mechanism)
                   class_CONNECTION connection_START_OK c
               else sendConnectionTune (c\<lparr>co_authUser := user, co_state := AWAITING_TUNE_OK\<rparr>)) p)))))))"

definition startHeartbeat :: "Connection \<Rightarrow> Connection" where
  "startHeartbeat c = c\<lparr>co_heartbeatTimer := True, co_heartbeatCheckTimer := True\<rparr>"

definition negotiate :: "u16 \<Rightarrow> u32 \<Rightarrow> u16 \<Rightarrow> Connection \<Rightarrow> Connection" where
  "negotiate clientChannelMax clientFrameMax clientHeartbeat c =
     (let c1 = (if clientChannelMax > 0 then c\<lparr>co_channelMax := min (co_channelMax c) clientChannelMax\<rparr> else c);
          c2 = (if clientFrameMax > 0 then c1\<lparr>co_frameMax := min (co_frameMax c1) clientFrameMax\<rparr> else c1)
      in if clientHeartbeat > 0 \<and> co_heartbeatInterval c2 > 0
         then c2\<lparr>co_heartbeatInterval := min (co_heartbeatInterval c2) clientHeartbeat\<rparr>
         else if clientHeartbeat > 0 then c2\<lparr>co_heartbeatInterval := clientHeartbeat\<rparr>
         else c2)"

definition handleTuneOk :: "Buffer \<Rightarrow> Peer \<Rightarrow> result" where
  "handleTuneOk buf p =
     (if co_state (p_conn p) \<noteq> AWAITING_TUNE_OK then
        (None, on_conn (sendConnectionClose COMMAND_INVALID ''Unexpected Tune-Ok'' class_CONNECTION connection_TUNE_OK) p)
      else
        gets p (readUint16 buf) (\<lambda>(clientChannelMax, buf).
        gets p (readUint32 buf) (\<lambda>(clientFrameMax, buf).
        gets p (readUint16 buf) (\<lambda>(clientHeartbeat, buf).
        (None, on_conn (\<lambda>c.
           let c1 = (negotiate clientChannelMax clientFrameMax clientHeartbeat c)\<lparr>co_state := AWAITING_OPEN\<rparr>
           in if co_heartbeatInterval c1 > 0 then startHeartbeat c1 else c1) p)))))"

definition handleConnectionOpen :: "Buffer \<Rightarrow> Peer \<Rightarrow> result" where
  "handleConnectionOpen buf p =
     (if co_state (p_conn p) \<noteq> AWAITING_OPEN then
        (None, on_conn (sendConnectionClose COMMAND_INVALID ''Unexpected Open'' class_CONNECTION connection_OPEN) p)
      else
        gets p (readShortString buf) (\<lambda>(virtualHost, buf).
        gets p (readShortString buf) (\<lambda>(reserved1, buf).
        gets p (if remaining buf > 0 then bindE (readUint8 buf) (\<lambda>_. Inr ()) else Inr ()) (\<lambda>_.
        (None, on_conn (\<lambda>c.
           if virtualHost \<noteq> ''/'' \<and> virtualHost \<noteq> [] then
             sendConnectionClose INVALID_PATH (''Unknown vhost: '' @ virtualHost) class_CONNECTION connection_OPEN c
           else connMethodFrame 0 class_CONNECTION connection_OPEN_OK (writeShortString []) (c\<lparr>co_state := OPEN\<rparr>)) p)))))"

definition handleConnectionClose :: "Buffer \<Rightarrow> Peer \<Rightarrow> result" where
  "handleConnectionClose buf p =
     gets p (readUint16 buf) (\<lambda>(replyCode, buf).
     gets p (readShortString buf) (\<lambda>(replyText, buf).
     gets p (readUint16 buf) (\<lambda>(classId, buf).
     gets p (readUint16 buf) (\<lambda>(methodId, buf).
     (None, shutdown (on_conn (connMethodFrame 0 class_CONNECTION connection_CLOSE_OK no_args) p))))))"

definition handleConnectionCloseOk :: "Peer \<Rightarrow> result" where
  "handleConnectionCloseOk p = (None, shutdown p)"

section \<open>Frames\<close>

definition handleConnectionMethod :: "u16 \<Rightarrow> Buffer \<Rightarrow> Peer \<Rightarrow> result" where
  "handleConnectionMethod methodId buf p =
     (if methodId = connection_START_OK then handleStartOk buf p
      else if methodId = connection_TUNE_OK then handleTuneOk buf p
      else if methodId = connection_OPEN then handleConnectionOpen buf p
      else if methodId = connection_CLOSE then handleConnectionClose buf p
      else if methodId = connection_CLOSE_OK then handleConnectionCloseOk p
      else (None, on_conn (sendConnectionClose COMMAND_INVALID
              (''Unexpected connection method '' @ show_nat (unat methodId)) class_CONNECTION methodId) p))"

definition toChannel :: "u16 \<Rightarrow> u16 \<Rightarrow> u16 \<Rightarrow> Buffer \<Rightarrow> Peer \<Rightarrow> result" where
  "toChannel channel classId methodId buf p =
     (let refuse = (None, on_conn (sendConnectionClose CHANNEL_ERROR
             (''Channel '' @ show_nat (unat channel) @ '' not open'') classId methodId) p)
      in case map_of (co_channels (p_conn p)) channel of
           None \<Rightarrow> refuse
         | Some ch \<Rightarrow> if \<not> ch_open ch then refuse else in_channel channel ch (handleMethod classId methodId buf) p)"

definition handleMethodFrame :: "u16 \<Rightarrow> Buffer \<Rightarrow> Peer \<Rightarrow> result" where
  "handleMethodFrame channel buf p =
     gets p (readUint16 buf) (\<lambda>(classId, buf).
     gets p (readUint16 buf) (\<lambda>(methodId, buf).
     if classId = class_CONNECTION then
       (if channel \<noteq> 0 then
          (None, on_conn (sendConnectionClose COMMAND_INVALID ''Connection method on non-zero channel'' classId methodId) p)
        else handleConnectionMethod methodId buf p)
     else if classId = class_CHANNEL \<and> methodId = channel_OPEN then handleChannelOpen channel buf p
     else if classId = class_CHANNEL \<and> methodId = channel_CLOSE then handleChannelClose channel buf p
     else if classId = class_CHANNEL \<and> methodId = channel_CLOSE_OK then handleChannelCloseOk channel p
     else if classId = class_CHANNEL \<and> methodId = channel_FLOW then handleChannelFlow channel buf p
     else toChannel channel classId methodId buf p))"

definition toOpenChannel :: "u16 \<Rightarrow> (Session \<Rightarrow> outcome) \<Rightarrow> Peer \<Rightarrow> result" where
  "toOpenChannel channel f p =
     (case map_of (co_channels (p_conn p)) channel of
        None \<Rightarrow> (None, p)
      | Some ch \<Rightarrow> if ch_open ch then in_channel channel ch f p else (None, p))"

definition handleFrame :: "Frame \<Rightarrow> Peer \<Rightarrow> result" where
  "handleFrame frame p =
     (if co_state (p_conn p) = CLOSING \<and> f_type frame = FRAME_METHOD then
        gets p (readUint16 (Buffer_of (f_payload frame))) (\<lambda>(classId, buf).
        gets p (readUint16 buf) (\<lambda>(methodId, buf).
        if classId = class_CONNECTION \<and> methodId = connection_CLOSE_OK then handleConnectionCloseOk p else (None, p)))
      else if f_type frame = FRAME_METHOD then handleMethodFrame (f_channel frame) (Buffer_of (f_payload frame)) p
      else if f_type frame = FRAME_HEADER then
        toOpenChannel (f_channel frame) (handleContentHeader (Buffer_of (f_payload frame))) p
      else if f_type frame = FRAME_BODY then toOpenChannel (f_channel frame) (handleContentBody (f_payload frame)) p
      else if f_type frame = FRAME_HEARTBEAT then (None, p)
      else (None, on_conn (sendConnectionClose FRAME_ERROR ''Unknown frame type'' 0 0) p))"

section \<open>Reading\<close>

definition start_connection :: "Peer \<Rightarrow> Peer" where
  "start_connection = on_conn (\<lambda>c. c\<lparr>co_read := ReadProtocolHeader\<rparr>)"

definition set_read :: "Reading \<Rightarrow> Peer \<Rightarrow> Peer" where
  "set_read r = on_conn (\<lambda>c. c\<lparr>co_read := r\<rparr>)"

text \<open>The callbacks of the three reads, with the bytes that were read.\<close>

definition onProtocolHeader :: "byte list \<Rightarrow> Peer \<Rightarrow> Peer" where
  "onProtocolHeader bs p =
     (if bs = PROTOCOL_HEADER then
        set_read ReadFrameHeader (on_conn (\<lambda>c. sendConnectionStart (c\<lparr>co_state := AWAITING_START_OK\<rparr>)) p)
      else shutdown (on_conn (sendFrame PROTOCOL_HEADER) (set_read NoRead p)))"

definition onFrameHeader :: "byte list \<Rightarrow> Peer \<Rightarrow> Peer" where
  "onFrameHeader bs p =
     (let type = bs ! 0;
          channel = push_bit 8 (ucast (bs ! 1)) OR ucast (bs ! 2);
          sz = push_bit 24 (ucast (bs ! 3)) OR push_bit 16 (ucast (bs ! 4)) OR push_bit 8 (ucast (bs ! 5)) OR ucast (bs ! 6);
          p1 = on_conn (\<lambda>c. c\<lparr>co_receivedData := True\<rparr>) p;
          effectiveMax = (if co_frameMax (p_conn p1) > 0 then co_frameMax (p_conn p1) else HARD_FRAME_MAX)
      in if sz > effectiveMax
         then set_read NoRead (on_conn (sendConnectionClose FRAME_ERROR ''Frame too large'' 0 0) p1)
         else set_read (ReadFramePayload type channel sz) p1)"

definition onFramePayload :: "byte \<Rightarrow> u16 \<Rightarrow> u32 \<Rightarrow> byte list \<Rightarrow> Peer \<Rightarrow> Peer" where
  "onFramePayload type channel sz bs p =
     (if bs ! unat sz \<noteq> FRAME_END
      then set_read NoRead (on_conn (sendConnectionClose FRAME_ERROR ''Invalid frame-end byte'' 0 0) p)
      else case handleFrame \<lparr>f_type = type, f_channel = channel, f_payload = take (unat sz) bs\<rparr> (set_read NoRead p) of
             (Some e, p1) \<Rightarrow> on_conn (sendConnectionClose FRAME_ERROR ''Internal error'' 0 0) p1
           | (None, p1) \<Rightarrow> if co_state (p_conn p1) \<noteq> CLOSED then set_read ReadFrameHeader p1 else p1)"

definition onReadError :: "Peer \<Rightarrow> Peer" where
  "onReadError p = shutdown (set_read NoRead p)"

text \<open>\<open>async_read\<close> completes when it has all the bytes it asked for.\<close>

fun wanted :: "Reading \<Rightarrow> nat" where
  "wanted ReadProtocolHeader = PROTOCOL_HEADER_SIZE"
| "wanted ReadFrameHeader = FRAME_HEADER_SIZE"
| "wanted (ReadFramePayload type channel sz) = unat sz + 1"
| "wanted NoRead = 0"

fun onRead :: "Reading \<Rightarrow> byte list \<Rightarrow> Peer \<Rightarrow> Peer" where
  "onRead ReadProtocolHeader bs p = onProtocolHeader bs p"
| "onRead ReadFrameHeader bs p = onFrameHeader bs p"
| "onRead (ReadFramePayload type channel sz) bs p = onFramePayload type channel sz bs p"
| "onRead NoRead bs p = p"

text \<open>Feeding the socket: the peer after all complete reads, and the bytes not yet read.\<close>

function feed :: "byte list \<Rightarrow> Peer \<Rightarrow> Peer \<times> byte list" where
  "feed bs p =
     (let n = wanted (co_read (p_conn p))
      in if n = 0 \<or> length bs < n then (p, bs) else feed (drop n bs) (onRead (co_read (p_conn p)) (take n bs) p))"
  by pat_completeness auto
termination by (relation "measure (\<lambda>(bs, p). length bs)") auto

declare feed.simps [simp del]

section \<open>Other callbacks\<close>

definition onWritten :: "Peer \<Rightarrow> Peer" where
  "onWritten p =
     (case co_inflight (p_conn p) of
        None \<Rightarrow> p
      | Some d \<Rightarrow> on_conn (\<lambda>c. doWrite (c\<lparr>co_inflight := None, co_sent := co_sent c @ [d]\<rparr>)) p)"

definition onWriteError :: "Peer \<Rightarrow> Peer" where
  "onWriteError p = shutdown (on_conn (\<lambda>c. c\<lparr>co_inflight := None\<rparr>) p)"

definition heartbeatFrame :: "byte list" where
  "heartbeatFrame = frame_bytes \<lparr>f_type = FRAME_HEARTBEAT, f_channel = 0, f_payload = []\<rparr>"

definition onHeartbeatTimer :: "Peer \<Rightarrow> Peer" where
  "onHeartbeatTimer p =
     (if \<not> co_heartbeatTimer (p_conn p) \<or> co_state (p_conn p) = CLOSED then p
      else on_conn (sendFrame heartbeatFrame) p)"

definition onHeartbeatCheck :: "Peer \<Rightarrow> Peer" where
  "onHeartbeatCheck p =
     (if \<not> co_heartbeatCheckTimer (p_conn p) \<or> co_state (p_conn p) = CLOSED then p
      else if \<not> co_receivedData (p_conn p) then shutdown p
      else on_conn (\<lambda>c. c\<lparr>co_receivedData := False\<rparr>) p)"

text \<open>A task on the strand: it runs if its channel object is still alive.\<close>

definition runPosted :: "DeliveryTask \<Rightarrow> Peer \<Rightarrow> Peer" where
  "runPosted t p =
     (case find (\<lambda>(num, ch). ch_self ch = t_channel t) (co_channels (p_conn p)) of
        None \<Rightarrow> p
      | Some (num, ch) \<Rightarrow> snd (in_channel num ch (\<lambda>s. (None, runDelivery t s)) p))"

end
