(* ===== verification/Connection_Properties.thy ===== *)
theory Connection_Properties
  imports Connection Host_Properties
begin

text \<open>
  Properties of connections: the order of writes, the reading of frames from a byte
  stream, and the handshake.
\<close>

section \<open>The write queue is a log\<close>

text \<open>
  The contract of an output channel: \<open>put\<close> appends to what has been sent in the abstract, and
  \<open>done_one\<close> - a completed write - only moves frames out.
\<close>

locale output_log =
  fixes put :: "'f \<Rightarrow> 's \<Rightarrow> 's" and done_one :: "'s \<Rightarrow> 's"
    and ok :: "'s \<Rightarrow> bool" and all :: "'s \<Rightarrow> 'f list" and out :: "'s \<Rightarrow> 'f list"
  assumes put_ok: "ok s \<Longrightarrow> ok (put f s)" and put_all: "ok s \<Longrightarrow> all (put f s) = all s @ [f]"
    and put_out: "ok s \<Longrightarrow> out (put f s) = out s"
    and done_ok: "ok s \<Longrightarrow> ok (done_one s)" and done_all: "ok s \<Longrightarrow> all (done_one s) = all s"
    and done_out: "ok s \<Longrightarrow> out (done_one s) = take (length (out s) + 1) (all s)"
begin

lemma puts: "ok s \<Longrightarrow> ok (fold put fs s) \<and> all (fold put fs s) = all s @ fs \<and> out (fold put fs s) = out s"
proof (induction fs arbitrary: s)
  case (Cons f fs)
  from Cons.IH [OF put_ok [OF Cons.prems, of f]] Cons.prems show ?case by (simp add: put_all put_out)
qed simp

lemma dones:
  "ok s \<Longrightarrow> out s = take (length (out s)) (all s) \<Longrightarrow> length (out s) + n \<le> length (all s) \<Longrightarrow>
   ok ((done_one ^^ n) s) \<and> all ((done_one ^^ n) s) = all s \<and>
   out ((done_one ^^ n) s) = take (length (out s) + n) (all s)"
proof (induction n)
  case (Suc n)
  then have IH: "ok ((done_one ^^ n) s)" "all ((done_one ^^ n) s) = all s"
    "out ((done_one ^^ n) s) = take (length (out s) + n) (all s)" by simp_all
  from IH(3) Suc.prems(3) have "length (out ((done_one ^^ n) s)) = length (out s) + n" by simp
  with IH show ?case by (simp add: done_ok done_all done_out)
qed simp

text \<open>Enough completed writes bring everything out, in order.\<close>

lemma drained:
  assumes "ok s" "out s = take (length (out s)) (all s)"
  shows "out ((done_one ^^ (length (all s) - length (out s))) s) = all s"
proof -
  have "length (out s) \<le> length (all s)" using arg_cong [OF assms(2), of length] by simp
  then show ?thesis using dones [OF assms, of "length (all s) - length (out s)"] by simp
qed

end

definition frames_of :: "Connection \<Rightarrow> byte list list" where
  "frames_of c = co_sent c @ (case co_inflight c of None \<Rightarrow> [] | Some d \<Rightarrow> [d]) @ co_writeQueue c"

definition write_ok :: "Connection \<Rightarrow> bool" where
  "write_ok c \<longleftrightarrow> (co_writing c \<longleftrightarrow> co_inflight c \<noteq> None) \<and> (co_writeQueue c \<noteq> [] \<longrightarrow> co_writing c)"

definition written :: "Connection \<Rightarrow> Connection" where
  "written c = (case co_inflight c of None \<Rightarrow> c | Some d \<Rightarrow> doWrite (c\<lparr>co_inflight := None, co_sent := co_sent c @ [d]\<rparr>))"

lemma onWritten_written: "onWritten p = on_conn written p"
  by (cases p) (simp add: onWritten_def written_def on_conn_def split: option.split)

interpretation writes: output_log sendFrame written write_ok frames_of co_sent
proof
  fix c :: Connection and f
  assume ok: "write_ok c"
  show "write_ok (sendFrame f c)" "frames_of (sendFrame f c) = frames_of c @ [f]" "co_sent (sendFrame f c) = co_sent c"
    using ok by (auto simp: sendFrame_def doWrite_def write_ok_def frames_of_def Let_def split: list.splits option.splits)
  show "write_ok (written c)" "frames_of (written c) = frames_of c"
    using ok by (auto simp: written_def doWrite_def write_ok_def frames_of_def split: list.splits option.splits)
  show "co_sent (written c) = take (length (co_sent c) + 1) (frames_of c)"
    using ok by (auto simp: written_def doWrite_def write_ok_def frames_of_def split: list.splits option.splits)
qed

section \<open>Reading frames\<close>

lemma feed_step:
  assumes "wanted (co_read (p_conn p)) = length xs" "xs \<noteq> []"
  shows "feed (xs @ ys) p = feed ys (onRead (co_read (p_conn p)) xs p)"
  using assms by (subst feed.simps) (simp add: Let_def)

lemma feed_append:
  "feed (xs @ ys) p = (case feed xs p of (p', rest) \<Rightarrow> feed (rest @ ys) p')"
proof (induction xs p rule: feed.induct)
  case (1 xs p)
  let ?n = "wanted (co_read (p_conn p))"
  show ?case
  proof (cases "?n = 0 \<or> length xs < ?n")
    case True
    then have "feed xs p = (p, xs)" by (subst feed.simps) (auto simp: Let_def)
    then show ?thesis by simp
  next
    case False
    have "feed xs p = feed (drop ?n xs) (onRead (co_read (p_conn p)) (take ?n xs) p)"
      using False by (subst feed.simps) (simp add: Let_def)
    moreover have "feed (xs @ ys) p = feed (drop ?n xs @ ys) (onRead (co_read (p_conn p)) (take ?n xs) p)"
      using False by (subst feed.simps) (simp add: Let_def)
    ultimately show ?thesis using 1 False by simp
  qed
qed

definition effectiveMax :: "Connection \<Rightarrow> u32" where
  "effectiveMax c = (if co_frameMax c > 0 then co_frameMax c else HARD_FRAME_MAX)"

text \<open>A complete frame at the front of the stream is handled as the frame it encodes.\<close>

definition afterFrame :: "Frame \<Rightarrow> Peer \<Rightarrow> Peer" where
  "afterFrame f p =
     (case handleFrame f (set_read NoRead (on_conn (\<lambda>c. c\<lparr>co_receivedData := True\<rparr>) p)) of
        (Some e, p1) \<Rightarrow> on_conn (sendConnectionClose FRAME_ERROR ''Internal error'' 0 0) p1
      | (None, p1) \<Rightarrow> if co_state (p_conn p1) \<noteq> CLOSED then set_read ReadFrameHeader p1 else p1)"

lemma p_conn_on_conn [simp]: "p_conn (on_conn f p) = f (p_conn p)"
  by (simp add: on_conn_def)

lemma set_read_set_read [simp]: "set_read r (set_read r' p) = set_read r p"
  by (simp add: set_read_def on_conn_def)

lemma co_read_set_read [simp]: "co_read (p_conn (set_read r p)) = r"
  by (simp add: set_read_def)

lemma feed_frame:
  assumes "co_read (p_conn p) = ReadFrameHeader" "length (f_payload f) \<le> unat (effectiveMax (p_conn p))"
  shows "feed (frame_bytes f @ rest) p = feed rest (afterFrame f p)"
proof -
  let ?n = "word_of_nat (length (f_payload f)) :: u32"
  let ?hdr = "f_type f # enc16 (f_channel f) @ enc32 ?n"
  let ?p1 = "on_conn (\<lambda>c. c\<lparr>co_receivedData := True\<rparr>) p"
  have "length (f_payload f) < 2 ^ 32"
    using le_less_trans [OF assms(2) unat_u32_less] by simp
  then have n: "unat ?n = length (f_payload f)" by (rule unat_of_nat_u32)
  have le: "\<not> ?n > effectiveMax (p_conn p)" using assms(2) n by (simp add: word_less_nat_alt)
  have nth: "?hdr ! 0 = f_type f" "?hdr ! 1 = ucast (drop_bit 8 (f_channel f))" "?hdr ! 2 = ucast (f_channel f)"
    "?hdr ! 3 = ucast (drop_bit 24 ?n)" "?hdr ! 4 = ucast (drop_bit 16 ?n)" "?hdr ! 5 = ucast (drop_bit 8 ?n)"
    "?hdr ! 6 = ucast ?n"
    by (simp_all add: enc16_def enc32_def nth_Cons')
  have hdr: "onFrameHeader ?hdr p = set_read (ReadFramePayload (f_type f) (f_channel f) ?n) ?p1"
    unfolding onFrameHeader_def Let_def nth be16 be32 using le by (simp add: effectiveMax_def split: if_splits)
  have "frame_bytes f @ rest = ?hdr @ (f_payload f @ [FRAME_END]) @ rest" by (simp add: frame_bytes_enc)
  also have "feed \<dots> p = feed ((f_payload f @ [FRAME_END]) @ rest) (onFrameHeader ?hdr p)"
    by (subst feed_step) (simp_all add: assms(1) FRAME_HEADER_SIZE_def)
  also have "\<dots> = feed rest (onFramePayload (f_type f) (f_channel f) ?n (f_payload f @ [FRAME_END])
      (set_read (ReadFramePayload (f_type f) (f_channel f) ?n) ?p1))"
    unfolding hdr by (subst feed_step) (simp_all add: n)
  also have "onFramePayload (f_type f) (f_channel f) ?n (f_payload f @ [FRAME_END])
      (set_read (ReadFramePayload (f_type f) (f_channel f) ?n) ?p1) = afterFrame f p"
    using n by (cases f) (simp add: onFramePayload_def afterFrame_def)
  finally show ?thesis .
qed

section \<open>The handshake\<close>

text \<open>What no handler but those of the handshake changes.\<close>

definition identity :: "Connection \<Rightarrow> State \<times> string \<times> UserStore option" where
  "identity c = (co_state c, co_authUser c, co_userStore c)"

lemma identity_frames [simp]:
  "identity (sendFrame d c) = identity c" "identity (connMethodFrame ch cl me w c) = identity c"
  "identity (fold sendFrame ds c) = identity c" "identity (sendConnectionStart c) = identity c"
  "identity (sendConnectionTune c) = identity c"
proof -
  show send: "identity (sendFrame d c) = identity c" for d c
    by (auto simp: sendFrame_def doWrite_def identity_def Let_def split: list.split)
  show "identity (fold sendFrame ds c) = identity c" by (induction ds arbitrary: c) (simp_all add: send)
  show "identity (connMethodFrame ch cl me w c) = identity c" "identity (sendConnectionStart c) = identity c"
    "identity (sendConnectionTune c) = identity c"
    by (simp_all add: connMethodFrame_def sendConnectionStart_def sendConnectionTune_def send)
qed

lemma identity_simps:
  "co_state (sendFrame d c) = co_state c" "co_state (connMethodFrame ch cl me w c) = co_state c"
  "co_state (sendConnectionStart c) = co_state c" "co_state (sendConnectionTune c) = co_state c"
  "co_authUser (connMethodFrame ch cl me w c) = co_authUser c" "co_userStore (connMethodFrame ch cl me w c) = co_userStore c"
  by (simp_all add: sendFrame_def doWrite_def connMethodFrame_def sendConnectionStart_def sendConnectionTune_def Let_def
      split: list.split)

definition past_login :: "State \<Rightarrow> bool" where
  "past_login st \<longleftrightarrow> st \<in> {AWAITING_TUNE_OK, AWAITING_OPEN, OPEN}"

definition moves :: "Connection \<Rightarrow> Connection \<Rightarrow> bool" where
  "moves c c' \<longleftrightarrow> co_userStore c' = co_userStore c \<and>
     (past_login (co_state c') \<longrightarrow>
        past_login (co_state c) \<and> co_authUser c' = co_authUser c \<or> (\<exists>pass. admitted (co_userStore c) (co_authUser c') pass))"

lemma moves_same: "identity c' = identity c \<Longrightarrow> moves c c'"
  by (auto simp: moves_def identity_def)

lemma moves_refl [simp]: "moves c c"
  by (simp add: moves_same)

lemma moves_trans: "moves c c1 \<Longrightarrow> moves c1 c2 \<Longrightarrow> moves c c2"
  by (auto simp: moves_def)

lemma moves_then_same: "identity c' = identity c1 \<Longrightarrow> moves c c1 \<Longrightarrow> moves c c'"
  using moves_same moves_trans by blast

lemma moves_close: "moves c (sendConnectionClose code txt cl me c)"
proof -
  have "moves c (c\<lparr>co_state := CLOSING\<rparr>)" if "\<not> (co_state c = CLOSING \<or> co_state c = CLOSED)"
    using that by (cases "co_state c") (simp_all add: moves_def past_login_def)
  then show ?thesis using moves_then_same [OF identity_frames(2)] by (simp add: sendConnectionClose_def)
qed

lemma moves_shutdown: "moves (p_conn p) (p_conn (shutdown p))"
  by (auto simp: shutdown_def cleanupAllChannels_def Let_def moves_def past_login_def)

lemma moves_gets:
  "moves c (p_conn p) \<Longrightarrow> (\<And>x. r = Inr x \<Longrightarrow> moves c (p_conn (snd (f x)))) \<Longrightarrow> moves c (p_conn (snd (gets p r f)))"
  by (cases r) (simp_all add: gets_def)

lemma moves_in_channel: "moves (p_conn p) (p_conn (snd (in_channel num ch f p)))"
  by (rule moves_same) (simp add: in_channel_def split_beta, simp add: identity_def)

lemma moves_startOk: "moves (p_conn p) (p_conn (snd (handleStartOk buf p)))"
proof -
  have "moves c (sendConnectionTune (c\<lparr>co_authUser := user, co_state := AWAITING_TUNE_OK\<rparr>))"
    if "co_state c = AWAITING_START_OK" "admitted (co_userStore c) user pass" for c user pass
    using that by (intro moves_then_same [OF identity_frames(5)]) (auto simp: moves_def)
  then show ?thesis
    by (auto simp: handleStartOk_def moves_close split: option.split intro!: moves_gets)
qed

lemma moves_tuneOk: "moves (p_conn p) (p_conn (snd (handleTuneOk buf p)))"
proof -
  have "identity (negotiate a b d c) = identity c" for a b d c
    by (simp add: negotiate_def Let_def identity_def)
  then have "moves c ((negotiate a b d c)\<lparr>co_state := AWAITING_OPEN\<rparr>)" "moves c (startHeartbeat ((negotiate a b d c)\<lparr>co_state := AWAITING_OPEN\<rparr>))"
    if "co_state c = AWAITING_TUNE_OK" for a b d c
    using that by (simp_all add: moves_def past_login_def identity_def startHeartbeat_def)
  then show ?thesis by (auto simp: handleTuneOk_def moves_close Let_def intro!: moves_gets)
qed

lemma moves_open: "moves (p_conn p) (p_conn (snd (handleConnectionOpen buf p)))"
proof -
  have "moves c (connMethodFrame 0 class_CONNECTION connection_OPEN_OK w (c\<lparr>co_state := OPEN\<rparr>))"
    if "co_state c = AWAITING_OPEN" for c w
    using that by (intro moves_then_same [OF identity_frames(2)]) (auto simp: moves_def past_login_def)
  then show ?thesis by (auto simp: handleConnectionOpen_def moves_close intro!: moves_gets)
qed

lemma moves_channel_methods:
  "moves (p_conn p) (p_conn (snd (handleChannelOpen num buf p)))" "moves (p_conn p) (p_conn (snd (handleChannelClose num buf p)))"
  "moves (p_conn p) (p_conn (snd (handleChannelCloseOk num p)))" "moves (p_conn p) (p_conn (snd (handleChannelFlow num buf p)))"
proof -
  have clean: "identity (p_conn (cleanupChannel num p)) = identity (p_conn p)"
    by (simp add: cleanupChannel_def identity_def split: option.split)
  have chans: "identity (c\<lparr>co_channels := x\<rparr>) = identity c" for c x by (simp add: identity_def)
  have frame: "moves c (connMethodFrame a b d w c)" "moves c (connMethodFrame a b d w (c\<lparr>co_channels := x\<rparr>))" for a b d w c x
    by (simp_all add: moves_same chans)
  have closed: "moves (p_conn p) (connMethodFrame a b d w (p_conn (cleanupChannel num p)))" for a b d w
    by (simp add: moves_same clean)
  show "moves (p_conn p) (p_conn (snd (handleChannelOpen num buf p)))"
    by (auto simp: handleChannelOpen_def moves_close frame intro!: moves_gets)
  show "moves (p_conn p) (p_conn (snd (handleChannelClose num buf p)))"
    by (auto simp: handleChannelClose_def closed intro!: moves_gets)
  show "moves (p_conn p) (p_conn (snd (handleChannelCloseOk num p)))"
    by (simp add: handleChannelCloseOk_def moves_same clean)
  show "moves (p_conn p) (p_conn (snd (handleChannelFlow num buf p)))"
    by (auto simp: handleChannelFlow_def frame intro!: moves_gets)
qed

lemma moves_connectionClose: "moves (p_conn p) (p_conn (snd (handleConnectionClose buf p)))"
proof -
  have "moves (p_conn p) (p_conn (shutdown (on_conn (connMethodFrame a b d w) p)))" for a b d w
    by (rule moves_trans [OF _ moves_shutdown]) (simp add: moves_same)
  then show ?thesis by (auto simp: handleConnectionClose_def intro!: moves_gets)
qed

lemma moves_closeOk: "moves (p_conn p) (p_conn (snd (handleConnectionCloseOk p)))"
  by (simp add: handleConnectionCloseOk_def moves_shutdown)

lemma moves_connection_method: "moves (p_conn p) (p_conn (snd (handleConnectionMethod m buf p)))"
  by (simp add: handleConnectionMethod_def moves_startOk moves_tuneOk moves_open moves_connectionClose moves_closeOk
      moves_close)

lemma moves_toChannel: "moves (p_conn p) (p_conn (snd (toChannel ch c m buf p)))"
  by (simp add: toChannel_def Let_def moves_close moves_in_channel split: option.split)

lemma moves_method_frame: "moves (p_conn p) (p_conn (snd (handleMethodFrame ch buf p)))"
  by (auto simp: handleMethodFrame_def moves_close moves_connection_method moves_channel_methods moves_toChannel
      intro!: moves_gets)

lemma moves_frame: "moves (p_conn p) (p_conn (snd (handleFrame f p)))"
  by (auto simp: handleFrame_def toOpenChannel_def moves_close moves_method_frame moves_in_channel moves_closeOk
      split: option.split intro!: moves_gets)

lemma identity_read [simp]: "identity (c\<lparr>co_read := r\<rparr>) = identity c" "identity (c\<lparr>co_receivedData := b\<rparr>) = identity c"
  by (simp_all add: identity_def)

lemma moves_set_read [simp]: "moves c (p_conn (set_read r p)) = moves c (p_conn p)"
  by (simp add: set_read_def moves_def)

lemma moves_reads:
  "moves (p_conn p) (p_conn (onProtocolHeader bs p))"
  "moves (p_conn p) (p_conn (onFrameHeader bs p))" "moves (p_conn p) (p_conn (onFramePayload ty ch sz bs p))"
  "moves (p_conn p) (p_conn (onReadError p))"
proof -
  have "moves c (sendConnectionStart (c\<lparr>co_state := AWAITING_START_OK\<rparr>))" for c
    by (intro moves_then_same [OF identity_frames(4)]) (simp add: moves_def past_login_def)
  moreover have "moves (p_conn p) (p_conn (shutdown (on_conn (sendFrame d) (set_read r p))))" for d r
    by (rule moves_trans [OF _ moves_shutdown]) (simp add: moves_same set_read_def)
  ultimately show "moves (p_conn p) (p_conn (onProtocolHeader bs p))" by (simp add: onProtocolHeader_def)
  have recv: "moves (p_conn p) ((p_conn p)\<lparr>co_receivedData := True\<rparr>)" by (simp add: moves_same)
  show "moves (p_conn p) (p_conn (onFrameHeader bs p))"
    by (auto simp: onFrameHeader_def Let_def recv intro: moves_trans [OF recv moves_close])
  show "moves (p_conn p) (p_conn (onReadError p))"
    unfolding onReadError_def by (rule moves_trans [OF _ moves_shutdown]) simp
  have "moves (p_conn p) (p_conn (snd (handleFrame f (set_read NoRead p))))" for f
    by (rule moves_trans [OF _ moves_frame]) simp
  then have f: "handleFrame f (set_read NoRead p) = (e, p1) \<Longrightarrow> moves (p_conn p) (p_conn p1)" for f e p1
    by (metis snd_conv)
  show "moves (p_conn p) (p_conn (onFramePayload ty ch sz bs p))"
    by (auto simp: onFramePayload_def moves_close split: prod.split option.split
        dest!: f intro: moves_trans [OF _ moves_close])
qed

section \<open>Steps of a connection\<close>

text \<open>
  The callbacks of a connection: completed and failed reads and writes, timers and posted
  deliveries. They come in any order; meanwhile the server may close the connection, and
  others work on the virtual host.
\<close>

inductive callback :: "Peer \<Rightarrow> Peer \<Rightarrow> bool" where
  read_done: "co_read (p_conn p) \<noteq> NoRead \<Longrightarrow> length bs = wanted (co_read (p_conn p)) \<Longrightarrow>
    callback p (onRead (co_read (p_conn p)) bs p)"
| read_failed: "co_read (p_conn p) \<noteq> NoRead \<Longrightarrow> callback p (onReadError p)"
| write_done: "callback p (onWritten p)"
| write_failed: "co_inflight (p_conn p) \<noteq> None \<Longrightarrow> callback p (onWriteError p)"
| heartbeat: "callback p (onHeartbeatTimer p)"
| check: "callback p (onHeartbeatCheck p)"
| delivery: "callback p (runPosted t p)"

inductive conn_step :: "Peer \<Rightarrow> Peer \<Rightarrow> bool" where
  called: "callback p p' \<Longrightarrow> conn_step p p'"
| forced: "conn_step p (on_conn close_connection p)"
| others: "conn_step p (p\<lparr>p_host := vh, p_objects := n\<rparr>)"

lemma moves_onRead: "moves (p_conn p) (p_conn (onRead r bs p))"
  by (cases r) (simp_all add: moves_reads)

lemma moves_written: "moves (p_conn p) (p_conn (onWritten p))"
  by (rule moves_same) (auto simp: onWritten_def doWrite_def identity_def split: option.split list.split)

lemma moves_write_error: "moves (p_conn p) (p_conn (onWriteError p))"
  unfolding onWriteError_def by (rule moves_trans [OF _ moves_shutdown]) (simp add: moves_same identity_def)

lemma moves_heartbeats: "moves (p_conn p) (p_conn (onHeartbeatTimer p))" "moves (p_conn p) (p_conn (onHeartbeatCheck p))"
  by (simp_all add: onHeartbeatTimer_def onHeartbeatCheck_def moves_shutdown moves_same)

lemma moves_posted: "moves (p_conn p) (p_conn (runPosted t p))"
  by (auto simp: runPosted_def moves_in_channel split: option.split)

lemma callback_moves: "callback p p' \<Longrightarrow> moves (p_conn p) (p_conn p')"
  by (induction rule: callback.induct)
    (simp_all add: moves_onRead moves_reads moves_written moves_write_error moves_heartbeats moves_posted)

lemma conn_step_moves: "conn_step p p' \<Longrightarrow> moves (p_conn p) (p_conn p')"
  by (induction rule: conn_step.induct) (simp_all add: callback_moves close_connection_def moves_close)

section \<open>Properties\<close>

text \<open>
  (C24) Frames go out in the order in which they were handed to \<open>sendFrame\<close>, each exactly once: the
  frames written, in flight and waiting are together the frames sent, and after as many
  completed writes as frames are pending all of them have been written.
\<close>

theorem frames_are_written_in_order:
  assumes "write_ok c"
  shows "let c' = fold sendFrame fs c in
    frames_of c' = frames_of c @ fs \<and> write_ok c' \<and> co_sent c' = co_sent c \<and>
    co_sent ((written ^^ (length (frames_of c') - length (co_sent c'))) c') = frames_of c @ fs"
proof -
  have sent: "co_sent c' = take (length (co_sent c')) (frames_of c')" for c' by (simp add: frames_of_def)
  note puts = writes.puts [OF assms, of fs]
  then have "co_sent ((written ^^ (length (frames_of (fold sendFrame fs c)) - length (co_sent (fold sendFrame fs c))))
      (fold sendFrame fs c)) = frames_of (fold sendFrame fs c)"
    by (intro writes.drained sent) simp
  then show ?thesis using puts by (simp add: Let_def)
qed

theorem frames_are_written_in_order_witness:
  "let c' = fold sendFrame [[1], [2]] (new_Connection 1 None [] 0) in co_sent (written (written c')) = [[1], [2]]"
  using frames_are_written_in_order [of "new_Connection 1 None [] 0" "[[1], [2]]"]
  by (simp add: Let_def write_ok_def frames_of_def new_Connection_def sendFrame_def doWrite_def numeral_2_eq_2)

text \<open>
  (C17) TCP may cut the stream anywhere: reading bytes in two portions leaves the connection in the
  same state, with the same bytes unread, as reading them at once. A frame that fits the
  negotiated size is handled as the frame it encodes, whatever follows.
\<close>

theorem byte_stream_is_read_as_frames:
  assumes "co_read (p_conn p) = ReadFrameHeader" "length (f_payload f) \<le> unat (effectiveMax (p_conn p))"
  shows "feed (xs @ ys) p' = (case feed xs p' of (p1, rest) \<Rightarrow> feed (rest @ ys) p1) \<and>
    feed (frame_bytes f @ rest) p = feed rest (afterFrame f p)"
  using feed_append feed_frame [OF assms] by blast

theorem byte_stream_is_read_as_frames_witness:
  "let p = \<lparr>p_conn = (new_Connection 1 None [] 0)\<lparr>co_read := ReadFrameHeader\<rparr>, p_host = one_queue_host False False,
            p_objects = 0, p_closed = []\<rparr>
   in feed heartbeatFrame p = feed [] (afterFrame \<lparr>f_type = FRAME_HEARTBEAT, f_channel = 0, f_payload = []\<rparr> p)"
  using byte_stream_is_read_as_frames
    [of "\<lparr>p_conn = (new_Connection 1 None [] 0)\<lparr>co_read := ReadFrameHeader\<rparr>, p_host = one_queue_host False False,
            p_objects = 0, p_closed = []\<rparr>" "\<lparr>f_type = FRAME_HEARTBEAT, f_channel = 0, f_payload = []\<rparr>" "[]" "[]" _ "[]"]
  by (simp add: Let_def heartbeatFrame_def)

end
