(* ===== verification/Handshake.thy ===== *)
theory Handshake
  imports Connection_Properties
begin

text \<open>
  The handshake seen from a client: the frames it sends, what each of them does to the
  connection, and which frames the broker acts on before the login.
\<close>

section \<open>Methods from the client's side\<close>

lemma method_dispatch:
  obtains buf where "at_input buf args"
    "handleMethodFrame channel (Buffer_of (enc16 classId @ enc16 methodId @ args)) p =
     (if classId = class_CONNECTION then
       (if channel \<noteq> 0 then
          (None, on_conn (sendConnectionClose COMMAND_INVALID ''Connection method on non-zero channel'' classId methodId) p)
        else handleConnectionMethod methodId buf p)
     else if classId = class_CHANNEL \<and> methodId = channel_OPEN then handleChannelOpen channel buf p
     else if classId = class_CHANNEL \<and> methodId = channel_CLOSE then handleChannelClose channel buf p
     else if classId = class_CHANNEL \<and> methodId = channel_CLOSE_OK then handleChannelCloseOk channel p
     else if classId = class_CHANNEL \<and> methodId = channel_FLOW then handleChannelFlow channel buf p
     else toChannel channel classId methodId buf p)"
proof -
  let ?b = "Buffer_of (enc16 classId @ enc16 methodId @ args)"
  have 0: "at_input ?b (enc16 classId @ enc16 methodId @ args)" by simp
  note 1 = u16.rd_then(2) [OF TrueI 0]
  show ?thesis
    by (rule that [OF u16.rd_then(2) [OF TrueI 1]])
      (simp only: handleMethodFrame_def u16.rd_enc [OF TrueI 0] u16.rd_enc [OF TrueI 1] gets_def sum.case prod.case)
qed

definition open_frame :: "u16 \<Rightarrow> Frame" where
  "open_frame num = \<lparr>f_type = FRAME_METHOD, f_channel = num,
     f_payload = enc16 class_CHANNEL @ enc16 channel_OPEN @ enc_short []\<rparr>"

definition declare_frame :: "u16 \<Rightarrow> string \<Rightarrow> Frame" where
  "declare_frame num q = \<lparr>f_type = FRAME_METHOD, f_channel = num,
     f_payload = enc16 class_QUEUE @ enc16 queue_DECLARE @ enc16 0 @ enc_short q @ [0] @ enc_table []\<rparr>"

lemma open_method:
  assumes "num \<noteq> 0" "num \<le> co_channelMax (p_conn p)"
  shows "handleMethodFrame num (Buffer_of (f_payload (open_frame num))) p =
    (None, on_conn (connMethodFrame num class_CHANNEL channel_OPEN_OK (writeLongString []))
          (p\<lparr>p_objects := p_objects p + 1,
             p_conn := (p_conn p)\<lparr>co_channels := AList.update num
               ((new_Channel (p_objects p) num (co_id (p_conn p)) (co_frameMax (p_conn p)))\<lparr>ch_open := True\<rparr>)
               (co_channels (p_conn p))\<rparr>\<rparr>))"
proof -
  obtain buf where b: "at_input buf (enc_short [])" "handleMethodFrame num (Buffer_of (f_payload (open_frame num))) p =
      handleChannelOpen num buf p"
    by (rule method_dispatch [of "enc_short []" num class_CHANNEL channel_OPEN p]) (simp add: open_frame_def protocol)
  have "readShortString buf = Inr ([], advance (length (enc_short [])) buf)"
    using short_str.rd_enc [of "[]" buf "[]"] b(1) by simp
  then show ?thesis using assms by (simp add: b(2) handleChannelOpen_def gets_def not_less)
qed

lemma declare_args:
  assumes "length q \<le> 255" "at_input buf (enc16 0 @ enc_short q @ [0] @ enc_table [])"
  shows "handleQueueDeclare buf s = (None, queueDeclare q 0 [] s)"
proof -
  note 1 = u16.rd_then [OF TrueI assms(2)]
  note 2 = short_str.rd_then [OF assms(1) 1(2)]
  note 3 = u8.rd_then [OF TrueI 2(2)]
  have 4: "at_input (advance (length [0 :: byte]) (advance (length (enc_short q)) (advance (length (enc16 0)) buf)))
      (enc_table [] @ [])" using 3(2) by simp
  have wf: "wf_table []" by (simp add: wf_table_def)
  show ?thesis unfolding handleQueueDeclare_def
    by (simp only: 1(1) 2(1) 3(1) prod.case field_table.rd_then(1) [OF wf 4] receive_def sum.case)
qed

definition startOk_frame :: "FieldTable \<Rightarrow> string \<Rightarrow> string \<Rightarrow> Frame" where
  "startOk_frame props mechanism response = \<lparr>f_type = FRAME_METHOD, f_channel = 0,
     f_payload = enc16 class_CONNECTION @ enc16 connection_START_OK @
       enc_table props @ enc_short mechanism @ enc_long response @ enc_short ''en_US''\<rparr>"

definition tuneOk_frame :: "u16 \<Rightarrow> u32 \<Rightarrow> u16 \<Rightarrow> Frame" where
  "tuneOk_frame cm fm hb = \<lparr>f_type = FRAME_METHOD, f_channel = 0,
     f_payload = enc16 class_CONNECTION @ enc16 connection_TUNE_OK @ enc16 cm @ enc32 fm @ enc16 hb\<rparr>"

definition connOpen_frame :: Frame where
  "connOpen_frame = \<lparr>f_type = FRAME_METHOD, f_channel = 0,
     f_payload = enc16 class_CONNECTION @ enc16 connection_OPEN @ enc_short ''/'' @ enc_short [] @ [0]\<rparr>"

lemma declare_frame_small: "length q \<le> 255 \<Longrightarrow> length (f_payload (declare_frame num q)) \<le> 131072"
  by (simp add: declare_frame_def enc_short_def enc_table_def)

lemma queueDeclare_creates:
  "q \<noteq> [] \<Longrightarrow> findQueue q (s_host s) = None \<Longrightarrow> findQueue q (s_host (queueDeclare q 0 [] s)) \<noteq> None"
  by (auto simp: queueDeclare_def declareQueue_def declareNamedQueue_def findQueue_def bindDefault_def replyUnless_def
      sendMethodFrame_def Let_def split: option.splits)

lemma sendFrame_sel [simp]:
  "co_id (sendFrame d c) = co_id c" "co_state (sendFrame d c) = co_state c" "co_channelMax (sendFrame d c) = co_channelMax c"
  "co_frameMax (sendFrame d c) = co_frameMax c" "co_heartbeatInterval (sendFrame d c) = co_heartbeatInterval c"
  "co_channels (sendFrame d c) = co_channels c" "co_read (sendFrame d c) = co_read c"
  "co_authUser (sendFrame d c) = co_authUser c" "co_userStore (sendFrame d c) = co_userStore c"
  by (simp_all add: sendFrame_def doWrite_def Let_def split: list.split)

lemma fold_sendFrame_sel [simp]:
  "co_state (fold sendFrame ds c) = co_state c" "co_authUser (fold sendFrame ds c) = co_authUser c"
  by (induction ds arbitrary: c) simp_all

lemma declare_method:
  assumes "map_of (co_channels (p_conn p)) num = Some ch" "ch_open ch" "length q \<le> 255"
  obtains p' where "handleMethodFrame num (Buffer_of (f_payload (declare_frame num q))) p = (None, p')"
    "co_state (p_conn p') = co_state (p_conn p)" "co_authUser (p_conn p') = co_authUser (p_conn p)"
    "p_host p' = s_host (queueDeclare q 0 [] \<lparr>s_channel = ch, s_host = p_host p, s_out = []\<rparr>)"
proof -
  let ?args = "enc16 0 @ enc_short q @ [0] @ enc_table []"
  obtain buf where b: "at_input buf ?args"
    "handleMethodFrame num (Buffer_of (f_payload (declare_frame num q))) p = toChannel num class_QUEUE queue_DECLARE buf p"
    by (rule method_dispatch [of ?args num class_QUEUE queue_DECLARE p]) (simp add: declare_frame_def protocol)
  have "handleMethod class_QUEUE queue_DECLARE buf s = (None, queueDeclare q 0 [] s)" for s
    using declare_args [OF assms(3) b(1)] by (simp add: handleMethod_def protocol)
  then show ?thesis using assms(1,2) that unfolding b(2) by (simp add: toChannel_def in_channel_def)
qed

lemma connection_dispatch:
  obtains buf where "at_input buf args"
    "handleMethodFrame 0 (Buffer_of (enc16 class_CONNECTION @ enc16 m @ args)) p = handleConnectionMethod m buf p"
  by (rule method_dispatch [of args 0 class_CONNECTION m p]) simp

lemma startOk_method:
  assumes "co_state (p_conn p) = AWAITING_START_OK" "wf_table props" "length mechanism \<le> 255" "length response < 2 ^ 32"
  shows "handleMethodFrame 0 (Buffer_of (f_payload (startOk_frame props mechanism response))) p =
    gets p (credentials mechanism response) (\<lambda>cred.
        (None, on_conn (\<lambda>c.
           case cred of
             None \<Rightarrow> sendConnectionClose ACCESS_REFUSED (''Unsupported mechanism: '' @ mechanism)
                       class_CONNECTION connection_START_OK c
           | Some (user, pass) \<Rightarrow>
               if \<not> admitted (co_userStore c) user pass then
                 sendConnectionClose ACCESS_REFUSED
                   (''ACCESS_REFUSED - Login was refused using authentication mechanism '' @ mechanism)
                   class_CONNECTION connection_START_OK c
               else sendConnectionTune (c\<lparr>co_authUser := user, co_state := AWAITING_TUNE_OK\<rparr>)) p))"
proof -
  obtain buf where b: "at_input buf (enc_table props @ enc_short mechanism @ enc_long response @ enc_short ''en_US'')"
    "handleMethodFrame 0 (Buffer_of (f_payload (startOk_frame props mechanism response))) p =
       handleConnectionMethod connection_START_OK buf p"
    by (rule connection_dispatch
        [of "enc_table props @ enc_short mechanism @ enc_long response @ enc_short ''en_US''" connection_START_OK p])
      (simp add: startOk_frame_def)
  note 1 = field_table.rd_then(2) [OF assms(2) b(1)]
  note 2 = short_str.rd_then(2) [OF assms(3) 1]
  note 3 = long_str.rd_then(2) [OF assms(4) 2]
  have l: "length ''en_US'' \<le> 255" by simp
  from 3 have 4: "at_input (advance (length (enc_long response)) (advance (length (enc_short mechanism))
      (advance (length (enc_table props)) buf))) (enc_short ''en_US'' @ [])" by simp
  have "handleConnectionMethod connection_START_OK buf p = handleStartOk buf p" by (simp add: handleConnectionMethod_def)
  then show ?thesis unfolding b(2) using assms(1)
    by (simp only: handleStartOk_def simp_thms if_False field_table.rd_enc [OF assms(2) b(1)]
        short_str.rd_enc [OF assms(3) 1] long_str.rd_enc [OF assms(4) 2] short_str.rd_enc [OF l 4]
        gets_def [of _ "Inr _"] sum.case prod.case)
qed

lemma tuneOk_method:
  assumes "co_state (p_conn p) = AWAITING_TUNE_OK"
  shows "handleMethodFrame 0 (Buffer_of (f_payload (tuneOk_frame cm fm hb))) p =
    (None, on_conn (\<lambda>c.
           let c1 = (negotiate cm fm hb c)\<lparr>co_state := AWAITING_OPEN\<rparr>
           in if co_heartbeatInterval c1 > 0 then startHeartbeat c1 else c1) p)"
proof -
  obtain buf where b: "at_input buf (enc16 cm @ enc32 fm @ enc16 hb)"
    "handleMethodFrame 0 (Buffer_of (f_payload (tuneOk_frame cm fm hb))) p =
       handleConnectionMethod connection_TUNE_OK buf p"
    by (rule connection_dispatch [of "enc16 cm @ enc32 fm @ enc16 hb" connection_TUNE_OK p]) (simp add: tuneOk_frame_def)
  note 1 = u16.rd_then(2) [OF TrueI b(1)]
  from u32.rd_then(2) [OF TrueI 1] have 2: "at_input (advance (length (enc32 fm)) (advance (length (enc16 cm)) buf)) (enc16 hb @ [])"
    by simp
  have "handleConnectionMethod connection_TUNE_OK buf p = handleTuneOk buf p"
    by (simp add: handleConnectionMethod_def protocol)
  then show ?thesis unfolding b(2) using assms
    by (simp only: handleTuneOk_def simp_thms if_False u16.rd_enc [OF TrueI b(1)] u32.rd_enc [OF TrueI 1]
        u16.rd_enc [OF TrueI 2] gets_def sum.case prod.case)
qed

lemma connOpen_method:
  assumes "co_state (p_conn p) = AWAITING_OPEN"
  shows "handleMethodFrame 0 (Buffer_of (f_payload connOpen_frame)) p =
    (None, on_conn (\<lambda>c. connMethodFrame 0 class_CONNECTION connection_OPEN_OK (writeShortString []) (c\<lparr>co_state := OPEN\<rparr>)) p)"
proof -
  obtain buf where b: "at_input buf (enc_short ''/'' @ enc_short [] @ [0])"
    "handleMethodFrame 0 (Buffer_of (f_payload connOpen_frame)) p = handleConnectionMethod connection_OPEN buf p"
    by (rule connection_dispatch [of "enc_short ''/'' @ enc_short [] @ [0]" connection_OPEN p]) (simp add: connOpen_frame_def)
  have l: "length ''/'' \<le> 255" "length [] \<le> 255" by simp_all
  note 1 = short_str.rd_then(2) [OF l(1) b(1)]
  note 2 = short_str.rd_then(2) [OF l(2) 1]
  then have 3: "at_input (advance (length (enc_short [])) (advance (length (enc_short ''/'')) buf)) ([0] @ [])" by simp
  have "handleConnectionMethod connection_OPEN buf p = handleConnectionOpen buf p"
    by (simp add: handleConnectionMethod_def protocol)
  then show ?thesis unfolding b(2) using assms
    by (simp add: handleConnectionOpen_def short_str.rd_enc [OF l(1) b(1)] short_str.rd_enc [OF l(2) 1, simplified]
        u8.rd_enc [OF TrueI 3, simplified] gets_def)
qed

text \<open>What every frame handler starts from, and how it ends.\<close>

abbreviation received :: "Peer \<Rightarrow> Peer" where
  "received p \<equiv> set_read NoRead (on_conn (\<lambda>c. c\<lparr>co_receivedData := True\<rparr>) p)"

lemma received_sel [simp]:
  "co_state (p_conn (received p)) = co_state (p_conn p)" "co_frameMax (p_conn (received p)) = co_frameMax (p_conn p)"
  "co_channels (p_conn (received p)) = co_channels (p_conn p)" "co_id (p_conn (received p)) = co_id (p_conn p)"
  "co_channelMax (p_conn (received p)) = co_channelMax (p_conn p)" "co_userStore (p_conn (received p)) = co_userStore (p_conn p)"
  "co_authUser (p_conn (received p)) = co_authUser (p_conn p)" "p_host (received p) = p_host p"
  "p_objects (received p) = p_objects p"
  by (simp_all add: set_read_def on_conn_def)

lemma afterFrame_method:
  assumes "f_type f = FRAME_METHOD" "co_state (p_conn p) \<noteq> CLOSING"
    "handleMethodFrame (f_channel f) (Buffer_of (f_payload f)) (received p) = (None, p1)" "co_state (p_conn p1) \<noteq> CLOSED"
  shows "afterFrame f p = set_read ReadFrameHeader p1"
  using assms by (simp add: afterFrame_def handleFrame_def)

text \<open>While the connection is closing, methods other than \<open>close-ok\<close> are read and ignored.\<close>

lemma afterFrame_closing:
  assumes "f_type f = FRAME_METHOD" "co_state (p_conn p) = CLOSING" "f_payload f = enc16 c @ enc16 m @ rest"
    "m \<noteq> connection_CLOSE_OK"
  shows "afterFrame f p = set_read ReadFrameHeader (received p)"
proof -
  have 0: "at_input (Buffer_of (f_payload f)) (enc16 c @ enc16 m @ rest)" by (simp add: assms(3))
  note 1 = u16.rd_then(2) [OF TrueI 0]
  show ?thesis using assms(1,2,4)
    by (simp add: afterFrame_def handleFrame_def u16.rd_enc [OF TrueI 0] u16.rd_enc [OF TrueI 1, simplified] gets_def)
qed

definition greeted :: "u32 \<Rightarrow> UserStore option \<Rightarrow> VirtualHost \<Rightarrow> nat \<Rightarrow> Peer" where
  "greeted i us vh n = onProtocolHeader PROTOCOL_HEADER (start_connection \<lparr>p_conn = new_Connection i us [] 0,
     p_host = vh, p_objects = n, p_closed = []\<rparr>)"

lemma feed_greeting:
  "feed (PROTOCOL_HEADER @ bs) (start_connection \<lparr>p_conn = new_Connection i us [] 0, p_host = vh, p_objects = n, p_closed = []\<rparr>)
   = feed bs (greeted i us vh n)"
  unfolding greeted_def
  by (subst feed_step) (simp_all add: start_connection_def PROTOCOL_HEADER_def PROTOCOL_HEADER_SIZE_def)

lemma greeted_sel [simp]:
  "co_state (p_conn (greeted i us vh n)) = AWAITING_START_OK" "co_read (p_conn (greeted i us vh n)) = ReadFrameHeader"
  "co_frameMax (p_conn (greeted i us vh n)) = 131072" "co_channelMax (p_conn (greeted i us vh n)) = 2047"
  "co_channels (p_conn (greeted i us vh n)) = []" "co_authUser (p_conn (greeted i us vh n)) = []"
  "co_userStore (p_conn (greeted i us vh n)) = us" "co_id (p_conn (greeted i us vh n)) = i"
  "co_heartbeatInterval (p_conn (greeted i us vh n)) = 60"
  "p_host (greeted i us vh n) = vh" "p_objects (greeted i us vh n) = n"
  by (simp_all add: greeted_def onProtocolHeader_def set_read_def on_conn_def start_connection_def new_Connection_def
      sendConnectionStart_def connMethodFrame_def)

lemma feed_nil: "feed [] p = (p, [])"
  by (subst feed.simps) (auto simp: Let_def)

lemma plain_response: "CHR 0x00 \<notin> set u \<Longrightarrow> plainCredentials (CHR 0x00 # u @ CHR 0x00 # pw) = (u, pw)"
  by (simp add: plainCredentials_def split_at)

definition loggedIn :: "string \<Rightarrow> string \<Rightarrow> UserStore \<Rightarrow> Peer \<Rightarrow> Peer" where
  "loggedIn u pw us p = on_conn (\<lambda>c. if verify u pw us then sendConnectionTune (c\<lparr>co_authUser := u, co_state := AWAITING_TUNE_OK\<rparr>)
     else sendConnectionClose ACCESS_REFUSED (''ACCESS_REFUSED - Login was refused using authentication mechanism '' @ ''PLAIN'')
            class_CONNECTION connection_START_OK c) (received p)"

lemma loggedIn_sel [simp]:
  assumes "co_state (p_conn p) = AWAITING_START_OK"
  shows "co_state (p_conn (loggedIn u pw us p)) = (if verify u pw us then AWAITING_TUNE_OK else CLOSING)"
    "co_authUser (p_conn (loggedIn u pw us p)) = (if verify u pw us then u else co_authUser (p_conn p))"
    "co_frameMax (p_conn (loggedIn u pw us p)) = co_frameMax (p_conn p)"
    "co_channelMax (p_conn (loggedIn u pw us p)) = co_channelMax (p_conn p)"
    "p_host (loggedIn u pw us p) = p_host p"
  using assms by (simp_all add: loggedIn_def on_conn_def set_read_def sendConnectionTune_def sendConnectionClose_def connMethodFrame_def)

lemma after_startOk:
  assumes "co_state (p_conn p) = AWAITING_START_OK" "co_userStore (p_conn p) = Some us" "wf_table props" "CHR 0x00 \<notin> set u"
    "length u + length pw < 2 ^ 31"
  shows "afterFrame (startOk_frame props ''PLAIN'' (CHR 0x00 # u @ CHR 0x00 # pw)) p = set_read ReadFrameHeader (loggedIn u pw us p)"
proof (rule afterFrame_method)
  have "handleMethodFrame 0 (Buffer_of (f_payload (startOk_frame props ''PLAIN'' (CHR 0x00 # u @ CHR 0x00 # pw)))) (received p) =
      (None, loggedIn u pw us p)"
    using assms by (subst startOk_method)
      (simp_all add: credentials_def plain_response gets_def admitted_def loggedIn_def on_conn_def set_read_def)
  then show "handleMethodFrame (f_channel (startOk_frame props ''PLAIN'' (CHR 0x00 # u @ CHR 0x00 # pw)))
      (Buffer_of (f_payload (startOk_frame props ''PLAIN'' (CHR 0x00 # u @ CHR 0x00 # pw)))) (received p) = (None, loggedIn u pw us p)"
    by (simp add: startOk_frame_def)
  show "co_state (p_conn (loggedIn u pw us p)) \<noteq> CLOSED" using assms by simp
qed (use assms in \<open>simp_all add: startOk_frame_def\<close>)

definition tuned :: "u16 \<Rightarrow> u32 \<Rightarrow> u16 \<Rightarrow> Peer \<Rightarrow> Peer" where
  "tuned cm fm hb p = on_conn (\<lambda>c. let c1 = (negotiate cm fm hb c)\<lparr>co_state := AWAITING_OPEN\<rparr>
           in if co_heartbeatInterval c1 > 0 then startHeartbeat c1 else c1) (received p)"

lemma tuned_sel [simp]:
  "co_state (p_conn (tuned cm fm hb p)) = AWAITING_OPEN" "co_authUser (p_conn (tuned cm fm hb p)) = co_authUser (p_conn p)"
  "co_frameMax (p_conn (tuned cm fm hb p)) = (if fm = 0 then co_frameMax (p_conn p) else min (co_frameMax (p_conn p)) fm)"
  "co_channelMax (p_conn (tuned cm fm hb p)) = (if cm = 0 then co_channelMax (p_conn p) else min (co_channelMax (p_conn p)) cm)"
  "p_host (tuned cm fm hb p) = p_host p"
  by (simp_all add: tuned_def negotiate_def startHeartbeat_def Let_def set_read_def on_conn_def word_gt_0)

lemma after_tuneOk:
  "co_state (p_conn p) = AWAITING_TUNE_OK \<Longrightarrow> afterFrame (tuneOk_frame cm fm hb) p = set_read ReadFrameHeader (tuned cm fm hb p)"
  using tuneOk_method [of "received p" cm fm hb]
  by (intro afterFrame_method) (simp_all add: tuned_def tuneOk_frame_def, simp_all add: Let_def negotiate_def startHeartbeat_def)

lemma after_connOpen:
  assumes "co_state (p_conn p) = AWAITING_OPEN"
  shows "afterFrame connOpen_frame p = set_read ReadFrameHeader (on_conn (\<lambda>c.
    connMethodFrame 0 class_CONNECTION connection_OPEN_OK (writeShortString []) (c\<lparr>co_state := OPEN\<rparr>)) (received p))"
  using assms connOpen_method [of "received p"]
  by (intro afterFrame_method) (simp_all add: connOpen_frame_def connMethodFrame_def)

lemma feed_callbacks: "callback\<^sup>*\<^sup>* p (fst (feed bs p))"
proof (induction bs p rule: feed.induct)
  case (1 bs p)
  let ?n = "wanted (co_read (p_conn p))"
  show ?case
  proof (cases "?n = 0 \<or> length bs < ?n")
    case True
    then show ?thesis by (subst feed.simps) (auto simp: Let_def)
  next
    case False
    then have "callback p (onRead (co_read (p_conn p)) (take ?n bs) p)" by (intro callback.read_done) auto
    moreover have "feed bs p = feed (drop ?n bs) (onRead (co_read (p_conn p)) (take ?n bs) p)"
      using False by (subst feed.simps) (simp add: Let_def)
    ultimately show ?thesis using 1 False by (simp add: converse_rtranclp_into_rtranclp)
  qed
qed

lemma feed_steps: "conn_step\<^sup>*\<^sup>* p (fst (feed bs p))"
proof -
  have "callback \<le> conn_step" by (auto intro: conn_step.called)
  then have "callback\<^sup>*\<^sup>* \<le> conn_step\<^sup>*\<^sup>*" by (rule rtranclp_mono)
  then show ?thesis using feed_callbacks by blast
qed

lemma accepted_handshake:
  fixes cm hb :: u16 and fm :: u32
  assumes "co_state (p_conn p) = AWAITING_TUNE_OK" "co_frameMax (p_conn p) = 131072" "fm = 0 \<or> 8 \<le> fm"
  defines "p2 \<equiv> afterFrame (tuneOk_frame cm fm hb) p"
  defines "p3 \<equiv> afterFrame connOpen_frame p2"
  shows "co_read (p_conn p2) = ReadFrameHeader" "8 \<le> unat (effectiveMax (p_conn p2))"
    "co_state (p_conn p3) = OPEN" "co_authUser (p_conn p3) = co_authUser (p_conn p)" "p_host p3 = p_host p"
    "co_read (p_conn p3) = ReadFrameHeader"
    "co_channelMax (p_conn p3) = (if cm = 0 then co_channelMax (p_conn p) else min (co_channelMax (p_conn p)) cm)"
    "co_frameMax (p_conn p3) = (if fm = 0 then 131072 else min 131072 fm)"
proof -
  have p2: "p2 = set_read ReadFrameHeader (tuned cm fm hb p)" unfolding p2_def by (rule after_tuneOk [OF assms(1)])
  then have st: "co_state (p_conn p2) = AWAITING_OPEN" "co_frameMax (p_conn p2) = (if fm = 0 then 131072 else min 131072 fm)"
    "co_channelMax (p_conn p2) = (if cm = 0 then co_channelMax (p_conn p) else min (co_channelMax (p_conn p)) cm)"
    "co_authUser (p_conn p2) = co_authUser (p_conn p)" "p_host p2 = p_host p"
    using assms(2) by (simp_all add: set_read_def on_conn_def)
  show "co_read (p_conn p2) = ReadFrameHeader" by (simp add: p2)
  have "(8 :: u32) \<le> (if fm = 0 then 131072 else min 131072 fm)" using assms(3) by auto
  then show "8 \<le> unat (effectiveMax (p_conn p2))"
    by (simp add: effectiveMax_def st word_le_nat_alt HARD_FRAME_MAX_def)
  note p3 = after_connOpen [OF st(1), folded p3_def]
  show "co_state (p_conn p3) = OPEN" "co_authUser (p_conn p3) = co_authUser (p_conn p)" "p_host p3 = p_host p"
    "co_read (p_conn p3) = ReadFrameHeader"
    "co_channelMax (p_conn p3) = (if cm = 0 then co_channelMax (p_conn p) else min (co_channelMax (p_conn p)) cm)"
    "co_frameMax (p_conn p3) = (if fm = 0 then 131072 else min 131072 fm)"
    by (simp_all add: p3 st connMethodFrame_def set_read_def on_conn_def)
qed

lemma refused_handshake:
  fixes cm hb :: u16 and fm :: u32
  assumes "co_state (p_conn p) = CLOSING" "co_frameMax (p_conn p) = 131072"
  defines "p2 \<equiv> afterFrame (tuneOk_frame cm fm hb) p"
  defines "p3 \<equiv> afterFrame connOpen_frame p2"
  shows "co_read (p_conn p2) = ReadFrameHeader" "8 \<le> unat (effectiveMax (p_conn p2))"
    "co_state (p_conn p3) = CLOSING" "co_authUser (p_conn p3) = co_authUser (p_conn p)" "p_host p3 = p_host p"
    "co_read (p_conn p3) = ReadFrameHeader"
proof -
  have p2: "p2 = set_read ReadFrameHeader (received p)" unfolding p2_def
    by (rule afterFrame_closing [where m = connection_TUNE_OK]) (simp_all add: assms(1) tuneOk_frame_def protocol)
  then have st: "co_state (p_conn p2) = CLOSING" "co_frameMax (p_conn p2) = 131072"
    "co_authUser (p_conn p2) = co_authUser (p_conn p)" "p_host p2 = p_host p"
    using assms(1,2) by (simp_all add: set_read_def on_conn_def)
  show "co_read (p_conn p2) = ReadFrameHeader" by (simp add: p2)
  show "8 \<le> unat (effectiveMax (p_conn p2))" by (simp add: effectiveMax_def st)
  have "p3 = set_read ReadFrameHeader (received p2)" unfolding p3_def
    by (rule afterFrame_closing [where m = connection_OPEN]) (simp_all add: st connOpen_frame_def protocol)
  then show "co_state (p_conn p3) = CLOSING" "co_authUser (p_conn p3) = co_authUser (p_conn p)" "p_host p3 = p_host p"
    "co_read (p_conn p3) = ReadFrameHeader"
    using st by (simp_all add: set_read_def on_conn_def)
qed

lemma plain_login:
  assumes "wf_table props" "CHR 0x00 \<notin> set u" "fm = 0 \<or> 8 \<le> fm"
    "length (f_payload (startOk_frame props ''PLAIN'' (CHR 0x00 # u @ CHR 0x00 # pw))) \<le> 131072"
  shows "\<exists>p. feed (PROTOCOL_HEADER @ frame_bytes (startOk_frame props ''PLAIN'' (CHR 0x00 # u @ CHR 0x00 # pw)) @
      frame_bytes (tuneOk_frame cm fm hb) @ frame_bytes connOpen_frame)
      (start_connection \<lparr>p_conn = new_Connection i (Some us) [] 0, p_host = vh, p_objects = n, p_closed = []\<rparr>) = (p, []) \<and>
    co_state (p_conn p) = (if verify u pw us then OPEN else CLOSING) \<and>
    co_authUser (p_conn p) = (if verify u pw us then u else []) \<and> p_host p = vh \<and> co_read (p_conn p) = ReadFrameHeader \<and>
    (verify u pw us \<longrightarrow> co_channelMax (p_conn p) = (if cm = 0 then 2047 else min 2047 cm) \<and>
       co_frameMax (p_conn p) = (if fm = 0 then 131072 else min 131072 fm))"
proof -
  let ?so = "startOk_frame props ''PLAIN'' (CHR 0x00 # u @ CHR 0x00 # pw)" and ?g = "greeted i (Some us) vh n"
  let ?to = "tuneOk_frame cm fm hb"
  have len: "length u + length pw < 2 ^ 31" using assms(4) by (simp add: startOk_frame_def enc_long_def)
  define p1 where "p1 = set_read ReadFrameHeader (loggedIn u pw us ?g)"
  have 1: "afterFrame ?so ?g = p1" unfolding p1_def by (rule after_startOk) (use assms len in simp_all)
  have m: "(131072 :: u32) > 0" by simp
  have p1: "co_state (p_conn p1) = (if verify u pw us then AWAITING_TUNE_OK else CLOSING)"
    "co_authUser (p_conn p1) = (if verify u pw us then u else [])" "co_frameMax (p_conn p1) = 131072"
    "co_channelMax (p_conn p1) = 2047" "p_host p1 = vh" "co_read (p_conn p1) = ReadFrameHeader"
    by (simp_all add: p1_def set_read_def on_conn_def)
  have small: "length (f_payload ?to) \<le> unat (effectiveMax (p_conn p1))"
    by (simp add: effectiveMax_def p1 tuneOk_frame_def)
  define p2 where "p2 = afterFrame ?to p1"
  define p3 where "p3 = afterFrame connOpen_frame p2"
  have pay: "length (f_payload connOpen_frame) = 8" by (simp add: connOpen_frame_def enc_short_def)
  have p2: "co_read (p_conn p2) = ReadFrameHeader" "8 \<le> unat (effectiveMax (p_conn p2))"
    and p3: "co_state (p_conn p3) = (if verify u pw us then OPEN else CLOSING)"
    "co_authUser (p_conn p3) = (if verify u pw us then u else [])" "p_host p3 = vh" "co_read (p_conn p3) = ReadFrameHeader"
    "verify u pw us \<longrightarrow> co_channelMax (p_conn p3) = (if cm = 0 then 2047 else min 2047 cm) \<and>
       co_frameMax (p_conn p3) = (if fm = 0 then 131072 else min 131072 fm)"
    using accepted_handshake [of p1 fm cm hb] refused_handshake [of p1 cm fm hb] p1 assms(3)
    by (auto simp: p2_def p3_def split: if_splits)
  have "feed (PROTOCOL_HEADER @ frame_bytes ?so @ frame_bytes ?to @ frame_bytes connOpen_frame)
      (start_connection \<lparr>p_conn = new_Connection i (Some us) [] 0, p_host = vh, p_objects = n, p_closed = []\<rparr>) =
      feed (frame_bytes ?to @ frame_bytes connOpen_frame) p1"
    unfolding feed_greeting 1 [symmetric] using assms(4) by (intro feed_frame) (simp_all add: effectiveMax_def)
  also have "\<dots> = feed (frame_bytes connOpen_frame @ []) p2"
    unfolding p2_def append_Nil2 by (rule feed_frame [OF p1(6) small])
  also have "\<dots> = (p3, [])" unfolding p3_def using p2 pay by (subst feed_frame) (simp_all add: feed_nil)
  finally show ?thesis using p3 by blast
qed

lemma guest_login:
  "wf_table []" "CHR 0x00 \<notin> set ''guest''" "verify ''guest'' ''guest'' new_UserStore"
  "length (f_payload (startOk_frame [] ''PLAIN'' (CHR 0x00 # ''guest'' @ CHR 0x00 # ''guest''))) \<le> 131072"
  by (simp_all add: wf_table_def verify_def new_UserStore_def startOk_frame_def enc_table_def enc_long_def enc_short_def)

section \<open>Properties\<close>

text \<open>
  (C5) A PLAIN login followed by \<open>tune-ok\<close> and \<open>open\<close> opens the connection exactly if the user
  store accepts the name and password; the channel and frame limits are then the smaller of the
  broker's and the client's. Otherwise the connection is closing, the later methods are ignored, and
  the virtual host is untouched.
\<close>

theorem plain_login_decides:
  assumes "wf_table props" "CHR 0x00 \<notin> set u" "fm = 0 \<or> 8 \<le> fm"
    "length (f_payload (startOk_frame props ''PLAIN'' (CHR 0x00 # u @ CHR 0x00 # pw))) \<le> 131072"
  shows "\<exists>p. feed (PROTOCOL_HEADER @ frame_bytes (startOk_frame props ''PLAIN'' (CHR 0x00 # u @ CHR 0x00 # pw)) @
      frame_bytes (tuneOk_frame cm fm hb) @ frame_bytes connOpen_frame)
      (start_connection \<lparr>p_conn = new_Connection i (Some us) [] 0, p_host = vh, p_objects = n, p_closed = []\<rparr>) = (p, []) \<and>
    co_state (p_conn p) = (if verify u pw us then OPEN else CLOSING) \<and>
    co_authUser (p_conn p) = (if verify u pw us then u else []) \<and> p_host p = vh \<and> co_read (p_conn p) = ReadFrameHeader \<and>
    (verify u pw us \<longrightarrow> co_channelMax (p_conn p) = (if cm = 0 then 2047 else min 2047 cm) \<and>
       co_frameMax (p_conn p) = (if fm = 0 then 131072 else min 131072 fm))"
  using assms by (rule plain_login)

theorem plain_login_decides_witness:
  "\<exists>p. feed (PROTOCOL_HEADER @ frame_bytes (startOk_frame [] ''PLAIN'' (CHR 0x00 # ''guest'' @ CHR 0x00 # ''guest'')) @
      frame_bytes (tuneOk_frame 10 4096 0) @ frame_bytes connOpen_frame)
      (start_connection \<lparr>p_conn = new_Connection 1 (Some new_UserStore) [] 0, p_host = one_queue_host False False,
         p_objects = 0, p_closed = []\<rparr>) = (p, []) \<and>
    co_state (p_conn p) = OPEN \<and> co_channelMax (p_conn p) = 10 \<and> co_frameMax (p_conn p) = 4096"
  using plain_login_decides [OF guest_login(1,2) _ guest_login(4), of 4096 10 0 1 new_UserStore "one_queue_host False False" 0]
    guest_login(3) by auto

text \<open>
  A connection gets past the login - to \<open>Tune\<close>, \<open>Open\<close> and the open state - only with a user
  name and password that the user store accepts, whatever bytes arrive and however callbacks
  interleave.
\<close>

theorem login_precedes_open:
  assumes "conn_step\<^sup>*\<^sup>* (start_connection \<lparr>p_conn = new_Connection i (Some us) peer time, p_host = vh,
      p_objects = n, p_closed = cs\<rparr>) p" "past_login (co_state (p_conn p))"
  shows "\<exists>pass. verify (co_authUser (p_conn p)) pass us"
proof -
  let ?p0 = "start_connection \<lparr>p_conn = new_Connection i (Some us) peer time, p_host = vh, p_objects = n, p_closed = cs\<rparr>"
  have "moves (p_conn ?p0) (p_conn p)"
    using assms(1) by (induction rule: rtranclp_induct) (auto intro: moves_trans conn_step_moves)
  then show ?thesis using assms(2)
    by (auto simp: moves_def past_login_def start_connection_def new_Connection_def admitted_def)
qed

theorem login_precedes_open_witness:
  "\<exists>p pass. conn_step\<^sup>*\<^sup>* (start_connection \<lparr>p_conn = new_Connection 1 (Some new_UserStore) [] 0,
        p_host = one_queue_host False False, p_objects = 0, p_closed = []\<rparr>) p \<and>
     co_state (p_conn p) = OPEN \<and> verify (co_authUser (p_conn p)) pass new_UserStore"
proof -
  let ?p0 = "start_connection \<lparr>p_conn = new_Connection 1 (Some new_UserStore) [] 0, p_host = one_queue_host False False,
         p_objects = 0, p_closed = []\<rparr>"
  obtain bs p where p: "feed bs ?p0 = (p, [])" "co_state (p_conn p) = OPEN"
    using plain_login [OF guest_login(1,2) _ guest_login(4), of 4096 10 0 1 new_UserStore "one_queue_host False False" 0]
      guest_login(3) by auto
  have s: "conn_step\<^sup>*\<^sup>* ?p0 p" using feed_steps [of ?p0 bs] p(1) by simp
  obtain pass where "verify (co_authUser (p_conn p)) pass new_UserStore"
    using login_precedes_open [OF s] p(2) by (auto simp: past_login_def)
  with s p(2) show ?thesis by blast
qed

text \<open>
  (C39) Methods of channels are not held back until the login: after the protocol header alone, a
  client that has sent no credentials opens a channel and declares a queue, whatever the user store.
\<close>

theorem channels_need_no_login:
  assumes "q \<noteq> []" "length q \<le> 255" "findQueue q vh = None"
  shows "\<exists>p. feed (PROTOCOL_HEADER @ frame_bytes (open_frame 1) @ frame_bytes (declare_frame 1 q))
      (start_connection \<lparr>p_conn = new_Connection i (Some us) [] 0, p_host = vh, p_objects = n, p_closed = []\<rparr>) = (p, []) \<and>
    co_state (p_conn p) = AWAITING_START_OK \<and> co_authUser (p_conn p) = [] \<and> findQueue q (p_host p) \<noteq> None"
proof -
  let ?g = "greeted i (Some us) vh n"
  let ?ch = "(new_Channel n 1 i 131072)\<lparr>ch_open := True\<rparr>"
  define p1 where "p1 = afterFrame (open_frame 1) ?g"
  have "handleMethodFrame 1 (Buffer_of (f_payload (open_frame 1))) (received ?g) =
    (None, on_conn (connMethodFrame 1 class_CHANNEL channel_OPEN_OK (writeLongString []))
          ((received ?g)\<lparr>p_objects := n + 1, p_conn := (p_conn (received ?g))\<lparr>co_channels := [(1, ?ch)]\<rparr>\<rparr>))"
    by (subst open_method) simp_all
  then have "p1 = set_read ReadFrameHeader (on_conn (connMethodFrame 1 class_CHANNEL channel_OPEN_OK (writeLongString []))
          ((received ?g)\<lparr>p_objects := n + 1, p_conn := (p_conn (received ?g))\<lparr>co_channels := [(1, ?ch)]\<rparr>\<rparr>))"
    unfolding p1_def by (intro afterFrame_method) (simp_all add: open_frame_def connMethodFrame_def)
  then have p1: "co_state (p_conn p1) = AWAITING_START_OK" "co_authUser (p_conn p1) = []" "co_frameMax (p_conn p1) = 131072"
    "co_channels (p_conn p1) = [(1, ?ch)]" "p_host p1 = vh" "co_read (p_conn p1) = ReadFrameHeader"
    by (simp_all add: set_read_def on_conn_def connMethodFrame_def)
  define s where "s = \<lparr>s_channel = ?ch, s_host = vh, s_out = []\<rparr>"
  obtain p2 where h: "handleMethodFrame 1 (Buffer_of (f_payload (declare_frame 1 q))) (received p1) = (None, p2)"
    and p2: "co_state (p_conn p2) = AWAITING_START_OK" "co_authUser (p_conn p2) = []" "p_host p2 = s_host (queueDeclare q 0 [] s)"
    by (rule declare_method [of "received p1" 1 ?ch q]) (use p1 assms(2) in \<open>simp_all add: s_def\<close>)
  have q: "findQueue q (s_host (queueDeclare q 0 [] s)) \<noteq> None"
    using assms by (intro queueDeclare_creates) (simp_all add: s_def)
  have 2: "afterFrame (declare_frame 1 q) p1 = set_read ReadFrameHeader p2"
    using h p1 p2 by (intro afterFrame_method) (simp_all add: declare_frame_def)
  have "feed (PROTOCOL_HEADER @ frame_bytes (open_frame 1) @ frame_bytes (declare_frame 1 q))
      (start_connection \<lparr>p_conn = new_Connection i (Some us) [] 0, p_host = vh, p_objects = n, p_closed = []\<rparr>) =
      feed (frame_bytes (declare_frame 1 q) @ []) p1"
    unfolding feed_greeting p1_def append_Nil2 by (intro feed_frame) (simp_all add: effectiveMax_def open_frame_def enc_short_def)
  also have "\<dots> = (set_read ReadFrameHeader p2, [])"
    using declare_frame_small [OF assms(2)] p1 by (subst feed_frame) (simp_all add: 2 feed_nil effectiveMax_def)
  finally show ?thesis using p2 q by (simp add: set_read_def on_conn_def)
qed

theorem channels_need_no_login_witness:
  "\<exists>p. feed (PROTOCOL_HEADER @ frame_bytes (open_frame 1) @ frame_bytes (declare_frame 1 ''jobs''))
      (start_connection \<lparr>p_conn = new_Connection 1 (Some new_UserStore) [] 0,
         p_host = new_VirtualHost ''/'' None (sample_heap 0), p_objects = 0, p_closed = []\<rparr>) = (p, []) \<and>
    co_authUser (p_conn p) = [] \<and> findQueue ''jobs'' (p_host p) \<noteq> None"
  using channels_need_no_login [of "''jobs''" "new_VirtualHost ''/'' None (sample_heap 0)" 1 new_UserStore 0] new_host_parts(2)
  by auto

end
