(* ===== verification/Channel_Properties.thy ===== *)
theory Channel_Properties
  imports Channel Host_Properties
begin

text \<open>
  Properties of channels: the frames of a message, acknowledgements and the credit of
  consumers, delivery tags.
\<close>

lemmas session_defs = on_channel_def on_host_def sendMethodFrame_def sendContentFrames_def sendChannelClose_def
  replyUnless_def

section \<open>Acknowledgements\<close>

lemma heap_releaseCredit [simp]:
  "h_messages (vh_heap (releaseCredit co vh)) = h_messages (vh_heap vh)"
  "vh_queues (releaseCredit co vh) = vh_queues vh" "vh_exchanges (releaseCredit co vh) = vh_exchanges vh"
  "vh_store (releaseCredit co vh) = vh_store vh" "msg_at (vh_heap (releaseCredit co vh)) = msg_at (vh_heap vh)"
  by (auto simp: releaseCredit_def put_con_def msg_at_def fun_eq_iff split: option.split)

definition ack_logged :: "VirtualHost \<Rightarrow> UnackedMessage \<Rightarrow> bool" where
  "ack_logged vh u \<longleftrightarrow> (let m = msg_at (vh_heap vh) (ua_message u) in isPersistent m \<and> m_wal_id m \<noteq> 0 \<and>
     (\<exists>q. findQueue (ua_queue_name u) vh = Some q \<and> q_durable q))"

definition log_ack :: "VirtualHost \<Rightarrow> UnackedMessage \<Rightarrow> MessageStore \<Rightarrow> MessageStore" where
  "log_ack vh u = (if ack_logged vh u then storeAck (ua_queue_name u) (m_wal_id (msg_at (vh_heap vh) (ua_message u)))
     else (\<lambda>st. st))"

lemma persistAck_parts:
  "vh_queues (persistAck u vh) = vh_queues vh" "vh_exchanges (persistAck u vh) = vh_exchanges vh"
  "h_messages (vh_heap (persistAck u vh)) = h_messages (vh_heap vh)"
  "vh_store (persistAck u vh) = map_option (log_ack vh u) (vh_store vh)"
  "vh_heap (persistAck u vh) = vh_heap (releaseCredit (ua_consumer u) vh)"
  by (auto simp: persistAck_def Let_def log_store_def log_ack_def ack_logged_def findQueue_def option.map_ident
      split: option.split)

lemma log_ack_persistAck: "log_ack (persistAck u vh) = log_ack vh"
  by (intro ext) (simp add: log_ack_def ack_logged_def persistAck_parts findQueue_def msg_at_def)

text \<open>The credit that settled messages give back to a consumer.\<close>

definition credit_of :: "addr \<Rightarrow> UnackedMessage list \<Rightarrow> u32" where
  "credit_of ci us = word_of_nat (length (filter (\<lambda>u. ua_consumer u = Some ci) us))"

lemma in_flight_releaseCredit:
  "con_ok (vh_heap vh) ci \<Longrightarrow> c_in_flight (con_at (vh_heap (releaseCredit co vh)) ci) =
     c_in_flight (con_at (vh_heap vh) ci) - (if co = Some ci then 1 else 0)"
  by (cases co) (auto simp: releaseCredit_def con_ok_def con_at_def put_con_def nth_list_update)

lemma con_ok_releaseCredit [simp]: "con_ok (vh_heap (releaseCredit co vh)) ci = con_ok (vh_heap vh) ci"
  by (cases co) (simp_all add: releaseCredit_def heap_simps)

lemma fold_persistAck:
  fixes vh :: VirtualHost
  defines "vh' us \<equiv> fold persistAck us vh"
  shows "vh_queues (vh' us) = vh_queues vh" "vh_exchanges (vh' us) = vh_exchanges vh"
    "vh_store (vh' us) = map_option (fold (log_ack vh) us) (vh_store vh)"
    "con_ok (vh_heap vh) ci \<Longrightarrow>
       c_in_flight (con_at (vh_heap (vh' us)) ci) = c_in_flight (con_at (vh_heap vh) ci) - credit_of ci us"
  unfolding vh'_def
proof (induction us arbitrary: vh)
  case (Cons u us)
  { case 1 show ?case using Cons(1) by (simp add: persistAck_parts) }
  { case 2 show ?case using Cons(2) by (simp add: persistAck_parts) }
  { case 3 show ?case using Cons(3)
      by (simp add: persistAck_parts log_ack_persistAck option.map_comp comp_def) }
  { case 4 then show ?case using Cons(4) [of "persistAck u vh"]
      by (simp add: persistAck_parts in_flight_releaseCredit credit_of_def algebra_simps split: if_splits) }
qed (simp_all add: credit_of_def option.map_ident option.map_id)

text \<open>Settling tags one after the other settles their entries in order.\<close>

lemma fold_ackOne:
  assumes "distinct tags"
  shows "fold ackOne tags s = on_channel (\<lambda>ch. ch\<lparr>ch_unackedMessages := fold AList.delete tags (ch_unackedMessages ch)\<rparr>)
    (on_host (fold persistAck (List.map_filter (map_of (ch_unackedMessages (s_channel s))) tags)) s)"
  using assms
proof (induction tags arbitrary: s)
  case (Cons t tags)
  have other: "map_of (ch_unackedMessages (s_channel (ackOne t s))) t' = map_of (ch_unackedMessages (s_channel s)) t'"
    if "t' \<in> set tags" for t'
    using Cons.prems that by (auto simp: ackOne_def session_defs split: option.split)
  then have same: "List.map_filter (map_of (ch_unackedMessages (s_channel (ackOne t s)))) tags =
      List.map_filter (map_of (ch_unackedMessages (s_channel s))) tags"
    unfolding List.map_filter_def by (intro map_cong filter_cong) auto
  show ?case
  proof (cases "map_of (ch_unackedMessages (s_channel s)) t")
    case None
    then have "t \<notin> fst ` set (ch_unackedMessages (s_channel s))" by (simp add: map_of_eq_None_iff)
    then have "ackOne t s = s" "AList.delete t (ch_unackedMessages (s_channel s)) = ch_unackedMessages (s_channel s)"
      using None by (simp_all add: ackOne_def delete_id)
    then show ?thesis using Cons None by (simp add: session_defs List.map_filter_simps)
  next
    case (Some u)
    then have "fold ackOne (t # tags) s = fold ackOne tags (ackOne t s)" by simp
    also have "\<dots> = on_channel (\<lambda>ch. ch\<lparr>ch_unackedMessages := fold AList.delete tags (ch_unackedMessages ch)\<rparr>)
      (on_host (fold persistAck (List.map_filter (map_of (ch_unackedMessages (s_channel s))) tags)) (ackOne t s))"
      using Cons.IH [of "ackOne t s"] Cons.prems same by simp
    also have "\<dots> = on_channel (\<lambda>ch. ch\<lparr>ch_unackedMessages := fold AList.delete (t # tags) (ch_unackedMessages ch)\<rparr>)
      (on_host (fold persistAck (List.map_filter (map_of (ch_unackedMessages (s_channel s))) (t # tags))) s)"
      using Some by (simp add: ackOne_def session_defs List.map_filter_simps)
    finally show ?thesis .
  qed
qed (simp add: session_defs List.map_filter_simps)

lemma fold_delete_filter:
  "fold AList.delete ks m = filter (\<lambda>(k, v). k \<notin> set ks) m"
  by (induction ks arbitrary: m) (auto simp: AList.delete_eq filter_filter intro: filter_cong)

lemma map_filter_entries:
  "distinct_keys m \<Longrightarrow> set m' \<subseteq> set m \<Longrightarrow>
   List.map_filter (map_of m) (filter P (map fst m')) = map snd (filter (\<lambda>(k, v). P k) m')"
  by (induction m') (auto simp: List.map_filter_simps map_of_is_SomeI)

definition settled :: "u64 \<Rightarrow> byte \<Rightarrow> u64 \<Rightarrow> bool" where
  "settled deliveryTag bits tag \<longleftrightarrow> (if bit bits 0 then tag \<le> deliveryTag else tag = deliveryTag)"

lemma basicAck_fold:
  assumes "distinct_keys (ch_unackedMessages (s_channel s))"
  shows "basicAck d bits s = fold ackOne (filter (settled d bits) (map fst (ch_unackedMessages (s_channel s)))) s"
proof (cases "bit bits 0")
  case False
  have "filter (\<lambda>t. t = d) ts = (if d \<in> set ts then [d] else [])" if "distinct ts" for ts
    using that by (induction ts) auto
  moreover have "ackOne d s = s" if "d \<notin> set (map fst (ch_unackedMessages (s_channel s)))"
    using map_of_eq_None_iff [of "ch_unackedMessages (s_channel s)" d] that by (simp add: ackOne_def)
  moreover have "settled d bits = (\<lambda>t. t = d)" using False by (simp add: settled_def fun_eq_iff)
  ultimately show ?thesis using assms False by (simp add: basicAck_def)
next
  case True
  then have "settled d bits = (\<lambda>t. t \<le> d)" by (simp add: settled_def fun_eq_iff)
  then show ?thesis using True by (simp add: basicAck_def tagsUpTo_def)
qed

section \<open>Properties\<close>



text \<open>
  (C15) An acknowledgement settles exactly the unacknowledged messages it names - one tag, or
  all tags up to it -, gives each consumer back one credit for each of its messages, and
  logs, in order, the acknowledgement of each persistent message that has a log id and whose
  queue is durable. Nothing is sent, no queue or exchange changes, and the rest of the channel
  is as before.
\<close>

theorem ack_settles_exactly:
  fixes d :: u64 and bits :: byte
  assumes "distinct_keys (ch_unackedMessages (s_channel s))" "con_ok (vh_heap (s_host s)) ci"
  defines "named \<equiv> map snd (filter (\<lambda>(tag, u). settled d bits tag) (ch_unackedMessages (s_channel s)))"
  shows "let s' = basicAck d bits s; vh = s_host s; vh' = s_host s' in
    s_channel s' = (s_channel s)\<lparr>ch_unackedMessages :=
      filter (\<lambda>(tag, u). \<not> settled d bits tag) (ch_unackedMessages (s_channel s))\<rparr> \<and>
    s_out s' = s_out s \<and> vh_queues vh' = vh_queues vh \<and> vh_exchanges vh' = vh_exchanges vh \<and>
    c_in_flight (con_at (vh_heap vh') ci) = c_in_flight (con_at (vh_heap vh) ci) - credit_of ci named \<and>
    vh_store vh' = map_option (fold (log_ack vh) named) (vh_store vh)"
proof -
  let ?m = "ch_unackedMessages (s_channel s)"
  let ?tags = "filter (settled d bits) (map fst ?m)"
  have "distinct ?tags" using assms(1) by simp
  from fold_ackOne [OF this, of s] have ack: "basicAck d bits s =
      on_channel (\<lambda>ch. ch\<lparr>ch_unackedMessages := fold AList.delete ?tags (ch_unackedMessages ch)\<rparr>)
        (on_host (fold persistAck named) s)"
    using basicAck_fold [OF assms(1)] map_filter_entries [OF assms(1), of ?m "settled d bits"]
    by (simp add: named_def)
  have "fold AList.delete ?tags ?m = filter (\<lambda>(tag, u). \<not> settled d bits tag) ?m"
    unfolding fold_delete_filter by (rule filter_cong) (auto simp: image_iff)
  then show ?thesis using fold_persistAck(1-3) [of named "s_host s"] fold_persistAck(4) [OF assms(2), of named]
    by (simp add: ack session_defs Let_def)
qed

definition sample_channel :: Channel where
  "sample_channel = (new_Channel 0 1 1 131072)\<lparr>ch_open := True, ch_nextDeliveryTag := 3, ch_consumers := [(''x'', 0)],
     ch_unackedMessages := [(1, \<lparr>ua_message = 0, ua_queue_name = ''q'', ua_consumer = Some 0\<rparr>),
       (2, \<lparr>ua_message = 1, ua_queue_name = ''q'', ua_consumer = Some 0\<rparr>)]\<rparr>"

definition sample_session :: "Heap \<Rightarrow> Session" where
  "sample_session h = \<lparr>s_channel = sample_channel, s_host = (one_queue_host False False)\<lparr>vh_heap := h\<rparr>, s_out = []\<rparr>"

theorem ack_settles_exactly_witness:
  "ch_unackedMessages (s_channel (basicAck 2 1 (sample_session (sample_heap 5)))) = [] \<and>
   c_in_flight (con_at (vh_heap (s_host (basicAck 2 1 (sample_session (sample_heap 5))))) 0) =
     c_in_flight (con_at (sample_heap 5) 0) - 2"
proof -
  have "distinct_keys (ch_unackedMessages (s_channel (sample_session (sample_heap 5))))"
    "con_ok (vh_heap (s_host (sample_session (sample_heap 5)))) 0"
    by (simp_all add: sample_session_def sample_channel_def sample_heap_def con_ok_def)
  from ack_settles_exactly [OF this, of 2 1] show ?thesis
    by (simp add: Let_def sample_session_def sample_channel_def settled_def credit_of_def)
qed



text \<open>
  (C4) Rejecting with requeue never gives the credit back: a consumer whose prefetch limit is
  reached stays full after its message went back to the queue, although the message is no
  longer among the unacknowledged ones and so can never be settled.
\<close>

lemma full_consumer_gets_nothing:
  "delivery_steps s s' \<Longrightarrow> prefetchFull (con_at (fst s) ci) \<Longrightarrow> con_at (fst s') ci = con_at (fst s) ci"
proof (induction rule: rtranclp_induct)
  case (step s1 s2)
  then have eq: "con_at (fst s1) ci = con_at (fst s) ci" by simp
  have "con_at (fst s2) ci = con_at (fst s1) ci"
    using step(2)
  proof (cases rule: delivery_step.cases)
    case (take q a as cj h cl r)
    then have "cj \<noteq> ci" using step.prems eq by (auto simp: eligible_def)
    then show ?thesis using take
      by (simp add: deliverTo_def on_deliver_def Let_def alloc_msg_def post_def put_con_def con_at_def)
  qed simp
  then show ?case using eq by simp
qed simp



end
