(* ===== verification/Restart.thy ===== *)
theory Restart
  imports Host_Invariants
begin

text \<open>
  A restart: what \<open>VirtualHost::recoverFromStore\<close> makes of a log, end to end from the bytes of
  the file to the contents of the queues.
\<close>

section \<open>Queues as recovery makes them\<close>

definition bare :: "MessageQueue \<Rightarrow> bool" where
  "bare q \<longleftrightarrow> q_consumers q = [] \<and> q_queueTtlMs q = - 1 \<and> q_maxPriority q = 0 \<and> q_arguments q = [] \<and>
     q_dlxExchange q = [] \<and> \<not> q_deadLetterFn q"

definition lasting :: "Heap \<Rightarrow> addr \<Rightarrow> bool" where
  "lasting h a \<longleftrightarrow> msg_ok h a \<and> expiration (m_properties (msg_at h a)) = None"

definition calm :: "VirtualHost \<Rightarrow> bool" where
  "calm vh \<longleftrightarrow> (\<forall>n q. map_of (vh_queues vh) n = Some q \<longrightarrow> bare q \<and> list_all (lasting (vh_heap vh)) (q_messages q))"

definition stored_at :: "Heap \<Rightarrow> string \<Rightarrow> addr \<Rightarrow> StoredMessage" where
  "stored_at h n a = stored_message (m_wal_id (msg_at h a)) n (msg_at h a)"

definition contents :: "string \<Rightarrow> VirtualHost \<Rightarrow> StoredMessage list" where
  "contents n vh = (case map_of (vh_queues vh) n of None \<Rightarrow> []
     | Some q \<Rightarrow> map (stored_at (vh_heap vh) n) (q_messages q))"

text \<open>Enqueueing into such a queue only appends.\<close>

lemma enqueue_bare:
  assumes "bare q" "msg_ok h a" "list_all (lasting (stamped a h)) (q_messages q @ [a])"
  shows "enqueueLocked a h q = (stamped a h, q\<lparr>q_messages := q_messages q @ [a]\<rparr>, [])"
proof -
  have "\<not> hasPerMessageTtl (stamped a h) (q\<lparr>q_messages := q_messages q @ [a]\<rparr>)"
    using assms(3) by (auto simp: hasPerMessageTtl_def list_ex_iff list_all_iff lasting_def)
  then have "collectExpired (stamped a h) (q\<lparr>q_messages := q_messages q @ [a]\<rparr>) =
      (stamped a h, q\<lparr>q_messages := q_messages q @ [a]\<rparr>, [])"
    using assms(1) by (simp add: collectExpired_def bare_def)
  then show ?thesis
    using assms(1,2) by (simp add: enqueueLocked_parts arranged_def bare_def dispatchLocked_def)
qed

text \<open>A fresh message, stamped: the old ones are undisturbed.\<close>

lemma fresh_stamped:
  assumes "alloc_msg m h = (a, h1)"
  shows "msg_ok h1 a" "msg_at (stamped a h1) a = m\<lparr>m_enqueued_at := h_clock h1 0\<rparr>"
    "msg_ok h b \<Longrightarrow> msg_at (stamped a h1) b = msg_at h b" "msg_ok h b \<Longrightarrow> msg_ok (stamped a h1) b"
    "msg_ok (stamped a h1) a"
  using assms
  by (auto simp: alloc_msg_def msg_ok_def stamped_def put_msg_def msg_at_def now_def nth_append nth_list_update)

lemma recoverMessage_step:
  assumes "calm vh" "expiration (sm_properties sm) = None"
  obtains vh1 where "recoverMessage fn sm vh = Some vh1" "calm vh1"
    "\<And>n. map_of (vh_queues vh1) n = None \<longleftrightarrow> map_of (vh_queues vh) n = None"
    "\<And>n. contents n vh1 = contents n vh @
       (if sm_queue_name sm = n \<and> map_of (vh_queues vh) n \<noteq> None then [sm] else [])"
proof (cases "map_of (vh_queues vh) (sm_queue_name sm)")
  case None
  then show ?thesis using assms(1) by (intro that [of vh]) (auto simp: recoverMessage_def)
next
  case (Some q)
  define m where "m = new_Message\<lparr>m_exchange := sm_exchange sm, m_routing_key := sm_routing_key sm,
    m_properties := sm_properties sm, m_body := sm_body sm, m_wal_id := sm_id sm\<rparr>"
  obtain a h1 where al: "alloc_msg m (vh_heap vh) = (a, h1)" by (cases "alloc_msg m (vh_heap vh)")
  note fresh = fresh_stamped [OF al]
  have old: "lasting (stamped a h1) b" "stored_at (stamped a h1) n b = stored_at (vh_heap vh) n b"
    if "lasting (vh_heap vh) b" for b n
    using that fresh(3,4) by (auto simp: lasting_def stored_at_def)
  have new: "lasting (stamped a h1) a" "stored_at (stamped a h1) (sm_queue_name sm) a = sm"
    using fresh(2,5) assms(2) by (auto simp: lasting_def stored_at_def stored_message_def m_def)
  have all: "list_all (lasting (vh_heap vh)) (q_messages q')" "bare q'" if "map_of (vh_queues vh) n = Some q'" for n q'
    using assms(1) that by (auto simp: calm_def)
  have all': "list_all (lasting (stamped a h1)) (q_messages q')" if "map_of (vh_queues vh) n = Some q'" for n q'
    using all(1) [OF that] old(1) by (auto simp: list_all_iff)
  let ?q = "q\<lparr>q_messages := q_messages q @ [a]\<rparr>"
  define vh1 where "vh1 = put_queue (sm_queue_name sm) (stamped a h1) ?q (vh\<lparr>vh_heap := h1\<rparr>)"
  have "enqueueLocked a h1 q = (stamped a h1, ?q, [])"
    using enqueue_bare [OF all(2) [OF Some] fresh(1)] all' [OF Some] new(1) by simp
  then have run: "recoverMessage fn sm vh = Some vh1"
    using Some al by (simp add: recoverMessage_def deliverToQueue_def vh1_def flip: m_def)
  have "calm vh1"
    unfolding calm_def
    using all(2) all' new(1) Some by (auto simp: vh1_def put_queue_def bare_def)
  moreover have same: "map (stored_at (stamped a h1) n) (q_messages q') = map (stored_at (vh_heap vh) n) (q_messages q')"
    if "map_of (vh_queues vh) n' = Some q'" for n n' q'
    using all(1) [OF that] old(2) by (auto simp: list_all_iff)
  have "contents n vh1 = contents n vh @
       (if sm_queue_name sm = n \<and> map_of (vh_queues vh) n \<noteq> None then [sm] else [])" for n
    using new(2) Some same [OF Some] same [of n] by (auto simp: contents_def vh1_def put_queue_def split: option.split)
  moreover have "map_of (vh_queues vh1) n = None \<longleftrightarrow> map_of (vh_queues vh) n = None" for n
    using Some by (auto simp: vh1_def put_queue_def)
  ultimately show ?thesis using that [of vh1] run by blast
qed

lemma recoverMessages_run:
  assumes "calm vh" "\<And>sm. sm \<in> set sms \<Longrightarrow> expiration (sm_properties sm) = None"
  shows "\<exists>vh'. recoverMessages sms vh = Some vh' \<and> calm vh' \<and>
    (\<forall>n. map_of (vh_queues vh') n = None \<longleftrightarrow> map_of (vh_queues vh) n = None) \<and>
    (\<forall>n. contents n vh' = contents n vh @
       (if map_of (vh_queues vh) n = None then [] else filter (\<lambda>sm. sm_queue_name sm = n) sms))"
  using assms
proof (induction sms arbitrary: vh)
  case (Cons sm sms)
  obtain vh1 where 1: "recoverMessage (onDeadLetter vh) sm vh = Some vh1" "calm vh1"
    "\<And>n. map_of (vh_queues vh1) n = None \<longleftrightarrow> map_of (vh_queues vh) n = None"
    "\<And>n. contents n vh1 = contents n vh @
       (if sm_queue_name sm = n \<and> map_of (vh_queues vh) n \<noteq> None then [sm] else [])"
    using recoverMessage_step [OF Cons.prems(1), of sm] Cons.prems(2) by (metis list.set_intros(1))
  obtain vh' where 2: "recoverMessages sms vh1 = Some vh'" "calm vh'"
    "\<And>n. map_of (vh_queues vh') n = None \<longleftrightarrow> map_of (vh_queues vh1) n = None"
    "\<And>n. contents n vh' = contents n vh1 @
       (if map_of (vh_queues vh1) n = None then [] else filter (\<lambda>sm. sm_queue_name sm = n) sms)"
    using Cons.IH [OF 1(2)] Cons.prems(2) by (metis list.set_intros(2))
  show ?case using 1 2 by (intro exI [of _ vh']) simp
qed simp

section \<open>Declarations\<close>

lemma bindDefault_queues [simp]: "vh_queues (bindDefault n vh) = vh_queues vh" "vh_heap (bindDefault n vh) = vh_heap vh"
  by (simp_all add: bindDefault_def split: option.split)

lemma recover_frames:
  "vh_queues (fold recoverExchange eds vh) = vh_queues vh" "vh_queues (fold recoverBinding sbs vh) = vh_queues vh"
  by (induction eds arbitrary: vh, simp_all add: recoverExchange_def)
    (induction sbs arbitrary: vh, simp_all add: recoverBinding_def split: option.split)

definition bare_queues :: "VirtualHost \<Rightarrow> bool" where
  "bare_queues vh \<longleftrightarrow> (\<forall>n q. map_of (vh_queues vh) n = Some q \<longrightarrow> bare q \<and> q_messages q = [])"

lemma recoverQueues_bare: "bare_queues vh \<Longrightarrow> bare_queues (fold recoverQueue qds vh)"
proof (induction qds arbitrary: vh)
  case (Cons qd qds)
  have "bare_queues (recoverQueue qd vh)"
    using Cons.prems by (auto simp: bare_queues_def recoverQueue_def bare_def new_MessageQueue_def)
  then show ?case using Cons.IH by simp
qed simp

lemma recoverQueues_names:
  "map_of (vh_queues (fold recoverQueue qds vh)) n = None \<longleftrightarrow> map_of (vh_queues vh) n = None \<and> n \<notin> qd_name ` set qds"
proof (induction qds arbitrary: vh)
  case (Cons qd qds)
  have "map_of (vh_queues (recoverQueue qd vh)) n = None \<longleftrightarrow> map_of (vh_queues vh) n = None \<and> n \<noteq> qd_name qd"
    by (auto simp: recoverQueue_def)
  then show ?case using Cons.IH [of "recoverQueue qd vh"] by auto
qed simp

section \<open>The host that a log gives\<close>

lemma restart_contents:
  assumes "list_all wf_entry es" "ms_wal s = log_bytes es"
    "\<And>sm. sm \<in> set (live_messages es) \<Longrightarrow> expiration (sm_properties sm) = None"
  shows "\<exists>vh. recoverFromStore (new_VirtualHost name (Some s) h) = Some vh \<and>
    (\<forall>n. findQueue n vh = None \<longleftrightarrow> n \<notin> qd_name ` set (live_queues es)) \<and>
    (\<forall>n q. findQueue n vh = Some q \<longrightarrow> bare q \<and> contents n vh =
       filter (\<lambda>sm. sm_queue_name sm = n \<and> AckEntry (sm_id sm) n \<notin> set es) (live_messages es))"
proof -
  obtain d s' where d: "recover s = (d, s')" by (cases "recover s")
  have st: "stands_for d es" using recover_log [OF assms(1,2)] d by simp
  define vh0 where "vh0 = fold recoverBinding (rd_bindings d) (fold recoverQueue (rd_queues d)
    (fold recoverExchange (rd_exchanges d) (new_VirtualHost name (Some s') h)))"
  have q0: "vh_queues vh0 = vh_queues (fold recoverQueue (rd_queues d)
      (fold recoverExchange (rd_exchanges d) (new_VirtualHost name (Some s') h)))"
    by (simp add: vh0_def recover_frames)
  have "bare_queues vh0"
    using recoverQueues_bare [of "fold recoverExchange (rd_exchanges d) (new_VirtualHost name (Some s') h)"]
    by (simp add: bare_queues_def q0 recover_frames new_VirtualHost_def)
  then have calm: "calm vh0" and none: "contents n vh0 = []" for n
    by (auto simp: calm_def bare_queues_def contents_def split: option.split)
  have names: "map_of (vh_queues vh0) n = None \<longleftrightarrow> n \<notin> qd_name ` set (live_queues es)" for n
    using st by (simp add: q0 recoverQueues_names recover_frames stands_for_def new_VirtualHost_def)
  have "expiration (sm_properties sm) = None" if "sm \<in> set (rd_messages d)" for sm
    using that st assms(3) by (simp add: stands_for_def)
  from recoverMessages_run [OF calm this] obtain vh where vh: "recoverMessages (rd_messages d) vh0 = Some vh" "calm vh"
    "\<And>n. map_of (vh_queues vh) n = None \<longleftrightarrow> map_of (vh_queues vh0) n = None"
    "\<And>n. contents n vh = contents n vh0 @
       (if map_of (vh_queues vh0) n = None then [] else filter (\<lambda>sm. sm_queue_name sm = n) (rd_messages d))"
    by blast
  have "recoverFromStore (new_VirtualHost name (Some s) h) = Some vh"
    using vh(1) d by (simp add: recoverFromStore_def new_VirtualHost_def vh0_def)
  moreover have "contents n vh = filter (\<lambda>sm. sm_queue_name sm = n \<and> AckEntry (sm_id sm) n \<notin> set es) (live_messages es)"
    if "findQueue n vh = Some q" for n q
  proof -
    have "map_of (vh_queues vh0) n \<noteq> None" using that vh(3) [of n] by (simp add: findQueue_def)
    then show ?thesis using vh(4) none st by (auto simp: stands_for_def intro: filter_cong)
  qed
  moreover have "bare q" if "findQueue n vh = Some q" for n q
    using vh(2) that by (auto simp: calm_def findQueue_def)
  ultimately show ?thesis using vh(3) names by (intro exI [of _ vh]) (auto simp: findQueue_def)
qed

section \<open>Properties\<close>



end
