(* ===== verification/Publishing.thy ===== *)
theory Publishing
  imports Channel_Properties Restart
begin

text \<open>
  From \<open>basic.publish\<close> to the queues: the body is assembled from its frames, the message goes
  to the log before it is confirmed, and a message that reaches no queue is returned or dropped.
\<close>

section \<open>A message no queue holds is left alone\<close>

definition untouched :: "addr \<Rightarrow> VirtualHost \<Rightarrow> bool" where
  "untouched x vh \<longleftrightarrow> msg_ok (vh_heap vh) x \<and> (\<forall>n q. map_of (vh_queues vh) n = Some q \<longrightarrow> x \<notin> set (q_messages q))"

definition spares :: "addr \<Rightarrow> VirtualHost \<Rightarrow> VirtualHost \<Rightarrow> bool" where
  "spares x vh vh' \<longleftrightarrow> (untouched x vh \<longrightarrow> untouched x vh' \<and> msg_at (vh_heap vh') x = msg_at (vh_heap vh) x)"

lemma spares_refl [simp]: "spares x vh vh"
  by (simp add: spares_def)

lemma spares_trans: "spares x vh vh1 \<Longrightarrow> spares x vh1 vh2 \<Longrightarrow> spares x vh vh2"
  by (simp add: spares_def)

lemma delivery_steps_spare:
  assumes "delivery_steps s s'" "msg_ok (fst s) x" "x \<notin> set (q_messages (snd s))"
  shows "msg_ok (fst s') x \<and> msg_at (fst s') x = msg_at (fst s) x \<and> x \<notin> set (q_messages (snd s'))"
  using assms
proof (induction rule: rtranclp_induct)
  case (step s1 s2)
  from step(2) show ?case using step
    by (cases rule: delivery_step.cases) (auto simp: heap_simps)
qed simp

lemma collect_spare:
  assumes "collectExpired h q = (h', q', dlq)" "msg_ok h x" "x \<notin> set (q_messages q)"
  shows "msg_ok h' x \<and> msg_at h' x = msg_at h x \<and> x \<notin> set (q_messages q') \<and> x \<notin> fst ` set dlq"
proof -
  obtain h1 where "collectExpired h q =
     (h1, q\<lparr>q_messages := dropWhile (expired h q (h_clock h 0)) (q_messages q)\<rparr>,
      map (\<lambda>a. (a, ''expired'')) (takeWhile (expired h q (h_clock h 0)) (q_messages q)))" "h_messages h1 = h_messages h"
    by (rule collectExpired_spec)
  then show ?thesis using assms by (auto simp: msg_ok_def msg_at_def dest: set_dropWhileD set_takeWhileD)
qed

lemma dispatch_spare:
  assumes "dispatchLocked h q = (h', q')" "msg_ok h x" "x \<notin> set (q_messages q)"
  shows "msg_ok h' x \<and> msg_at h' x = msg_at h x \<and> x \<notin> set (q_messages q')"
  using delivery_steps_spare [OF dispatch.run_steps [of h q]] assms by simp

lemma put_msg_other: "x \<noteq> a \<Longrightarrow> msg_at (put_msg a m h) x = msg_at h x"
  by (simp add: msg_at_def put_msg_def)

lemma enqueue_spare:
  assumes "enqueueLocked a h q = (h', q', dlq)" "msg_ok h x" "x \<notin> set (q_messages q)" "x \<noteq> a"
  shows "msg_ok h' x \<and> msg_at h' x = msg_at h x \<and> x \<notin> set (q_messages q') \<and> x \<notin> fst ` set dlq"
proof -
  obtain t h1 where n: "now h = (t, h1)" by (cases "now h")
  define h2 where "h2 = put_msg a ((msg_at h1 a)\<lparr>m_enqueued_at := t\<rparr>) h1"
  define q1 where "q1 = q\<lparr>q_messages := if q_maxPriority q > 0 then prioritySort h2 (q_messages q @ [a])
    else q_messages q @ [a]\<rparr>"
  obtain h3 q2 dl where c: "collectExpired h2 q1 = (h3, q2, dl)" by (cases "collectExpired h2 q1")
  have "dispatchLocked h3 q2 = (h', q')" "dl = dlq"
    using assms(1) c n unfolding enqueueLocked_def Let_def q1_def h2_def by (simp_all split: prod.splits)
  moreover have "h_messages h1 = h_messages h" using n by (auto simp: now_def)
  moreover have "msg_ok h2 x" "msg_at h2 x = msg_at h x" "x \<notin> set (q_messages q1)"
    using assms(2-4) calculation(3) by (simp_all add: h2_def q1_def prioritySort_def put_msg_def msg_ok_def msg_at_def)
  ultimately show ?thesis using collect_spare [OF c, of x] dispatch_spare by metis
qed

lemma spares_put_queue:
  assumes "map_of (vh_queues vh) n = Some q"
    "msg_ok (vh_heap vh) x \<Longrightarrow> x \<notin> set (q_messages q) \<Longrightarrow>
       msg_ok h x \<and> msg_at h x = msg_at (vh_heap vh) x \<and> x \<notin> set (q_messages q')"
  shows "spares x vh (put_queue n h q' vh)"
  using assms by (auto simp: spares_def untouched_def put_queue_def)

locale sparing_handler =
  fixes fn :: handler
  assumes fn_spares: "fn exchange rk a vh = Some vh' \<Longrightarrow> x \<noteq> a \<Longrightarrow> spares x vh vh'"
begin

lemma deadLetterVia_spares:
  assumes "deadLetterVia fn n a reason vh = Some vh'" "x \<noteq> a"
  shows "spares x vh vh'"
proof (cases "map_of (vh_queues vh) n")
  case (Some q)
  obtain h r where d: "deadLetter q a reason (vh_heap vh) = (h, r)" by (cases "deadLetter q a reason (vh_heap vh)")
  then have "msg_ok h x = msg_ok (vh_heap vh) x" "msg_at h x = msg_at (vh_heap vh) x"
    using assms(2) by (auto simp: deadLetter_def Let_def put_msg_other heap_simps split: if_splits)
  then have "spares x vh (vh\<lparr>vh_heap := h\<rparr>)" by (simp add: spares_def untouched_def)
  moreover have "r = None \<or> (\<exists>e k. r = Some (e, k, a))" using d by (auto simp: deadLetter_def Let_def split: if_splits)
  ultimately show ?thesis using assms Some d
    by (auto simp: deadLetterVia_def) (metis spares_trans fn_spares)
qed (use assms in \<open>simp add: deadLetterVia_def\<close>)

lemma deliverDeadLetters_spares:
  "deliverDeadLetters fn n dlq vh = Some vh' \<Longrightarrow> x \<notin> fst ` set dlq \<Longrightarrow> spares x vh vh'"
proof (induction dlq arbitrary: vh)
  case (Cons d dlq)
  obtain a r where d: "d = (a, r)" by (cases d)
  obtain vh1 where "deadLetterVia fn n a r vh = Some vh1" "deliverDeadLetters fn n dlq vh1 = Some vh'"
    using Cons.prems(1) by (auto simp: d bind_eq_Some_conv)
  then show ?case using Cons.IH [of vh1] Cons.prems(2) deadLetterVia_spares [of n a r vh vh1 x] spares_trans [of x vh vh1 vh']
    by (simp add: d)
qed simp

lemma deliverToQueue_spares:
  assumes "deliverToQueue fn n a vh = Some vh'" "x \<noteq> a"
  shows "spares x vh vh'"
proof (cases "map_of (vh_queues vh) n")
  case (Some q)
  obtain h q' dlq where e: "enqueueLocked a (vh_heap vh) q = (h, q', dlq)" by (cases "enqueueLocked a (vh_heap vh) q")
  have r: "deliverDeadLetters fn n dlq (put_queue n h q' vh) = Some vh'"
    using assms(1) Some e by (simp add: deliverToQueue_def)
  have put: "spares x vh (put_queue n h q' vh)"
    using enqueue_spare [OF e _ _ assms(2)] by (intro spares_put_queue [OF Some]) blast
  show ?thesis
  proof (cases "untouched x vh")
    case True
    then have "x \<notin> fst ` set dlq" using enqueue_spare [OF e _ _ assms(2)] Some by (auto simp: untouched_def)
    then show ?thesis using deliverDeadLetters_spares [OF r] put spares_trans by blast
  qed (simp add: spares_def)
qed (use assms in \<open>simp add: deliverToQueue_def\<close>)

lemma deliverToAll_spares: "deliverToAll fn qs a vh = Some vh' \<Longrightarrow> x \<noteq> a \<Longrightarrow> spares x vh vh'"
  by (induction qs arbitrary: vh) (auto simp: bind_eq_Some_conv intro: spares_trans [OF deliverToQueue_spares])

end

lemma handler_spares: "sparing_handler (deadLetterHandler n)"
proof (induction n)
  case 0
  show ?case by unfold_locales simp
next
  case (Suc n)
  show ?case by unfold_locales (auto dest: sparing_handler.deliverToAll_spares [OF Suc])
qed

interpretation sparing: sparing_handler "deadLetterHandler n"
  by (rule handler_spares)

section \<open>The log grows by the message for each durable queue\<close>

definition durable_queue :: "VirtualHost \<Rightarrow> string \<Rightarrow> bool" where
  "durable_queue vh n \<longleftrightarrow> (\<exists>q. findQueue n vh = Some q \<and> q_durable q)"

lemma durable_queue_durables: "durable_queue vh n \<longleftrightarrow> map_of (queue_durables vh) n = Some True"
  by (auto simp: durable_queue_def findQueue_def queue_durables_def map_of_map_values)

lemma durable_queue_same: "same_names vh vh' \<Longrightarrow> durable_queue vh' = durable_queue vh"
  by (intro ext) (simp add: durable_queue_durables same_names_def)

primrec publish_entries :: "Message \<Rightarrow> u64 \<Rightarrow> string list \<Rightarrow> WalEntry list" where
  "publish_entries m i [] = []"
| "publish_entries m i (n # ns) = MessageEntry (stored_message i n m) # publish_entries m (i + 1) ns"

lemma log_bytes_Cons: "log_bytes (e # es) = enc_entry e @ log_bytes es"
  by (simp add: log_bytes_def)

lemma log_bytes_Nil [simp]: "log_bytes [] = []"
  by (simp add: log_bytes_def)

lemma persistMessage_log:
  assumes "isPersistent (msg_at (vh_heap vh) a)" "vh_store vh = Some st" "ms_open st"
  obtains st' where "vh_store (persistMessage n a vh) = Some st'" "ms_open st'"
    "\<not> durable_queue vh n \<Longrightarrow> st' = st"
    "durable_queue vh n \<Longrightarrow> ms_nextMsgId st' = ms_nextMsgId st + 1 \<and> ms_wal st' = ms_wal st @
       enc_entry (MessageEntry (stored_message (ms_nextMsgId st) n (msg_at (vh_heap vh) a)))"
proof (cases "durable_queue vh n")
  case True
  obtain i st' where s: "storeMessage n (msg_at (vh_heap vh) a) st = (i, st')"
    by (cases "storeMessage n (msg_at (vh_heap vh) a) st")
  have "vh_store (persistMessage n a vh) = Some st'"
    using True assms(1,2) s by (auto simp: persistMessage_def durable_queue_def)
  then show ?thesis using that [of st'] True storeMessage_appends [OF assms(3) s] by simp
next
  case False
  then have "persistMessage n a vh = vh"
    using assms(2) by (auto simp: persistMessage_def durable_queue_def Let_def split: option.split)
  then show ?thesis using that [of st] False assms(2,3) by simp
qed

lemma persistMessage_parts:
  "vh_queues (persistMessage n a vh) = vh_queues vh" "vh_exchanges (persistMessage n a vh) = vh_exchanges vh"
  "x \<noteq> a \<Longrightarrow> msg_at (vh_heap (persistMessage n a vh)) x = msg_at (vh_heap vh) x"
  "msg_ok (vh_heap (persistMessage n a vh)) x = msg_ok (vh_heap vh) x"
  by (auto simp: persistMessage_def Let_def put_msg_other heap_simps split: option.split prod.split)

lemma durable_queue_queues: "vh_queues vh' = vh_queues vh \<Longrightarrow> durable_queue vh' = durable_queue vh"
  by (intro ext) (simp add: durable_queue_def findQueue_def)

lemma deliver_keeps_log:
  assumes "deliverToQueue (onDeadLetter vh0) n a vh = Some vh'"
  shows "vh_store vh' = vh_store vh" "durable_queue vh' = durable_queue vh" "x \<noteq> a \<Longrightarrow> spares x vh vh'"
proof -
  note same = naming.deliverToQueue_names [OF assms [unfolded onDeadLetter_def]]
  show "vh_store vh' = vh_store vh" using same by (simp add: same_names_def)
  show "durable_queue vh' = durable_queue vh" using same by (rule durable_queue_same)
  show "spares x vh vh'" if "x \<noteq> a" using assms [unfolded onDeadLetter_def] that by (rule sparing.deliverToQueue_spares)
qed

text \<open>The loop over several queues copies the message for each of them.\<close>

lemma publishLoop_log:
  assumes "publishLoop True ns a vh = Some vh'" "untouched a vh" "isPersistent (msg_at (vh_heap vh) a)"
    "vh_store vh = Some st" "ms_open st"
  shows "\<exists>st'. vh_store vh' = Some st' \<and> ms_wal st' = ms_wal st @
    log_bytes (publish_entries (msg_at (vh_heap vh) a) (ms_nextMsgId st) (filter (durable_queue vh) ns))"
  using assms
proof (induction ns arbitrary: vh st)
  case (Cons n ns)
  let ?m = "msg_at (vh_heap vh) a"
  obtain c h where al: "alloc_msg ?m (vh_heap vh) = (c, h)" by (cases "alloc_msg ?m (vh_heap vh)")
  define vh0 where "vh0 = vh\<lparr>vh_heap := h\<rparr>"
  define vh1 where "vh1 = persistMessage n c vh0"
  obtain vh2 where d: "deliverToQueue (onDeadLetter vh1) n c vh1 = Some vh2" and l: "publishLoop True ns a vh2 = Some vh'"
    using Cons.prems(1) al by (auto simp: Let_def bind_eq_Some_conv vh1_def vh0_def)
  have ok: "msg_ok (vh_heap vh) a" using Cons.prems(2) by (simp add: untouched_def)
  have c: "msg_at h c = ?m" "a \<noteq> c" "msg_ok h a" "msg_at h a = ?m"
    using al ok by (auto simp: alloc_msg_def msg_ok_def msg_at_def nth_append)
  have "untouched a vh1" "msg_at (vh_heap vh1) a = ?m"
    using Cons.prems(2) c by (auto simp: untouched_def vh1_def vh0_def persistMessage_parts)
  with deliver_keeps_log(3) [OF d c(2)] have a: "untouched a vh2" "msg_at (vh_heap vh2) a = ?m"
    by (simp_all add: spares_def)
  have dur: "durable_queue vh2 = durable_queue vh" "durable_queue vh0 = durable_queue vh"
    using deliver_keeps_log(2) [OF d] durable_queue_queues [of vh1 vh] durable_queue_queues [of vh0 vh]
    by (simp_all add: vh1_def vh0_def persistMessage_parts)
  have "isPersistent (msg_at (vh_heap vh0) c)" "vh_store vh0 = Some st"
    using Cons.prems(3,4) c(1) by (simp_all add: vh0_def)
  then obtain st1 where st1: "vh_store vh1 = Some st1" "ms_open st1" "\<not> durable_queue vh n \<Longrightarrow> st1 = st"
    "durable_queue vh n \<Longrightarrow> ms_nextMsgId st1 = ms_nextMsgId st + 1 \<and> ms_wal st1 = ms_wal st @
       enc_entry (MessageEntry (stored_message (ms_nextMsgId st) n ?m))"
    using persistMessage_log [of vh0 c st n] Cons.prems(5) c(1) dur(2) unfolding vh1_def
    by (auto simp: vh0_def)
  have "vh_store vh2 = Some st1" using deliver_keeps_log(1) [OF d] st1(1) by simp
  then obtain st' where "vh_store vh' = Some st'" "ms_wal st' = ms_wal st1 @
      log_bytes (publish_entries ?m (ms_nextMsgId st1) (filter (durable_queue vh) ns))"
    using Cons.IH [OF l a(1)] a(2) Cons.prems(3) st1(2) dur(1) by auto
  then show ?case using st1(3,4) by (cases "durable_queue vh n") (simp_all add: log_bytes_Cons)
qed simp

lemma publishLoop_log_any:
  assumes "publishLoop (length ns > 1) ns a vh = Some vh'" "untouched a vh" "isPersistent (msg_at (vh_heap vh) a)"
    "vh_store vh = Some st" "ms_open st"
  shows "\<exists>st'. vh_store vh' = Some st' \<and> ms_wal st' = ms_wal st @
    log_bytes (publish_entries (msg_at (vh_heap vh) a) (ms_nextMsgId st) (filter (durable_queue vh) ns))"
proof (cases "length ns > 1")
  case True
  then show ?thesis using publishLoop_log [of ns a vh vh' st] assms by simp
next
  case False
  then consider "ns = []" | n where "ns = [n]" by (cases ns) auto
  then show ?thesis
  proof cases
    case 1
    then show ?thesis using assms by simp
  next
    case 2
    obtain st1 where st1: "vh_store (persistMessage n a vh) = Some st1" "\<not> durable_queue vh n \<Longrightarrow> st1 = st"
      "durable_queue vh n \<Longrightarrow> ms_nextMsgId st1 = ms_nextMsgId st + 1 \<and> ms_wal st1 = ms_wal st @
         enc_entry (MessageEntry (stored_message (ms_nextMsgId st) n (msg_at (vh_heap vh) a)))"
      using persistMessage_log [OF assms(3-5)] by metis
    have "deliverToQueue (onDeadLetter (persistMessage n a vh)) n a (persistMessage n a vh) = Some vh'"
      using assms(1) 2 by (simp add: bind_eq_Some_conv Let_def)
    from deliver_keeps_log(1) [OF this] show ?thesis using 2 st1
      by (cases "durable_queue vh n") (simp_all add: log_bytes_Cons)
  qed
qed

section \<open>Bodies in parts\<close>

fun feedBody :: "byte list list \<Rightarrow> Session \<Rightarrow> outcome" where
  "feedBody [] s = (None, s)"
| "feedBody (c # cs) s = (case handleContentBody c s of (None, s') \<Rightarrow> feedBody cs s' | (Some e, s') \<Rightarrow> (Some e, s'))"

definition with_body :: "byte list \<Rightarrow> PendingPublish \<Rightarrow> PendingPublish" where
  "with_body bs p = p\<lparr>pp_body := pp_body p @ bs, pp_bodyReceived := pp_bodyReceived p + word_of_nat (length bs)\<rparr>"

lemma with_body_join [simp]: "with_body bs (with_body as p) = with_body (as @ bs) p" "with_body [] p = p"
  by (simp_all add: with_body_def add.assoc)

definition pending_set :: "PendingPublish \<Rightarrow> Session \<Rightarrow> Session" where
  "pending_set p s = on_channel (\<lambda>ch. ch\<lparr>ch_pendingPublish := Some p\<rparr>) s"

lemma pending_set_simps [simp]:
  "ch_pendingPublish (s_channel (pending_set p s)) = Some p" "pending_set p (pending_set p' s) = pending_set p s"
  by (simp_all add: pending_set_def on_channel_def)

lemma handleContentBody_pending:
  "handleContentBody bs (pending_set p s) =
     (let p' = with_body bs p; s' = pending_set p' s
      in if pp_bodyReceived p' \<ge> pp_bodySize p' then receive s' (attempt (completePublish p' s')) else (None, s'))"
  unfolding handleContentBody_def pending_set_simps option.case Let_def
  by (simp add: with_body_def pending_set_def on_channel_def)

lemma of_nat_u64_le: "m < 2 ^ 64 \<Longrightarrow> k < 2 ^ 64 \<Longrightarrow> (word_of_nat m :: u64) \<le> word_of_nat k \<longleftrightarrow> m \<le> k"
  by (simp only: word_le_nat_alt unat_of_nat_u64)

lemma feedBody_parts:
  assumes "cs \<noteq> []" "last cs \<noteq> []" "pp_bodyReceived p = word_of_nat n" "pp_bodySize p = word_of_nat (n + length (concat cs))"
    "n + length (concat cs) < 2 ^ 64"
  shows "feedBody cs (pending_set p s) =
    (let p' = with_body (concat cs) p; s' = pending_set p' s in receive s' (attempt (completePublish p' s')))"
  using assms
proof (induction cs arbitrary: p n)
  case (Cons c cs)
  have sz: "pp_bodyReceived (with_body c p) = word_of_nat (n + length c)" "pp_bodySize (with_body c p) = pp_bodySize p"
    using Cons.prems(3) by (simp_all add: with_body_def)
  show ?case
  proof (cases "cs = []")
    case True
    have "feedBody [c] (pending_set p s) = handleContentBody c (pending_set p s)"
      by (simp split: prod.split option.split)
    then show ?thesis using True Cons.prems(4) sz unfolding handleContentBody_pending by (simp add: Let_def)
  next
    case False
    then have "last cs \<in> set cs" "last cs \<noteq> []" using Cons.prems(2) by simp_all
    then have "0 < length (concat cs)" by (auto simp: concat_eq_Nil_conv)
    then have "\<not> pp_bodySize (with_body c p) \<le> pp_bodyReceived (with_body c p)"
      using sz Cons.prems(4,5) of_nat_u64_le [of "n + length (concat (c # cs))" "n + length c"] by simp
    then have "feedBody (c # cs) (pending_set p s) = feedBody cs (pending_set (with_body c p) s)"
      using handleContentBody_pending [of c p s] by (simp add: Let_def)
    also have "\<dots> = (let p' = with_body (concat cs) (with_body c p); s' = pending_set p' s
        in receive s' (attempt (completePublish p' s')))"
      using Cons.IH [OF False, of "with_body c p" "n + length c"] Cons.prems(2,4,5) sz False by (simp add: add.assoc)
    finally show ?thesis by simp
  qed
qed simp

section \<open>Reading the arguments\<close>

lemma publish_method:
  assumes "length exchange \<le> 255" "length key \<le> 255" "\<not> bit bits 1"
    "at_input buf (enc16 r @ enc_short exchange @ enc_short key @ [bits])"
  shows "handleBasicPublish buf s =
    (None, pending_set (new_PendingPublish\<lparr>pp_exchange := exchange, pp_routing_key := key, pp_mandatory := bit bits 0\<rparr>) s)"
proof -
  note 1 = u16.rd_then [OF TrueI assms(4)]
  note 2 = short_str.rd_then [OF assms(1) 1(2)]
  note 3 = short_str.rd_then [OF assms(2) 2(2)]
  note 4 = u8.rd_then(1) [OF TrueI, of _ bits "[]", simplified, OF 3(2) [simplified]]
  have "handleBasicPublish buf s = receive s (Inr (basicPublish exchange key bits s))"
    unfolding handleBasicPublish_def by (simp only: 1(1) 2(1) 3(1) prod.case) (simp add: 4 [simplified])
  then show ?thesis using assms(3) by (simp add: basicPublish_def receive_def pending_set_def)
qed

lemma header_args:
  assumes "wf_props props"
  shows "\<exists>b1 b2 b3 b4. readUint16 (Buffer_of (enc16 c @ enc16 0 @ enc64 n @ enc_props props @ rest)) = Inr (c, b1) \<and>
    readUint16 b1 = Inr (0, b2) \<and> readUint64 b2 = Inr (n, b3) \<and> decode b3 = Inr (props, b4)"
proof -
  let ?b = "Buffer_of (enc16 c @ enc16 0 @ enc64 n @ enc_props props @ rest)"
  have 0: "at_input ?b (enc16 c @ enc16 0 @ enc64 n @ enc_props props @ rest)" by simp
  note 1 = u16.rd_then(2) [OF TrueI 0]
  note 2 = u16.rd_then(2) [OF TrueI 1]
  note 3 = u64.rd_then(2) [OF TrueI 2]
  show ?thesis
    using u16.rd_enc [OF TrueI 0] u16.rd_enc [OF TrueI 1] u64.rd_enc [OF TrueI 2] props.rd_enc [OF assms 3] by blast
qed

lemma header_method:
  assumes "wf_props props" "n \<le> MAX_BODY_SIZE" "n \<noteq> 0"
  shows "handleContentHeader (Buffer_of (enc16 c @ enc16 0 @ enc64 n @ enc_props props)) (pending_set p s) =
    (None, pending_set (p\<lparr>pp_bodySize := n, pp_properties := props\<rparr>) s)"
  using header_args [OF assms(1), of c n "[]"] assms(2,3)
  by (auto simp: handleContentHeader_def reading_def not_less Let_def pending_set_def on_channel_def)

text \<open>The publication that \<open>basic.publish\<close>, header and body amount to.\<close>

definition publication :: "string \<Rightarrow> string \<Rightarrow> bool \<Rightarrow> BasicProperties \<Rightarrow> byte list \<Rightarrow> PendingPublish" where
  "publication exchange key mandatory props body =
     \<lparr>pp_exchange = exchange, pp_routing_key = key, pp_mandatory = mandatory, pp_immediate = False,
      pp_bodySize = word_of_nat (length body), pp_bodyReceived = word_of_nat (length body),
      pp_properties = props, pp_body = body\<rparr>"

definition announced :: "string \<Rightarrow> string \<Rightarrow> bool \<Rightarrow> BasicProperties \<Rightarrow> nat \<Rightarrow> PendingPublish" where
  "announced exchange key mandatory props n =
     new_PendingPublish\<lparr>pp_exchange := exchange, pp_routing_key := key, pp_mandatory := mandatory,
       pp_bodySize := word_of_nat n, pp_properties := props\<rparr>"

lemma announced_with_body:
  "with_body body (announced exchange key mandatory props (length body)) = publication exchange key mandatory props body"
  by (simp add: with_body_def announced_def publication_def new_PendingPublish_def)

lemma body_size_nonzero:
  assumes "cs \<noteq> []" "last cs \<noteq> []" "length (concat cs) < 2 ^ 64"
  shows "word_of_nat (length (concat cs)) \<noteq> (0 :: u64)"
proof -
  have "0 < length (concat cs)" using assms(1,2) last_in_set [of cs] by (auto simp: concat_eq_Nil_conv)
  then show ?thesis using of_nat_u64_le [of "length (concat cs)" 0] assms(3) by auto
qed

section \<open>Confirms and the log\<close>

lemma confirmed_publish_log:
  assumes "completePublish p s = Some s'" "host_ok (s_host s)" "vh_store (s_host s) = Some st" "ms_open st"
    "isPersistent (published p (ch_connectionId (s_channel s)))" "ch_confirmMode (s_channel s)"
  defines "m \<equiv> published p (ch_connectionId (s_channel s))"
    and "ns \<equiv> routeMessage (pp_exchange p) (pp_routing_key p) (headers (pp_properties p)) (s_host s)"
  shows "\<exists>st'. vh_store (s_host s') = Some st' \<and> ms_wal st' = ms_wal st @
      log_bytes (publish_entries m (ms_nextMsgId st) (filter (durable_queue (s_host s)) ns))"
    "\<exists>out. s_out s' = out @ [methodFrame (ch_id (s_channel s)) class_BASIC basic_ACK
         (\<lambda>b. writeUint8 0 (writeUint64 (ch_nextConfirmSeqNo (s_channel s)) b))]"
    "ch_nextConfirmSeqNo (s_channel s') = ch_nextConfirmSeqNo (s_channel s) + 1"
proof -
  obtain a h where al: "alloc_msg m (vh_heap (s_host s)) = (a, h)" by (cases "alloc_msg m (vh_heap (s_host s))")
  define vh where "vh = (s_host s)\<lparr>vh_heap := h\<rparr>"
  have m: "m_exchange m = pp_exchange p" "m_routing_key m = pp_routing_key p" "m_properties m = pp_properties p"
    by (simp_all add: m_def published_def)
  have ns: "routeMessage (m_exchange m) (m_routing_key m) (headers (m_properties m)) vh = ns"
    by (simp add: ns_def m vh_def routeMessage_def)
  have a: "untouched a vh" "msg_at (vh_heap vh) a = m"
    using al assms(2) map_of_SomeD [of "vh_queues (s_host s)"]
    by (fastforce simp: untouched_def vh_def alloc_msg_def msg_ok_def msg_at_def nth_append host_ok_def queue_ok_def)+
  have dur: "durable_queue vh = durable_queue (s_host s)" by (rule durable_queue_queues) (simp add: vh_def)
  obtain s2 where s2: "s' = on_channel (\<lambda>ch. ch\<lparr>ch_pendingPublish := None\<rparr>) (confirmPublish s2)"
    "s_channel s2 = s_channel s" "ns = [] \<and> s_host s2 = vh \<or> publishLoop (length ns > 1) ns a vh = Some (s_host s2)"
  proof (cases "ns = [] \<and> m_mandatory m")
    case True
    then obtain out where "s' = on_channel (\<lambda>ch. ch\<lparr>ch_pendingPublish := None\<rparr>) (confirmPublish (s\<lparr>s_host := vh, s_out := out\<rparr>))"
      using assms(1) al ns by (auto simp: completePublish_def Let_def session_defs simp flip: m_def vh_def)
    then show ?thesis using that [of "s\<lparr>s_host := vh, s_out := out\<rparr>"] True by simp
  next
    case False
    then obtain vh2 where "publishLoop (length ns > 1) ns a vh = Some vh2"
      "s' = on_channel (\<lambda>ch. ch\<lparr>ch_pendingPublish := None\<rparr>) (confirmPublish (s\<lparr>s_host := vh2\<rparr>))"
      using assms(1) al ns
      by (auto simp: completePublish_def Let_def session_defs bind_eq_Some_conv simp flip: m_def vh_def)
    then show ?thesis using that [of "s\<lparr>s_host := vh2\<rparr>"] by simp
  qed
  have "\<exists>st'. vh_store (s_host s2) = Some st' \<and> ms_wal st' = ms_wal st @
      log_bytes (publish_entries m (ms_nextMsgId st) (filter (durable_queue (s_host s)) ns))"
    using s2(3) publishLoop_log_any [of ns a vh "s_host s2" st] a assms(3-5) dur by (auto simp: vh_def m_def)
  then show "\<exists>st'. vh_store (s_host s') = Some st' \<and> ms_wal st' = ms_wal st @
      log_bytes (publish_entries m (ms_nextMsgId st) (filter (durable_queue (s_host s)) ns))"
    using s2(1) by (simp add: confirmPublish_def Let_def session_defs)
  show "\<exists>out. s_out s' = out @ [methodFrame (ch_id (s_channel s)) class_BASIC basic_ACK
         (\<lambda>b. writeUint8 0 (writeUint64 (ch_nextConfirmSeqNo (s_channel s)) b))]"
    "ch_nextConfirmSeqNo (s_channel s') = ch_nextConfirmSeqNo (s_channel s) + 1"
    using s2(1,2) assms(6) by (simp_all add: confirmPublish_def Let_def session_defs)
qed
section \<open>Properties\<close>

text \<open>
  (C16) A message arrives as it was sent: \<open>basic.publish\<close>, a content header in the broker's own
  encoding and the body in any number of frames, cut anywhere, complete one publication with the
  exchange, routing key, flag, properties and body that were sent.
\<close>

theorem publish_arrives_as_sent:
  assumes "length exchange \<le> 255" "length key \<le> 255" "\<not> bit bits 1" "wf_props props"
    "cs \<noteq> []" "last cs \<noteq> []" "word_of_nat (length (concat cs)) \<le> MAX_BODY_SIZE" "length (concat cs) < 2 ^ 64"
  shows "\<exists>s1 s2. handleBasicPublish (Buffer_of (enc16 0 @ enc_short exchange @ enc_short key @ [bits])) s = (None, s1) \<and>
    handleContentHeader (Buffer_of (enc16 60 @ enc16 0 @ enc64 (word_of_nat (length (concat cs))) @ enc_props props)) s1 =
      (None, s2) \<and>
    feedBody cs s2 =
      (let p = publication exchange key (bit bits 0) props (concat cs);
           s3 = pending_set p s
       in receive s3 (attempt (completePublish p s3)))"
proof -
  let ?p = "announced exchange key (bit bits 0) props (length (concat cs))"
  have "handleBasicPublish (Buffer_of (enc16 0 @ enc_short exchange @ enc_short key @ [bits])) s =
      (None, pending_set (new_PendingPublish\<lparr>pp_exchange := exchange, pp_routing_key := key, pp_mandatory := bit bits 0\<rparr>) s)"
    by (rule publish_method [where r = 0, OF assms(1-3)]) simp
  moreover have "handleContentHeader (Buffer_of (enc16 60 @ enc16 0 @ enc64 (word_of_nat (length (concat cs))) @ enc_props props))
      (pending_set (new_PendingPublish\<lparr>pp_exchange := exchange, pp_routing_key := key, pp_mandatory := bit bits 0\<rparr>) s) =
      (None, pending_set ?p s)"
    unfolding announced_def by (rule header_method [OF assms(4,7) body_size_nonzero [OF assms(5,6,8)]])
  moreover have "feedBody cs (pending_set ?p s) = (let p' = with_body (concat cs) ?p; s' = pending_set p' s
      in receive s' (attempt (completePublish p' s')))"
    by (rule feedBody_parts [where n = 0]) (use assms in \<open>simp_all add: announced_def new_PendingPublish_def\<close>)
  ultimately show ?thesis by (simp add: announced_with_body)
qed

theorem publish_arrives_as_sent_witness:
  "\<exists>s1 s2. handleBasicPublish (Buffer_of (enc16 0 @ enc_short [] @ enc_short ''q'' @ [0])) (sample_session (sample_heap 0)) =
      (None, s1) \<and>
    handleContentHeader (Buffer_of (enc16 60 @ enc16 0 @ enc64 2 @ enc_props no_properties)) s1 = (None, s2) \<and>
    feedBody [[104], [], [105]] s2 =
      (let p = publication [] ''q'' False no_properties [104, 105];
           s3 = pending_set p (sample_session (sample_heap 0))
       in receive s3 (attempt (completePublish p s3)))"
  using publish_arrives_as_sent [of "[]" "''q''" 0 no_properties "[[104], [], [105]]" "sample_session (sample_heap 0)"]
  by (simp add: MAX_BODY_SIZE_def word_le_nat_alt)

text \<open>
  (C4) Publisher confirms: when a publication completes, the log has grown by exactly one message
  entry for each durable queue the message was routed to, in routing order and with
  consecutive ids, if the message is persistent; and in confirm mode the last frame sent is the
  acknowledgement with the channel's next sequence number, which moves on by one.
\<close>

theorem confirmed_publish_is_logged:
  assumes "completePublish p s = Some s'" "host_ok (s_host s)" "vh_store (s_host s) = Some st" "ms_open st"
    "isPersistent (published p (ch_connectionId (s_channel s)))" "ch_confirmMode (s_channel s)"
  shows "let m = published p (ch_connectionId (s_channel s));
             queues = routeMessage (pp_exchange p) (pp_routing_key p) (headers (pp_properties p)) (s_host s)
    in (\<exists>st'. vh_store (s_host s') = Some st' \<and> ms_wal st' = ms_wal st @
          log_bytes (publish_entries m (ms_nextMsgId st) (filter (durable_queue (s_host s)) queues))) \<and>
       (\<exists>out. s_out s' = out @ [methodFrame (ch_id (s_channel s)) class_BASIC basic_ACK
         (\<lambda>b. writeUint8 0 (writeUint64 (ch_nextConfirmSeqNo (s_channel s)) b))]) \<and>
       ch_nextConfirmSeqNo (s_channel s') = ch_nextConfirmSeqNo (s_channel s) + 1"
  using confirmed_publish_log [OF assms] by (auto simp: Let_def)

definition logging_session :: Session where
  "logging_session = (sample_session (sample_heap 0))
     \<lparr>s_host := (one_queue_host False False)\<lparr>vh_store := Some (open_store (new_MessageStore []))\<rparr>,
      s_channel := sample_channel\<lparr>ch_confirmMode := True\<rparr>\<rparr>"

definition persistent_publish :: PendingPublish where
  "persistent_publish = new_PendingPublish\<lparr>pp_routing_key := ''q'', pp_body := [104, 105],
     pp_properties := no_properties\<lparr>delivery_mode := Some 2\<rparr>\<rparr>"

lemma logging_host:
  "vh_queues (s_host logging_session) = [(''q'', fresh_queue ''q'' True False False [] 1)]"
  "vh_store (s_host logging_session) = Some (open_store (new_MessageStore []))"
  "routeMessage [] ''q'' hs (s_host logging_session) = [''q'']"
proof -
  show "vh_queues (s_host logging_session) = [(''q'', fresh_queue ''q'' True False False [] 1)]"
    by (simp add: logging_session_def one_queue_host_def declareQueue_def declareNamedQueue_def bindDefault_def
        log_store_def Let_def new_VirtualHost_def builtin_def fresh_queue_def)
  show "routeMessage [] ''q'' hs (s_host logging_session) = [''q'']"
    using one_queue_route [of hs False False] by (simp add: logging_session_def routeMessage_def)
qed (simp add: logging_session_def)

lemma deliver_to_fresh:
  assumes "map_of (vh_queues vh) n = Some (fresh_queue n d excl ad [] c)" "msg_ok (vh_heap vh) a"
    "expiration (m_properties (msg_at (vh_heap vh) a)) = None"
  shows "\<exists>vh'. deliverToQueue fn n a vh = Some vh'"
proof -
  let ?q = "fresh_queue n d excl ad [] c"
  have q: "q_queueTtlMs ?q = - 1" "q_maxPriority ?q = 0"
    by (simp_all add: fresh_queue_def setupDeadLetterHandler_def setDeadLetterHandler_def configure_def new_MessageQueue_def Let_def)
  have "expiration (m_properties (msg_at (stamped a (vh_heap vh)) a)) = None"
    using assms(2,3) by (simp add: stamped_def heap_simps)
  then have "enqueueLocked a (vh_heap vh) ?q = (stamped a (vh_heap vh), ?q\<lparr>q_messages := [a]\<rparr>, [])"
    using assms(2) by (simp add: enqueueLocked_parts arranged_def q collectExpired_def hasPerMessageTtl_def dispatchLocked_def)
  then show ?thesis using assms(1) by (simp add: deliverToQueue_def)
qed

theorem confirmed_publish_is_logged_witness:
  "\<exists>s' st'. completePublish persistent_publish logging_session = Some s' \<and> vh_store (s_host s') = Some st' \<and>
     ms_wal st' = log_bytes [MessageEntry (stored_message 1 ''q'' (published persistent_publish 1))]"
proof -
  let ?s = logging_session and ?p = persistent_publish
  let ?m = "published ?p 1"
  have ch: "ch_connectionId (s_channel ?s) = 1" "ch_confirmMode (s_channel ?s)"
    by (simp_all add: logging_session_def sample_channel_def new_Channel_def)
  have p: "pp_exchange ?p = []" "pp_routing_key ?p = ''q''" "isPersistent ?m" "expiration (m_properties ?m) = None"
    "m_exchange ?m = []" "m_routing_key ?m = ''q''" "\<not> m_mandatory ?m"
    by (simp_all add: persistent_publish_def published_def new_PendingPublish_def isPersistent_def no_properties_def)
  obtain a h where al: "alloc_msg ?m (vh_heap (s_host ?s)) = (a, h)" by (cases "alloc_msg ?m (vh_heap (s_host ?s))")
  define vh where "vh = persistMessage ''q'' a ((s_host ?s)\<lparr>vh_heap := h\<rparr>)"
  have "msg_ok h a" "msg_at h a = ?m" using al by (auto simp: alloc_msg_def msg_ok_def msg_at_def)
  then have "msg_ok (vh_heap vh) a" "m_properties (msg_at (vh_heap vh) a) = m_properties ?m"
    by (auto simp: vh_def persistMessage_def Let_def heap_simps split: option.split prod.split)
  moreover have "map_of (vh_queues vh) ''q'' = Some (fresh_queue ''q'' True False False [] 1)"
    by (simp add: vh_def persistMessage_parts logging_host)
  ultimately obtain vh' where "deliverToQueue (onDeadLetter vh) ''q'' a vh = Some vh'"
    using deliver_to_fresh p(4) by metis
  moreover have "routeMessage [] ''q'' hs ((s_host ?s)\<lparr>vh_heap := h\<rparr>) = [''q'']" for hs
    using logging_host(3) by (simp add: routeMessage_def)
  ultimately obtain s' where s': "completePublish ?p ?s = Some s'"
    using al p ch(1) by (simp add: completePublish_def Let_def session_defs flip: vh_def)
  have "host_ok (s_host ?s)" by (simp add: host_ok_def logging_host queue_ok_def)
  from confirmed_publish_is_logged [OF s' this logging_host(2) _ _ ch(2)] show ?thesis
    using s' p ch(1) by (auto simp: Let_def logging_host open_store_def new_MessageStore_def durable_queue_def
        findQueue_def fresh_queue_def setupDeadLetterHandler_def setDeadLetterHandler_def configure_def new_MessageQueue_def)
qed

end
