(* ===== verification/Channel_Progress.thy ===== *)
theory Channel_Progress
  imports Publishing
begin

text \<open>
  The methods of a channel return: publishing to any number of queues, fetching, rejecting one or
  many messages. Each delivery or rejection may dead-letter through the whole host, so the account
  of \<open>Dead_Lettering\<close> is carried from one to the next.
\<close>

section \<open>The account between two deliveries\<close>

definition steady :: "nat \<Rightarrow> addr set \<Rightarrow> string list \<Rightarrow> VirtualHost \<Rightarrow> bool" where
  "steady L A ks vh \<longleftrightarrow> pending L A ks 0 vh \<and> potential A vh < L"

lemma steady_mono: "steady L A ks vh \<Longrightarrow> L \<le> M \<Longrightarrow> M \<le> 2 ^ 32 \<Longrightarrow> steady M A ks vh"
  by (fastforce simp: steady_def pending_def dl_inv_def hops_ok_def)

lemma steady_in_hand: "steady L A ks vh \<Longrightarrow> L < 2 ^ 32 \<Longrightarrow> pending (Suc L) A ks 1 vh"
  by (fastforce simp: steady_def pending_def dl_inv_def hops_ok_def)

lemma steady_fuel: "steady L A ks vh \<Longrightarrow> potential A vh + 2 \<le> dlx_fuel vh"
  using potential_fuel [OF pending_all_msgs] by (fastforce simp: steady_def)

lemma steady_deliver:
  assumes "steady L A ks vh" "a \<in> A" "L < 2 ^ 32"
  shows "\<exists>vh'. deliverToQueue (onDeadLetter vh) n a vh = Some vh' \<and> steady (Suc L) A ks vh'"
proof -
  have "potential A vh + 0 + 1 \<le> dlx_fuel vh" using steady_fuel [OF assms(1)] by simp
  from dlx.deliverToQueue_returns [OF assms(2) _ this, of "Suc L" ks n] steady_in_hand [OF assms(1,3)]
  show ?thesis using assms(1) by (fastforce simp: onDeadLetter_def steady_def)
qed

lemma steady_reject:
  assumes "steady L A ks vh" "a \<in> A" "L < 2 ^ 32"
  shows "\<exists>vh'. rejectMessage (onDeadLetter vh) n requeue a vh = Some vh' \<and> steady (Suc L) A ks vh'"
proof -
  have "potential A vh + 1 \<le> dlx_fuel vh" using steady_fuel [OF assms(1)] by simp
  from reject_returns [OF assms(2) steady_in_hand [OF assms(1,3)] this]
  obtain vh' where vh': "rejectMessage (onDeadLetter vh) n requeue a vh = Some vh'" "pending (Suc L) A ks 0 vh'"
    by (auto simp: onDeadLetter_def)
  moreover from vh'(2) assms(2) have "potential A vh' < Suc L"
    by (fastforce simp: pending_def dl_inv_def hops_ok_def)
  ultimately show ?thesis by (simp add: steady_def)
qed

lemma steady_get:
  assumes "steady L A ks vh"
  shows "\<exists>r vh'. getMessage (onDeadLetter vh) n vh = Some (r, vh') \<and> steady L A ks vh'"
proof -
  have "potential A vh \<le> dlx_fuel vh" using steady_fuel [OF assms(1)] by simp
  from get_returns [OF _ this, of L ks n] assms show ?thesis by (fastforce simp: onDeadLetter_def steady_def)
qed

text \<open>Changes of the log and of message fields other than the hop counter do not matter.\<close>

lemma steady_same:
  assumes "steady L A ks vh" "hops_same (vh_heap vh) (vh_heap vh')" "vh_queues vh' = vh_queues vh"
  shows "steady L A ks vh'"
proof -
  have ok: "\<forall>a \<in> A. msg_ok (vh_heap vh) a" using assms(1) by (simp add: steady_def pending_def dl_inv_def hops_ok_def)
  then have "hops_budget A (vh_heap vh') = hops_budget A (vh_heap vh)"
    unfolding hops_budget_def using assms(2) by (intro sum.cong) (simp_all add: hops_same_def hops_left_def)
  then have "potential A vh' = potential A vh" by (simp add: potential_def queued_def assms(3))
  moreover have "queue_inv A (vh_heap vh') q" if "queue_inv A (vh_heap vh) q" for q
    using that queue_ok_hops_same [OF assms(2)] by (simp add: queue_inv_def)
  moreover have "hops_ok L A b (vh_heap vh')" if "hops_ok L A b (vh_heap vh)" for b
    using that assms(2) by (simp add: hops_ok_def hops_same_def)
  ultimately show ?thesis using assms(1,3) by (fastforce simp: steady_def pending_def dl_inv_def)
qed

text \<open>A new message brings its twenty hops.\<close>

lemma steady_alloc:
  assumes "steady L A ks vh" "alloc_msg m (vh_heap vh) = (c, h)" "m_dlx_hops m = 0" "L + 20 * length ks \<le> 2 ^ 32"
  shows "steady (L + 20 * length ks) (insert c A) ks (vh\<lparr>vh_heap := h\<rparr>)"
proof -
  let ?vh = "vh\<lparr>vh_heap := h\<rparr>"
  have h: "hops_same (vh_heap vh) h" "msg_ok h c" "msg_at h c = m" "\<not> msg_ok (vh_heap vh) c"
    using assms(2) by (auto simp: alloc_msg_def hops_same_def msg_ok_def con_ok_def msg_at_def nth_append)
  have same: "steady L A ks ?vh" by (rule steady_same [OF assms(1)]) (simp_all add: h(1))
  have ok: "\<forall>a \<in> A. msg_ok (vh_heap vh) a" using assms(1) by (simp add: steady_def pending_def dl_inv_def hops_ok_def)
  then have "c \<notin> A" "finite A" using h(4) finite_addrs by blast+
  then have "hops_budget (insert c A) h = 20 + hops_budget A h"
    using h(3) assms(3) by (simp add: hops_budget_def hops_left_def)
  moreover have len: "length (vh_queues vh) = length ks" using assms(1) by (auto simp: steady_def pending_def)
  ultimately have pot: "potential (insert c A) ?vh = potential A ?vh + 20 * length ks"
    by (simp add: potential_def queued_def algebra_simps)
  have "queue_inv (insert c A) h q" if "queue_inv A h q" for q using that by (auto simp: queue_inv_def)
  then show ?thesis using same pot h(2,3) assms(3,4)
    by (fastforce simp: steady_def pending_def dl_inv_def hops_ok_def)
qed


section \<open>Publishing\<close>

lemma hops_same_put_wal: "hops_same h (put_msg a ((msg_at h a)\<lparr>m_wal_id := i\<rparr>) h)"
  by (rule hops_same_put_msg) simp

lemma steady_persist: "steady L A ks vh \<Longrightarrow> steady L A ks (persistMessage n a vh)"
  by (erule steady_same) (auto simp: persistMessage_def Let_def hops_same_put_wal hops_same_messages split: option.split prod.split)

lemma publish_single:
  "steady L A ks vh \<Longrightarrow> a \<in> A \<Longrightarrow> L + length ns \<le> 2 ^ 32 \<Longrightarrow> \<exists>vh'. publishLoop False ns a vh = Some vh'"
proof (induction ns arbitrary: vh L)
  case (Cons n ns)
  obtain vh1 where "deliverToQueue (onDeadLetter (persistMessage n a vh)) n a (persistMessage n a vh) = Some vh1"
      "steady (Suc L) A ks vh1"
    using steady_deliver [OF steady_persist [OF Cons.prems(1)] Cons.prems(2)] Cons.prems(3) by fastforce
  then show ?case using Cons.IH [of "Suc L" vh1] Cons.prems by (simp add: Let_def)
qed simp

text \<open>With copies: the original is in no queue, so its hop counter stays zero.\<close>

lemma publish_copies:
  assumes "steady L A ks vh" "untouched a vh" "m_dlx_hops (msg_at (vh_heap vh) a) = 0"
    "L + length ns * (20 * length ks + 1) \<le> 2 ^ 32"
  shows "\<exists>vh'. publishLoop True ns a vh = Some vh'"
  using assms
proof (induction ns arbitrary: vh L A)
  case (Cons n ns)
  let ?m = "msg_at (vh_heap vh) a" and ?L = "L + 20 * length ks"
  obtain c h where al: "alloc_msg ?m (vh_heap vh) = (c, h)" by (cases "alloc_msg ?m (vh_heap vh)")
  define vh1 where "vh1 = persistMessage n c (vh\<lparr>vh_heap := h\<rparr>)"
  have L: "Suc ?L \<le> 2 ^ 32" "Suc ?L + length ns * (20 * length ks + 1) \<le> 2 ^ 32" using Cons.prems(4) by simp_all
  have "msg_ok (vh_heap vh) a" using Cons.prems(2) by (simp add: untouched_def)
  then have c: "a \<noteq> c" "msg_ok h a" "msg_at h a = ?m"
    using al by (auto simp: alloc_msg_def msg_ok_def msg_at_def nth_append)
  have st: "steady ?L (insert c A) ks vh1"
    unfolding vh1_def by (intro steady_persist steady_alloc [OF Cons.prems(1) al Cons.prems(3)]) (use L in simp)
  obtain vh2 where d: "deliverToQueue (onDeadLetter vh1) n c vh1 = Some vh2" "steady (Suc ?L) (insert c A) ks vh2"
    using steady_deliver [OF st, of c n] L(1) by auto
  have "untouched a vh1" "msg_at (vh_heap vh1) a = ?m"
    using Cons.prems(2) c by (auto simp: untouched_def vh1_def persistMessage_parts)
  with deliver_keeps_log(3) [OF d(1) c(1)] have "untouched a vh2" "m_dlx_hops (msg_at (vh_heap vh2) a) = 0"
    using Cons.prems(3) by (simp_all add: spares_def)
  from Cons.IH [OF d(2) this L(2)] show ?case using al d(1) by (auto simp: Let_def vh1_def)
qed simp

text \<open>Room for \<open>n\<close> more messages and deliveries before a hop counter could wrap.\<close>

definition room :: "nat \<Rightarrow> VirtualHost \<Rightarrow> bool" where
  "room n vh \<longleftrightarrow> (let b = dlx_fuel vh + n * (20 * length (vh_queues vh) + 1)
     in b < 2 ^ 32 \<and> list_all (\<lambda>m. unat (m_dlx_hops m) + b < 2 ^ 32) (h_messages (vh_heap vh)))"

definition room_left :: "nat \<Rightarrow> VirtualHost \<Rightarrow> nat" where
  "room_left n vh = 2 ^ 32 - n * (20 * length (vh_queues vh) + 1)"

lemma room_mono: "room n vh \<Longrightarrow> k \<le> n \<Longrightarrow> room k vh"
  using mult_le_mono1 [of k n "20 * length (vh_queues vh) + 1"] by (fastforce simp: room_def Let_def list_all_iff)

lemma steady_start:
  assumes "host_ok vh" "room n vh"
  shows "steady (room_left n vh) (all_msgs vh) (map fst (vh_queues vh)) vh"
proof -
  note potential_fuel [of "all_msgs vh" vh, simplified]
  then show ?thesis using assms
    by (fastforce simp: steady_def pending_def dl_inv_def host_ok_def queue_inv_def queue_ok_def msg_ok_def hops_ok_def
        room_def room_left_def Let_def list_all_length msg_at_def)
qed

lemma fresh_untouched:
  assumes "host_ok vh" "alloc_msg m (vh_heap vh) = (a, h)"
  shows "untouched a (vh\<lparr>vh_heap := h\<rparr>)" "msg_at h a = m"
  using assms map_of_SomeD [of "vh_queues vh"]
  by (fastforce simp: untouched_def alloc_msg_def msg_ok_def msg_at_def nth_append host_ok_def queue_ok_def)+

lemma completePublish_returns:
  fixes p s
  defines "ns \<equiv> routeMessage (pp_exchange p) (pp_routing_key p) (headers (pp_properties p)) (s_host s)"
  assumes "host_ok (s_host s)" "room (length ns + 1) (s_host s)"
  shows "\<exists>s'. completePublish p s = Some s'"
proof -
  let ?vh = "s_host s" and ?m = "published p (ch_connectionId (s_channel s))"
  let ?L = "room_left (length ns + 1) ?vh" and ?ks = "map fst (vh_queues ?vh)"
  obtain a h where al: "alloc_msg ?m (vh_heap ?vh) = (a, h)" by (cases "alloc_msg ?m (vh_heap ?vh)")
  have m: "m_dlx_hops ?m = 0" by (simp add: published_def new_Message_def)
  have b: "(length ns + 1) * (20 * length (vh_queues ?vh) + 1) \<le> 2 ^ 32"
    using assms(3) by (simp add: room_def Let_def)
  then have L: "?L + (length ns + 1) * (20 * length ?ks + 1) = 2 ^ 32" by (simp add: room_left_def)
  have st: "steady (?L + 20 * length ?ks) (insert a (all_msgs ?vh)) ?ks (?vh\<lparr>vh_heap := h\<rparr>)"
    by (rule steady_alloc [OF steady_start [OF assms(2,3)] al m]) (use L in simp)
  have "\<exists>vh'. publishLoop (length ns > 1) ns a (?vh\<lparr>vh_heap := h\<rparr>) = Some vh'"
  proof (cases "length ns > 1")
    case True
    then show ?thesis
      using publish_copies [OF st fresh_untouched(1) [OF assms(2) al], of ns] fresh_untouched(2) [OF assms(2) al] m L by simp
  next
    case False
    then show ?thesis using publish_single [OF st, of a ns] L by simp
  qed
  moreover have "routeMessage (m_exchange ?m) (m_routing_key ?m) (headers (m_properties ?m)) (?vh\<lparr>vh_heap := h\<rparr>) = ns"
    by (simp add: ns_def published_def routeMessage_def)
  ultimately show ?thesis using al by (auto simp: completePublish_def Let_def session_defs)
qed

section \<open>Rejecting\<close>

lemma steady_persistAck: "steady L A ks vh \<Longrightarrow> steady L A ks (persistAck u vh)"
  by (erule steady_same)
    (auto simp: persistAck_def releaseCredit_def log_store_def Let_def hops_same_def heap_simps split: option.split)


definition unacked_in :: "addr set \<Rightarrow> Session \<Rightarrow> bool" where
  "unacked_in A s \<longleftrightarrow> (\<forall>(tag, u) \<in> set (ch_unackedMessages (s_channel s)). ua_message u \<in> A)"

lemma unacked_in_delete:
  "unacked_in A s \<Longrightarrow> unacked_in A (on_channel (\<lambda>ch. ch\<lparr>ch_unackedMessages := AList.delete tag (ch_unackedMessages ch)\<rparr>) s)"
  by (auto simp: unacked_in_def on_channel_def AList.delete_eq)

lemma rejectOne_returns:
  assumes "steady L A ks (s_host s)" "unacked_in A s" "L < 2 ^ 32"
  shows "\<exists>s'. rejectOne requeue tag s = Some s' \<and> steady (Suc L) A ks (s_host s') \<and> unacked_in A s'"
proof (cases "map_of (ch_unackedMessages (s_channel s)) tag")
  case None
  then show ?thesis using assms steady_mono [OF assms(1), of "Suc L"] by (simp add: rejectOne_def)
next
  case (Some u)
  define s1 where "s1 = (if requeue then s else on_host (persistAck u) s)"
  have u: "ua_message u \<in> A" using assms(2) map_of_SomeD [OF Some] by (auto simp: unacked_in_def)
  have "steady L A ks (s_host s1)" using assms(1) steady_persistAck by (simp add: s1_def on_host_def)
  from steady_reject [OF this u assms(3), of "ua_queue_name u" requeue]
  obtain vh where "rejectMessage (onDeadLetter (s_host s1)) (ua_queue_name u) requeue (ua_message u) (s_host s1) = Some vh"
      "steady (Suc L) A ks vh" by blast
  moreover have "unacked_in A (s1\<lparr>s_host := vh\<rparr>)" using assms(2) by (simp add: s1_def unacked_in_def on_host_def)
  ultimately show ?thesis using Some unacked_in_delete [of A "s1\<lparr>s_host := vh\<rparr>" tag]
    by (simp add: rejectOne_def on_channel_def flip: s1_def)
qed

lemma rejectAll_returns:
  "steady L A ks (s_host s) \<Longrightarrow> unacked_in A s \<Longrightarrow> L + length tags \<le> 2 ^ 32 \<Longrightarrow> \<exists>s'. rejectAll requeue tags s = Some s'"
proof (induction tags arbitrary: s L)
  case (Cons tag tags)
  obtain s1 where "rejectOne requeue tag s = Some s1" "steady (Suc L) A ks (s_host s1)" "unacked_in A s1"
    using rejectOne_returns [OF Cons.prems(1,2), of requeue tag] Cons.prems(3) by auto
  then show ?case using Cons.IH [of "Suc L" s1] Cons.prems(3) by simp
qed simp

section \<open>Handlers\<close>

text \<open>\<open>FuelExhausted\<close> would stand for a handler that does not return.\<close>

definition returns :: "outcome \<Rightarrow> bool" where
  "returns r \<longleftrightarrow> fst r \<noteq> Some FuelExhausted"

lemma returns_intros:
  "r \<noteq> Inl FuelExhausted \<Longrightarrow> returns (receive s r)" "returns (None, s)"
  "r' \<noteq> Inl FuelExhausted \<Longrightarrow> (\<And>x b. returns (f x b)) \<Longrightarrow> returns (reading s r' (\<lambda>(x, b). f x b))"
  "(c \<Longrightarrow> returns r1) \<Longrightarrow> (\<not> c \<Longrightarrow> returns r2) \<Longrightarrow> returns (if c then r1 else r2)"
  by (auto simp: returns_def receive_def reading_def split: sum.split)

lemma bindE_returns:
  "r \<noteq> Inl FuelExhausted \<Longrightarrow> (\<And>x b. f x b \<noteq> Inl FuelExhausted) \<Longrightarrow> bindE r (\<lambda>(x, b). f x b) \<noteq> Inl FuelExhausted"
  by (cases r) auto

lemma attempt_returns: "\<exists>s'. r = Some s' \<Longrightarrow> attempt r \<noteq> Inl FuelExhausted"
  by (auto simp: attempt_def)

lemma reads_return [simp]:
  "readUint8 b \<noteq> Inl FuelExhausted" "readUint16 b \<noteq> Inl FuelExhausted" "readUint32 b \<noteq> Inl FuelExhausted"
  "readUint64 b \<noteq> Inl FuelExhausted" "readShortString b \<noteq> Inl FuelExhausted" "readFieldTable b \<noteq> Inl FuelExhausted"
proof -
  have "remaining b < length (bdata b) + 2" by (simp add: remaining_def)
  from fuel_enough(1) [OF this, of 0] show "readFieldTable b \<noteq> Inl FuelExhausted" by (simp add: readFieldTable_def)
qed (use r8.rd_error r16.rd_error r32.rd_error r64.rd_error rshort.rd_error in fastforce)+

lemma readIf_returns: "rd b \<noteq> Inl FuelExhausted \<Longrightarrow> readIf c rd b \<noteq> Inl FuelExhausted"
  by (cases "rd b") (auto simp: readIf_def mapR_def)

lemma decode_returns [simp]: "decode b \<noteq> Inl FuelExhausted"
  unfolding decode_def by (rule bindE_returns readIf_returns reads_return Inr_not_Inl)+

lemma routes_bounded:
  assumes "\<forall>(k, ex) \<in> set (vh_exchanges vh). length (getBindings ex) < n" "0 < n"
  shows "length (routeMessage exchange key hs vh) < n"
proof (cases "map_of (vh_exchanges vh) exchange")
  case (Some ex)
  have "length (firstOnly seen qs) \<le> length qs" for seen qs
    by (induction seen qs rule: firstOnly.induct) auto
  moreover have "length (route ex key hs) \<le> length (getBindings ex)"
    by (simp add: getBindings_def route_by_bindings)
  moreover have "length (getBindings ex) < n" using assms(1) map_of_SomeD [OF Some] by auto
  ultimately show ?thesis using Some by (simp add: routeMessage_def) (meson le_less_trans)
qed (use assms in \<open>simp add: routeMessage_def\<close>)

text \<open>
  What the theorem needs of a session: pointers are valid, and the hop counters are away from
  wrapping by a margin that covers the work of one method.
\<close>

definition ready :: "nat \<Rightarrow> Session \<Rightarrow> bool" where
  "ready n s \<longleftrightarrow> host_ok (s_host s) \<and> room n (s_host s) \<and> 0 < n \<and>
     (\<forall>(k, ex) \<in> set (vh_exchanges (s_host s)). length (getBindings ex) < n) \<and>
     length (ch_unackedMessages (s_channel s)) \<le> n \<and>
     (\<forall>(tag, u) \<in> set (ch_unackedMessages (s_channel s)). msg_ok (vh_heap (s_host s)) (ua_message u))"

lemma ready_pending_set [simp]: "ready n (pending_set p s) = ready n s"
  by (simp add: ready_def pending_set_def on_channel_def)

lemma ready_publish: "ready n s \<Longrightarrow> \<exists>s'. completePublish p s = Some s'"
  using routes_bounded [of "s_host s" n "pp_exchange p" "pp_routing_key p" "headers (pp_properties p)"]
  by (intro completePublish_returns) (auto simp: ready_def intro: room_mono)

lemma ready_steady:
  assumes "ready n s"
  shows "steady (room_left n (s_host s)) (all_msgs (s_host s)) (map fst (vh_queues (s_host s))) (s_host s)"
    "unacked_in (all_msgs (s_host s)) s" "room_left n (s_host s) + n \<le> 2 ^ 32"
proof -
  show "steady (room_left n (s_host s)) (all_msgs (s_host s)) (map fst (vh_queues (s_host s))) (s_host s)"
    using assms by (intro steady_start) (simp_all add: ready_def)
  show "unacked_in (all_msgs (s_host s)) s" using assms by (fastforce simp: ready_def unacked_in_def msg_ok_def)
  have "n \<le> n * (20 * length (vh_queues (s_host s)) + 1)" "n * (20 * length (vh_queues (s_host s)) + 1) \<le> 2 ^ 32"
    using assms by (simp_all add: ready_def room_def Let_def)
  then show "room_left n (s_host s) + n \<le> 2 ^ 32" by (simp add: room_left_def)
qed

lemma ready_reject: "ready n s \<Longrightarrow> \<exists>s'. rejectOne requeue tag s = Some s'"
proof -
  assume r: "ready n s"
  then have "room_left n (s_host s) < 2 ^ 32" using ready_steady(3) [OF r] by (simp add: ready_def)
  then show ?thesis using rejectOne_returns [OF ready_steady(1,2) [OF r]] by blast
qed

lemma ready_nack: "ready n s \<Longrightarrow> \<exists>s'. basicNack tag bits s = Some s'"
proof -
  assume r: "ready n s"
  have "length (tagsUpTo tag s) \<le> length (ch_unackedMessages (s_channel s))"
    unfolding tagsUpTo_def using length_filter_le [of _ "map fst (ch_unackedMessages (s_channel s))"] by simp
  then have "length (if bit bits 0 then tagsUpTo tag s else [tag]) \<le> n" using r by (auto simp: ready_def)
  then show ?thesis unfolding basicNack_def
    using rejectAll_returns [OF ready_steady(1,2) [OF r]] ready_steady(3) [OF r] by simp
qed

lemma ready_get: "ready n s \<Longrightarrow> \<exists>s'. basicGet queue bits s = Some s'"
  using steady_get [OF ready_steady(1), of n s queue] unfolding basicGet_def Let_def
  by (cases "findQueue queue (s_host s) = None") (auto intro: exI)

lemma body_returns: "ready n s \<Longrightarrow> returns (handleContentBody bs s)"
proof (cases "ch_pendingPublish (s_channel s)")
  case (Some p)
  then have s: "s = pending_set p s" by (cases s, cases "s_channel s") (simp add: pending_set_def on_channel_def)
  assume "ready n s"
  then have "ready n (pending_set (with_body bs p) s)" by simp
  from ready_publish [OF this] show ?thesis
    by (subst s) (auto simp: handleContentBody_pending Let_def intro!: returns_intros attempt_returns)
qed (simp add: handleContentBody_def returns_def)


lemma header_returns: "ready n s \<Longrightarrow> returns (handleContentHeader buf s)"
proof (cases "ch_pendingPublish (s_channel s)")
  case (Some p)
  assume r: "ready n s"
  then have body: "returns (handleContentBody bs (pending_set p' s))" for p' bs by (intro body_returns) simp
  show ?thesis unfolding handleContentHeader_def Some option.case Let_def
    by (rule returns_intros reads_return decode_returns body [unfolded pending_set_def])+
qed (simp add: handleContentHeader_def returns_def)

lemma declare_methods_return:
  "returns (handleExchangeDeclare buf s)" "returns (handleExchangeDelete buf s)" "returns (handleQueueDeclare buf s)"
  "returns (handleQueueBind buf s)" "returns (handleQueueUnbind buf s)" "returns (handleQueuePurge buf s)"
  "returns (handleQueueDelete buf s)"
  unfolding handleExchangeDeclare_def handleExchangeDelete_def handleQueueDeclare_def handleQueueBind_def
    handleQueueUnbind_def handleQueuePurge_def handleQueueDelete_def
  by (rule returns_intros bindE_returns reads_return Inr_not_Inl)+

lemma basic_methods_return:
  "returns (handleBasicQos buf s)" "returns (handleBasicConsume buf s)" "returns (handleBasicCancel buf s)"
  "returns (handleBasicPublish buf s)" "returns (handleBasicAck buf s)" "returns (handleBasicRecover buf s)"
  "returns (handleConfirmSelect buf s)" "returns (handleTxSelect buf s)" "returns (handleTxCommit buf s)"
  "returns (handleTxRollback buf s)"
  unfolding handleBasicConsume_def handleBasicCancel_def handleBasicPublish_def handleBasicAck_def
    handleBasicRecover_def handleConfirmSelect_def handleTxSelect_def handleTxCommit_def handleTxRollback_def
    handleBasicQos_def Let_def
  by (rule returns_intros bindE_returns reads_return Inr_not_Inl)+

lemma settling_methods_return:
  assumes "ready n s"
  shows "returns (handleBasicGet buf s)" "returns (handleBasicReject buf s)" "returns (handleBasicNack buf s)"
  unfolding handleBasicGet_def handleBasicReject_def handleBasicNack_def
  by (rule returns_intros bindE_returns reads_return attempt_returns ready_get [OF assms] ready_reject [OF assms]
      ready_nack [OF assms])+

section \<open>Properties\<close>

text \<open>
  (C11) Every handler of a channel returns, whatever bytes the frame has and however dead-letter
  exchanges are configured: methods, content headers and content bodies end in a result or in
  an exception of the reader. The margin of \<open>ready\<close> keeps the 32-bit hop counters from wrapping.
\<close>

theorem channel_handlers_return:
  assumes "ready n s"
  shows "returns (handleMethod classId methodId buf s) \<and> returns (handleContentHeader buf s) \<and>
    returns (handleContentBody data s)"
proof -
  have "returns (handleMethod classId methodId buf s)"
    by (simp add: handleMethod_def declare_methods_return basic_methods_return settling_methods_return [OF assms] returns_intros)
  then show ?thesis using header_returns [OF assms] body_returns [OF assms] by simp
qed

definition rejecting_session :: Session where
  "rejecting_session = (sample_session (sample_heap 0))\<lparr>s_host := cyclic_host,
     s_channel := sample_channel\<lparr>ch_unackedMessages := [(1, \<lparr>ua_message = 0, ua_queue_name = ''q'', ua_consumer = None\<rparr>)]\<rparr>\<rparr>"

lemma rejecting_session_ready: "ready 2 rejecting_session"
  using cyclic_host_ok
  by (simp add: ready_def rejecting_session_def room_def Let_def cyclic_host_def new_VirtualHost_def builtin_def
      getBindings_def dlx_fuel_def hops_left_def setDeadLetterHandler_def new_MessageQueue_def sample_heap_def sample_msg_def
      new_Message_def msg_ok_def sample_channel_def)

theorem channel_handlers_return_witness:
  "ready 2 rejecting_session \<and> returns (handleMethod class_BASIC basic_REJECT (Buffer_of (enc64 1 @ [0])) rejecting_session)"
  using rejecting_session_ready channel_handlers_return [OF rejecting_session_ready] by blast

end
