(* ===== verification/Message_Transfer.thy ===== *)
theory Message_Transfer
  imports Handshake Channel_Progress
begin

text \<open>
  A message on its whole way: from the bytes of a publishing client through the connection, the
  channel, the exchanges and the log to the acknowledgement, and through a restart of the broker.
\<close>

section \<open>The frames of a publication\<close>

definition publish_frame :: "u16 \<Rightarrow> string \<Rightarrow> string \<Rightarrow> byte \<Rightarrow> Frame" where
  "publish_frame num exchange key bits = \<lparr>f_type = FRAME_METHOD, f_channel = num,
     f_payload = enc16 class_BASIC @ enc16 basic_PUBLISH @ enc16 0 @ enc_short exchange @ enc_short key @ [bits]\<rparr>"

definition header_frame :: "u16 \<Rightarrow> BasicProperties \<Rightarrow> nat \<Rightarrow> Frame" where
  "header_frame num props n = \<lparr>f_type = FRAME_HEADER, f_channel = num,
     f_payload = enc16 class_BASIC @ enc16 0 @ enc64 (word_of_nat n) @ enc_props props\<rparr>"

definition body_frame :: "u16 \<Rightarrow> byte list \<Rightarrow> Frame" where
  "body_frame num chunk = \<lparr>f_type = FRAME_BODY, f_channel = num, f_payload = chunk\<rparr>"

definition publish_frames :: "u16 \<Rightarrow> string \<Rightarrow> string \<Rightarrow> byte \<Rightarrow> BasicProperties \<Rightarrow> byte list list \<Rightarrow> Frame list" where
  "publish_frames num exchange key bits props cs =
     publish_frame num exchange key bits # header_frame num props (length (concat cs)) # map (body_frame num) cs"

definition wire_bytes :: "Frame list \<Rightarrow> byte list" where
  "wire_bytes fs = concat (map frame_bytes fs)"

section \<open>A connection that listens to a channel\<close>

definition listening :: "u16 \<Rightarrow> Channel \<Rightarrow> Peer \<Rightarrow> bool" where
  "listening num ch p \<longleftrightarrow> co_read (p_conn p) = ReadFrameHeader \<and> co_state (p_conn p) \<noteq> CLOSING \<and>
     co_state (p_conn p) \<noteq> CLOSED \<and> map_of (co_channels (p_conn p)) num = Some ch \<and> ch_open ch"

definition session_of :: "Channel \<Rightarrow> Peer \<Rightarrow> Session" where
  "session_of ch p = \<lparr>s_channel = ch, s_host = p_host p, s_out = []\<rparr>"

text \<open>The peer after a handler of the channel left the session \<open>s\<close>.\<close>

definition arrived :: "u16 \<Rightarrow> Session \<Rightarrow> Peer \<Rightarrow> Peer" where
  "arrived num s p = set_read ReadFrameHeader ((received p)\<lparr>p_host := s_host s,
     p_conn := fold sendFrame (s_out s) ((p_conn (received p))
       \<lparr>co_channels := AList.update num (s_channel s) (co_channels (p_conn p))\<rparr>)\<rparr>)"

lemma arrived_sel [simp]:
  "co_read (p_conn (arrived num s p)) = ReadFrameHeader" "co_state (p_conn (arrived num s p)) = co_state (p_conn p)"
  "p_host (arrived num s p) = s_host s"
  by (simp_all add: arrived_def set_read_def on_conn_def)

lemma fold_sendFrame_channels [simp]: "co_channels (fold sendFrame ds c) = co_channels c"
  "co_frameMax (fold sendFrame ds c) = co_frameMax c"
  by (induction ds arbitrary: c) simp_all

lemma arrived_max [simp]: "effectiveMax (p_conn (arrived num s p)) = effectiveMax (p_conn p)"
  by (simp add: effectiveMax_def arrived_def set_read_def on_conn_def)

lemma listening_arrived: "listening num ch p \<Longrightarrow> ch_open (s_channel s) \<Longrightarrow> listening num (s_channel s) (arrived num s p)"
  by (simp add: listening_def) (simp add: arrived_def set_read_def on_conn_def)

lemma arrived_arrived:
  "s_out s = [] \<Longrightarrow> arrived num s' (arrived num s p) = arrived num s' p"
  by (simp add: arrived_def set_read_def on_conn_def)

lemma afterFrame_session:
  assumes "handleFrame f (received p) = in_channel num ch g (received p)" "g (session_of ch p) = (None, s)"
    "co_state (p_conn p) \<noteq> CLOSED"
  shows "afterFrame f p = arrived num s p"
  using assms by (simp add: afterFrame_def in_channel_def session_of_def arrived_def)

lemma afterFrame_publish:
  assumes "listening num ch p" "length exchange \<le> 255" "length key \<le> 255" "\<not> bit bits 1"
  shows "afterFrame (publish_frame num exchange key bits) p = arrived num (pending_set (new_PendingPublish\<lparr>pp_exchange := exchange,
    pp_routing_key := key, pp_mandatory := bit bits 0\<rparr>) (session_of ch p)) p"
proof -
  let ?args = "enc16 0 @ enc_short exchange @ enc_short key @ [bits]" and ?f = "publish_frame num exchange key bits"
  obtain buf where b: "at_input buf ?args"
    "handleMethodFrame num (Buffer_of (f_payload ?f)) (received p) = toChannel num class_BASIC basic_PUBLISH buf (received p)"
    by (rule method_dispatch [of ?args num class_BASIC basic_PUBLISH "received p"]) (simp add: publish_frame_def protocol)
  have "handleFrame ?f (received p) = in_channel num ch (handleMethod class_BASIC basic_PUBLISH buf) (received p)"
    using assms(1) b(2) by (simp add: handleFrame_def listening_def toChannel_def) (simp add: publish_frame_def)
  moreover have "handleMethod class_BASIC basic_PUBLISH buf s = handleBasicPublish buf s" for s
    by (simp add: handleMethod_def protocol)
  ultimately show ?thesis using assms(1) publish_method [OF assms(2-4) b(1)]
    by (intro afterFrame_session [where g = "handleMethod class_BASIC basic_PUBLISH buf"]) (auto simp: listening_def)
qed

lemma afterFrame_content:
  assumes "listening num ch p"
  shows "handleContentHeader (Buffer_of pl) (session_of ch p) = (None, s) \<Longrightarrow>
      afterFrame \<lparr>f_type = FRAME_HEADER, f_channel = num, f_payload = pl\<rparr> p = arrived num s p"
    "handleContentBody pl (session_of ch p) = (None, s) \<Longrightarrow>
      afterFrame \<lparr>f_type = FRAME_BODY, f_channel = num, f_payload = pl\<rparr> p = arrived num s p"
  using assms by (auto intro!: afterFrame_session simp: handleFrame_def toOpenChannel_def listening_def protocol)


section \<open>From bytes to the publication\<close>

lemma wire_bytes_simps [simp]: "wire_bytes [] = []" "wire_bytes (f # fs) = frame_bytes f @ wire_bytes fs"
  by (simp_all add: wire_bytes_def)

lemma session_of_arrived: "s_out s = [] \<Longrightarrow> session_of (s_channel s) (arrived num s p) = s"
  by (simp add: session_of_def)

lemma pending_set_sel [simp]:
  "ch_open (s_channel (pending_set pp s)) = ch_open (s_channel s)" "s_out (pending_set pp s) = s_out s"
  "s_host (pending_set pp s) = s_host s"
  by (simp_all add: pending_set_def on_channel_def)

lemma session_of_sel [simp]: "s_channel (session_of ch p) = ch" "s_host (session_of ch p) = p_host p" "s_out (session_of ch p) = []"
  by (simp_all add: session_of_def)

abbreviation fits :: "Peer \<Rightarrow> Frame \<Rightarrow> bool" where
  "fits p f \<equiv> length (f_payload f) \<le> unat (effectiveMax (p_conn p))"

text \<open>The frames of the body; \<open>p\<close> is the peer before the first frame of the publication.\<close>

lemma feed_bodies:
  assumes "listening num ch p" "cs \<noteq> []" "last cs \<noteq> []" "pp_bodyReceived pp = word_of_nat k"
    "pp_bodySize pp = word_of_nat (k + length (concat cs))" "k + length (concat cs) < 2 ^ 64"
    "list_all (fits p) (map (body_frame num) cs)"
    "completePublish (with_body (concat cs) pp) (pending_set (with_body (concat cs) pp) (session_of ch p)) = Some s'"
  shows "feed (wire_bytes (map (body_frame num) cs)) (arrived num (pending_set pp (session_of ch p)) p) = (arrived num s' p, [])"
  using assms(2-)
proof (induction cs arbitrary: pp k)
  case (Cons c cs)
  let ?s = "pending_set pp (session_of ch p)" and ?pp = "with_body c pp"
  let ?p = "arrived num ?s p"
  have l: "listening num (s_channel ?s) ?p" using assms(1) by (intro listening_arrived [OF assms(1)]) (simp add: listening_def)
  have so: "session_of (s_channel ?s) ?p = ?s" by (rule session_of_arrived) simp
  have step: "feed (wire_bytes (map (body_frame num) (c # cs))) ?p = feed (wire_bytes (map (body_frame num) cs)) (arrived num s1 p)"
    if "handleContentBody c ?s = (None, s1)" for s1
  proof -
    have "fits ?p (body_frame num c)" using Cons.prems(6) by simp
    then have "feed (wire_bytes (map (body_frame num) (c # cs))) ?p =
        feed (wire_bytes (map (body_frame num) cs)) (afterFrame (body_frame num c) ?p)"
      by (simp add: feed_frame)
    also have "afterFrame (body_frame num c) ?p = arrived num s1 ?p"
      unfolding body_frame_def by (rule afterFrame_content(2) [OF l]) (simp only: so that)
    also have "\<dots> = arrived num s1 p" by (rule arrived_arrived) simp
    finally show ?thesis .
  qed
  have sz: "pp_bodyReceived ?pp = word_of_nat (k + length c)" "pp_bodySize ?pp = pp_bodySize pp"
    using Cons.prems(3) by (simp_all add: with_body_def)
  show ?case
  proof (cases "cs = []")
    case True
    have "handleContentBody c ?s = (None, s')"
      using True Cons.prems(4,7) sz by (simp add: handleContentBody_pending Let_def receive_def attempt_def)
    from step [OF this] show ?thesis using True by (simp add: feed_nil)
  next
    case False
    then have "0 < length (concat cs)" using Cons.prems(2) last_in_set [of cs] by (auto simp: concat_eq_Nil_conv)
    then have "\<not> pp_bodySize ?pp \<le> pp_bodyReceived ?pp"
      using sz Cons.prems(4,5) of_nat_u64_le [of "k + length (concat (c # cs))" "k + length c"] by simp
    then have "handleContentBody c ?s = (None, pending_set ?pp (session_of ch p))"
      by (simp add: handleContentBody_pending Let_def)
    from step [OF this] show ?thesis
      using Cons.IH [OF False, of ?pp "k + length c"] Cons.prems False sz by (simp add: add.assoc)
  qed
qed simp

lemma feed_publication:
  fixes cs exchange key bits props
  defines "pp \<equiv> publication exchange key (bit bits 0) props (concat cs)"
  assumes "listening num ch p" "length exchange \<le> 255" "length key \<le> 255" "\<not> bit bits 1" "wf_props props"
    "cs \<noteq> []" "last cs \<noteq> []" "word_of_nat (length (concat cs)) \<le> MAX_BODY_SIZE" "length (concat cs) < 2 ^ 64"
    "list_all (fits p) (publish_frames num exchange key bits props cs)"
    "completePublish pp (pending_set pp (session_of ch p)) = Some s'"
  shows "feed (wire_bytes (publish_frames num exchange key bits props cs)) p = (arrived num s' p, [])"
proof -
  let ?p0 = "new_PendingPublish\<lparr>pp_exchange := exchange, pp_routing_key := key, pp_mandatory := bit bits 0\<rparr>"
  let ?p1 = "announced exchange key (bit bits 0) props (length (concat cs))"
  let ?s0 = "pending_set ?p0 (session_of ch p)" and ?s1 = "pending_set ?p1 (session_of ch p)"
  let ?q0 = "arrived num ?s0 p"
  have fits: "fits p (publish_frame num exchange key bits)" "fits p (header_frame num props (length (concat cs)))"
    "list_all (fits p) (map (body_frame num) cs)" using assms(11) by (simp_all add: publish_frames_def)
  have r: "co_read (p_conn p) = ReadFrameHeader" using assms(2) by (simp add: listening_def)
  have l0: "listening num (s_channel ?s0) ?q0" using assms(2) by (intro listening_arrived [OF assms(2)]) (simp add: listening_def)
  have "feed (wire_bytes (publish_frames num exchange key bits props cs)) p =
      feed (frame_bytes (header_frame num props (length (concat cs))) @ wire_bytes (map (body_frame num) cs)) ?q0"
    unfolding publish_frames_def wire_bytes_simps feed_frame [OF r fits(1)]
    by (simp only: afterFrame_publish [OF assms(2-5)])
  also have "\<dots> = feed (wire_bytes (map (body_frame num) cs)) (afterFrame (header_frame num props (length (concat cs))) ?q0)"
    using fits(2) by (intro feed_frame) simp_all
  also have "afterFrame (header_frame num props (length (concat cs))) ?q0 = arrived num ?s1 ?q0"
    unfolding header_frame_def
    using header_method [OF assms(6,9) body_size_nonzero [OF assms(7,8,10)], of class_BASIC ?p0 "session_of ch p"]
    by (intro afterFrame_content(1) [OF l0]) (simp add: session_of_arrived announced_def)
  also have "\<dots> = arrived num ?s1 p" by (rule arrived_arrived) simp
  also have "feed (wire_bytes (map (body_frame num) cs)) \<dots> = (arrived num s' p, [])"
    using assms(10,12) fits(3)
    by (intro feed_bodies [OF assms(2,7,8), where k = 0])
      (simp_all add: announced_with_body pp_def, simp_all add: announced_def new_PendingPublish_def)
  finally show ?thesis .
qed


section \<open>From the log to the queue after a restart\<close>

lemma publish_entries_stored:
  "publish_entries m (i + word_of_nat j) ns =
     map MessageEntry (map (\<lambda>(k, q). stored_message (i + word_of_nat k) q m) (enumerate j ns))"
proof (induction ns arbitrary: j)
  case (Cons n ns)
  from Cons.IH [of "Suc j"] show ?case by (simp add: add.commute add.left_commute)
qed simp

lemma live_behind_messages:
  "live_queues (es @ map MessageEntry ms) = live_queues es" "live_messages (es @ map MessageEntry ms) = live_messages es @ ms"
proof -
  have "live_queues (map MessageEntry ms) = []" "live_messages (map MessageEntry ms) = ms" by (induction ms) auto
  then show "live_queues (es @ map MessageEntry ms) = live_queues es"
    "live_messages (es @ map MessageEntry ms) = live_messages es @ ms"
    by (induction es) (auto split: WalEntry.split)
qed

text \<open>A store whose log is intact: complete entries that fit, with ids below the next one.\<close>

definition intact_log :: "MessageStore \<Rightarrow> WalEntry list \<Rightarrow> bool" where
  "intact_log st es \<longleftrightarrow> ms_open st \<and> ms_wal st = log_bytes es \<and> list_all wf_entry es \<and> ids_below es (ms_nextMsgId st)"

lemma entry_fits_id: "entry_fits (MessageEntry (stored_message i q m)) = entry_fits (MessageEntry (stored_message j q m))"
  by (simp add: entry_fits_def stored_message_def)

lemma logged_message_recovered:
  assumes log: "intact_log st es" "ms_wal st' = ms_wal st @ log_bytes (publish_entries m (ms_nextMsgId st) ns)"
    and m: "wf_props (m_properties m)" "\<And>q. q \<in> set ns \<Longrightarrow> entry_fits (MessageEntry (stored_message 0 q m))"
    and n: "n \<in> set ns" "n \<in> qd_name ` set (live_queues es)" "unat (ms_nextMsgId st) + length ns < 2 ^ 64"
    and exp: "expiration (m_properties m) = None" "\<And>sm. sm \<in> set (live_messages es) \<Longrightarrow> expiration (sm_properties sm) = None"
  shows "\<exists>vh sm. recoverFromStore (new_VirtualHost name (Some (open_store (new_MessageStore (ms_wal st')))) h) = Some vh \<and>
    sm \<in> set (contents n vh) \<and> sm_exchange sm = m_exchange m \<and> sm_routing_key sm = m_routing_key m \<and>
    sm_properties sm = m_properties m \<and> sm_body sm = m_body m"
proof -
  define ms where "ms = map (\<lambda>(k, q). stored_message (ms_nextMsgId st + word_of_nat k) q m) (enumerate 0 ns)"
  have pe: "publish_entries m (ms_nextMsgId st) ns = map MessageEntry ms"
    using publish_entries_stored [of m "ms_nextMsgId st" 0 ns] by (simp add: ms_def)
  let ?es = "es @ map MessageEntry ms" and ?st = "open_store (new_MessageStore (ms_wal st'))"
  have in_ms: "\<exists>i q. sm = stored_message i q m \<and> q \<in> set ns" if "sm \<in> set ms" for sm
    using that by (auto simp: ms_def in_set_enumerate_eq) (metis nth_mem)
  have "wf_entry (MessageEntry sm)" if "sm \<in> set ms" for sm
    using in_ms [OF that] m entry_fits_id by (fastforce simp: wf_entry_def stored_message_def)
  then have wf: "list_all wf_entry ?es" using log(1) by (auto simp: intact_log_def list_all_iff)
  have wal: "ms_wal ?st = log_bytes ?es"
    using log pe by (simp add: intact_log_def log_bytes_append open_store_def new_MessageStore_def)
  have stays: "expiration (sm_properties sm) = None" if "sm \<in> set (live_messages ?es)" for sm
    using that in_ms exp by (fastforce simp: live_behind_messages stored_message_def)
  obtain vh where vh: "recoverFromStore (new_VirtualHost name (Some ?st) h) = Some vh"
      "\<forall>n. findQueue n vh = None \<longleftrightarrow> n \<notin> qd_name ` set (live_queues ?es)"
      "\<forall>n q. findQueue n vh = Some q \<longrightarrow> bare q \<and> contents n vh =
         filter (\<lambda>sm. sm_queue_name sm = n \<and> AckEntry (sm_id sm) n \<notin> set ?es) (live_messages ?es)"
    by atomize_elim (rule restart_contents [OF wf wal], rule stays)
  obtain k where k: "k < length ns" "ns ! k = n" using n(1) by (auto simp: in_set_conv_nth)
  let ?sm = "stored_message (ms_nextMsgId st + word_of_nat k) n m"
  have "?sm \<in> set ms" using k by (force simp: ms_def in_set_enumerate_eq)
  moreover have "AckEntry (sm_id ?sm) n \<notin> set ?es"
  proof
    assume "AckEntry (sm_id ?sm) n \<in> set ?es"
    then have "ms_nextMsgId st + word_of_nat k < ms_nextMsgId st"
      using log(1) by (auto simp: intact_log_def ids_below_def stored_message_def)
    moreover have "unat (ms_nextMsgId st + word_of_nat k) = unat (ms_nextMsgId st) + k"
      using n(3) k(1) by (simp add: unat_word_ariths unat_of_nat)
    ultimately show False by (simp add: word_less_nat_alt)
  qed
  moreover obtain q where "findQueue n vh = Some q"
    using vh(2) n(2) live_behind_messages(1) [of es ms] by (metis not_None_eq)
  ultimately have "?sm \<in> set (contents n vh)"
    using vh(3) by (auto simp: live_behind_messages stored_message_def)
  then show ?thesis using vh(1) by (intro exI conjI) (assumption+, simp_all add: stored_message_def)
qed


section \<open>Properties\<close>

text \<open>The acknowledgement that a publisher in confirm mode waits for.\<close>

definition confirm_frame :: "Channel \<Rightarrow> byte list" where
  "confirm_frame ch = methodFrame (ch_id ch) class_BASIC basic_ACK (\<lambda>b. writeUint8 0 (writeUint64 (ch_nextConfirmSeqNo ch) b))"

lemma frames_of_arrived:
  assumes "write_ok (p_conn p)"
  shows "frames_of (p_conn (arrived num s p)) = frames_of (p_conn p) @ s_out s"
proof -
  let ?c = "(p_conn (received p))\<lparr>co_channels := AList.update num (s_channel s) (co_channels (p_conn p))\<rparr>"
  have "write_ok ?c" "frames_of ?c = frames_of (p_conn p)"
    using assms by (auto simp: write_ok_def frames_of_def set_read_def on_conn_def)
  then have "frames_of (fold sendFrame (s_out s) ?c) = frames_of (p_conn p) @ s_out s" using writes.puts by metis
  then show ?thesis by (simp add: arrived_def set_read_def on_conn_def frames_of_def)
qed



text \<open>A client on channel 1 of a broker with one durable queue, whose declaration is in the log.\<close>

definition publisher_channel :: Channel where
  "publisher_channel = (new_Channel 0 1 1 131072)\<lparr>ch_open := True, ch_confirmMode := True\<rparr>"

definition publisher :: Peer where
  "publisher = \<lparr>p_conn = (new_Connection 1 None [] 0)\<lparr>co_state := OPEN, co_read := ReadFrameHeader,
       co_channels := [(1, publisher_channel)]\<rparr>,
     p_host = (one_queue_host False False)\<lparr>vh_store := Some (open_store (new_MessageStore (log_bytes (take 1 sample_log))))\<rparr>,
     p_objects = 1, p_closed = []\<rparr>"

abbreviation lasting_props :: BasicProperties where
  "lasting_props \<equiv> no_properties\<lparr>delivery_mode := Some 2\<rparr>"

lemma length_lasting_props [simp]: "length (enc_props lasting_props) = 3"
  by code_simp

lemma publisher_listens: "listening 1 publisher_channel publisher" "write_ok (p_conn publisher)" "ch_confirmMode publisher_channel"
  by (simp_all add: listening_def publisher_def publisher_channel_def new_Connection_def new_Channel_def write_ok_def)

lemma publisher_host:
  "vh_queues (p_host publisher) = [(''q'', fresh_queue ''q'' True False False [] 1)]"
  "vh_exchanges (p_host publisher) = vh_exchanges (one_queue_host False False)" "vh_heap (p_host publisher) = sample_heap 0"
  "routeMessage [] ''q'' hs (p_host publisher) = [''q'']" "durable_queue (p_host publisher) ''q''"
  using one_queue_host(1) [of False False] one_queue_route [of hs False False]
  by (simp_all add: publisher_def routeMessage_def durable_queue_def findQueue_def)
    (simp_all add: one_queue_host_def declareQueue_def declareNamedQueue_def bindDefault_def log_store_def Let_def
      new_VirtualHost_def builtin_def fresh_queue_def setupDeadLetterHandler_def setDeadLetterHandler_def configure_def
      new_MessageQueue_def)

lemma publisher_exchanges:
  "\<forall>(k, ex) \<in> set (vh_exchanges (one_queue_host False False)). length (getBindings ex) \<le> 1"
  by (simp add: one_queue_host_def declareQueue_def declareNamedQueue_def bindDefault_def log_store_def Let_def
      new_VirtualHost_def builtin_def addBinding_def getBindings_def)

lemma publisher_ready: "ready 2 (session_of publisher_channel publisher)"
proof -
  have "host_ok (p_host publisher)" by (simp add: host_ok_def publisher_host queue_ok_def)
  moreover have "room 2 (p_host publisher)"
    by (simp add: room_def Let_def dlx_fuel_def publisher_host hops_left_def sample_heap_def sample_msg_def new_Message_def)
  moreover have "\<forall>(k, ex) \<in> set (vh_exchanges (p_host publisher)). length (getBindings ex) < 2"
    using publisher_exchanges by (fastforce simp: publisher_host)
  ultimately show ?thesis by (simp add: ready_def publisher_channel_def new_Channel_def)
qed


end
