(* ===== verification/Delivery_Tags.thy ===== *)
theory Delivery_Tags
  imports Channel_Properties
begin

text \<open>
  Delivery tags over the life of a channel: the steps a channel takes, and the invariant that
  the tags of unacknowledged messages are distinct and already handed out.
\<close>

section \<open>Tags that are left alone\<close>

definition same_tags :: "Session \<Rightarrow> Session \<Rightarrow> bool" where
  "same_tags s s' \<longleftrightarrow> ch_unackedMessages (s_channel s') = ch_unackedMessages (s_channel s) \<and>
     ch_nextDeliveryTag (s_channel s') = ch_nextDeliveryTag (s_channel s)"

lemma same_tags_refl [simp]: "same_tags s s"
  by (simp add: same_tags_def)

lemma same_tags_receive: "(\<And>s'. r = Inr s' \<Longrightarrow> same_tags s s') \<Longrightarrow> same_tags s (snd (receive s r))"
  by (cases r) (simp_all add: receive_def)

lemma same_tags_send [simp]:
  "same_tags s (sendMethodFrame c m w s') = same_tags s s'" "same_tags s (sendContentFrames c p b s') = same_tags s s'"
  "same_tags s (sendChannelClose code txt c m s') = same_tags s s'" "same_tags s (replyUnless noWait c m g s') = same_tags s s'"
  "same_tags s (s'\<lparr>s_host := vh\<rparr>) = same_tags s s'" "same_tags s (on_host f s') = same_tags s s'"
  by (simp_all add: same_tags_def session_defs)

lemma same_tags_channel:
  "(\<And>ch. ch_unackedMessages (f ch) = ch_unackedMessages ch \<and> ch_nextDeliveryTag (f ch) = ch_nextDeliveryTag ch) \<Longrightarrow>
   same_tags s (on_channel f s') = same_tags s s'"
  by (simp add: same_tags_def on_channel_def)

lemma same_tags_declarations:
  "same_tags s (exchangeDeclare x ty bits args s)" "same_tags s (exchangeDelete x bits s)"
  "same_tags s (queueDeclare q bits args s)" "same_tags s (queueBind q x k bits args s)"
  "same_tags s (queueUnbind q x k args s)" "same_tags s (queuePurge q bits s)" "same_tags s (queueDelete q bits s)"
  by (simp_all add: exchangeDeclare_def exchangeDelete_def queueDeclare_def queueBind_def queueUnbind_def
      queuePurge_def queueDelete_def Let_def split: prod.split sum.split option.split)

lemma same_tags_consumers:
  "same_tags s (basicConsume q tag bits args s)" "same_tags s (basicCancel tag bits s)"
  "same_tags s (basicPublish x k bits s)" "same_tags s (confirmSelect bits s)"
  by (auto simp: basicConsume_def chooseTag_def basicCancel_def basicPublish_def confirmSelect_def Let_def
      same_tags_channel split: prod.split option.split)

lemma same_tags_qos: "same_tags s (snd (handleBasicQos buf s))"
  by (auto simp: handleBasicQos_def reading_def Let_def same_tags_channel split: sum.split prod.split)

lemma same_tags_confirm: "same_tags s (confirmPublish s') = same_tags s s'"
  by (auto simp: confirmPublish_def Let_def same_tags_channel)

lemma same_tags_publish: "completePublish p s = Some s' \<Longrightarrow> same_tags s s'"
  by (auto simp: completePublish_def Let_def bind_eq_Some_conv same_tags_channel same_tags_confirm split: prod.splits if_splits)

lemma same_tags_trans: "same_tags s s1 \<Longrightarrow> same_tags s1 s2 \<Longrightarrow> same_tags s s2"
  by (simp add: same_tags_def)

lemma same_tags_body: "same_tags s (snd (handleContentBody data s))"
proof (cases "ch_pendingPublish (s_channel s)")
  case (Some p0)
  define p where "p = p0\<lparr>pp_body := pp_body p0 @ data, pp_bodyReceived := pp_bodyReceived p0 + word_of_nat (length data)\<rparr>"
  define s1 where "s1 = on_channel (\<lambda>ch. ch\<lparr>ch_pendingPublish := Some p\<rparr>) s"
  have s1: "same_tags s s1" by (simp add: s1_def same_tags_channel)
  have "same_tags s1 (snd (receive s1 (attempt (completePublish p s1))))"
    by (rule same_tags_receive) (auto simp: attempt_def split: option.splits dest: same_tags_publish)
  then show ?thesis using s1 same_tags_trans Some
    by (auto simp: handleContentBody_def Let_def simp flip: p_def s1_def)
qed (simp add: handleContentBody_def)

lemma same_tags_header: "same_tags s (snd (handleContentHeader buf s))"
proof -
  have "same_tags s (snd (handleContentBody [] (on_channel (\<lambda>ch. ch\<lparr>ch_pendingPublish := x\<rparr>) s)))" for x
    using same_tags_trans [OF _ same_tags_body] by (simp add: same_tags_channel)
  then show ?thesis
    by (auto simp: handleContentHeader_def reading_def Let_def same_tags_channel split: option.split sum.split prod.split)
qed

section \<open>The invariant\<close>

definition tags_ok :: "Channel \<Rightarrow> bool" where
  "tags_ok ch \<longleftrightarrow> distinct_keys (ch_unackedMessages ch) \<and>
     (\<forall>tag \<in> set (map fst (ch_unackedMessages ch)). tag < ch_nextDeliveryTag ch)"

lemma tags_ok_same: "same_tags s s' \<Longrightarrow> tags_ok (s_channel s) \<Longrightarrow> tags_ok (s_channel s')"
  by (simp add: tags_ok_def same_tags_def)

lemma tags_ok_sub:
  assumes "tags_ok ch" "ch_nextDeliveryTag ch' = ch_nextDeliveryTag ch"
    "ch_unackedMessages ch' = filter P (ch_unackedMessages ch)"
  shows "tags_ok ch'"
  using assms by (auto simp: tags_ok_def distinct_map_filter)

lemma word_less_Suc: "(x :: u64) \<noteq> - 1 \<Longrightarrow> t \<le> x \<Longrightarrow> t < x + 1"
  using inc_less_eq_iff [of x t] by fastforce

lemma tags_ok_next:
  assumes "tags_ok ch" "ch_nextDeliveryTag ch \<noteq> - 1" "ch_nextDeliveryTag ch' = ch_nextDeliveryTag ch + 1"
    "ch_unackedMessages ch' = ch_unackedMessages ch \<or>
     ch_unackedMessages ch' = AList.update (ch_nextDeliveryTag ch) u (ch_unackedMessages ch)"
  shows "tags_ok ch'"
proof -
  have "tag < ch_nextDeliveryTag ch + 1" if "tag < ch_nextDeliveryTag ch \<or> tag = ch_nextDeliveryTag ch" for tag
    using that word_less_Suc [OF assms(2)] by auto
  then have new: "\<forall>tag \<in> insert (ch_nextDeliveryTag ch) (set (map fst (ch_unackedMessages ch))). tag < ch_nextDeliveryTag ch'"
    using assms(1,3) unfolding tags_ok_def by (metis insert_iff)
  have keys: "set (map fst (ch_unackedMessages ch')) \<subseteq> insert (ch_nextDeliveryTag ch) (set (map fst (ch_unackedMessages ch)))"
    using assms(4) by (auto simp del: set_map simp: update_keys split: if_splits)
  have "distinct_keys (ch_unackedMessages ch')" using assms(1,4) by (auto simp: tags_ok_def distinct_update)
  then show ?thesis unfolding tags_ok_def using new keys by blast
qed

lemma tags_ok_deliver:
  assumes "tags_ok (s_channel s)" "ch_nextDeliveryTag (s_channel s) \<noteq> - 1"
  shows "tags_ok (s_channel (runDelivery t s))"
proof (cases "ch_open (s_channel s)")
  case True
  show ?thesis
    by (rule tags_ok_next [OF assms, where u = "\<lparr>ua_message = t_msg t, ua_queue_name = t_queue t,
          ua_consumer = map_of (ch_consumers (s_channel s)) (t_tag t)\<rparr>"])
      (use True in \<open>auto simp: runDelivery_def deliverMessage_def Let_def session_defs split: option.split\<close>)
qed (simp add: runDelivery_def assms(1))

lemma tags_ok_get:
  assumes "tags_ok (s_channel s)" "ch_nextDeliveryTag (s_channel s) \<noteq> - 1" "basicGet q bits s = Some s'"
  shows "tags_ok (s_channel s')"
proof -
  consider "same_tags s s'" | a where
      "ch_nextDeliveryTag (s_channel s') = ch_nextDeliveryTag (s_channel s) + 1"
      "ch_unackedMessages (s_channel s') = ch_unackedMessages (s_channel s) \<or>
       ch_unackedMessages (s_channel s') = AList.update (ch_nextDeliveryTag (s_channel s))
         \<lparr>ua_message = a, ua_queue_name = q, ua_consumer = None\<rparr> (ch_unackedMessages (s_channel s))"
  proof (cases "findQueue q (s_host s) = None")
    case False
    then obtain r vh where g: "getMessage (onDeadLetter (s_host s)) q (s_host s) = Some (r, vh)"
      using assms(3) by (auto simp: basicGet_def bind_eq_Some_conv)
    show ?thesis
    proof (cases r)
      case None
      then show ?thesis using that(1) g False assms(3) by (auto simp: basicGet_def)
    next
      case (Some a)
      then show ?thesis using that(2) [of a] g False assms(3)
        by (auto simp: basicGet_def Let_def session_defs split: if_splits)
    qed
  qed (use that(1) assms(3) in \<open>auto simp: basicGet_def\<close>)
  then show ?thesis using tags_ok_same tags_ok_next assms(1,2) by cases blast+
qed

lemma tags_ok_delete: "tags_ok ch \<Longrightarrow> tags_ok (ch\<lparr>ch_unackedMessages := AList.delete tag (ch_unackedMessages ch)\<rparr>)"
  by (rule tags_ok_sub) (simp_all add: AList.delete_eq)

lemma tags_ok_empty: "tags_ok (ch\<lparr>ch_unackedMessages := []\<rparr>)"
  by (simp add: tags_ok_def)

lemma tags_ok_ackOne: "tags_ok (s_channel s) \<Longrightarrow> tags_ok (s_channel (ackOne tag s))"
  by (simp add: ackOne_def session_defs tags_ok_delete split: option.split)

lemma tags_ok_ack: "tags_ok (s_channel s) \<Longrightarrow> tags_ok (s_channel (basicAck tag bits s))"
proof -
  assume ok: "tags_ok (s_channel s)"
  have "tags_ok (s_channel (fold ackOne tags s))" for tags
    by (rule fold_invariant [where P = "\<lambda>s. tags_ok (s_channel s)", OF ok tags_ok_ackOne])
  then show ?thesis using tags_ok_ackOne [OF ok] by (simp add: basicAck_def)
qed

lemma tags_ok_rejectOne: "rejectOne requeue tag s = Some s' \<Longrightarrow> tags_ok (s_channel s) \<Longrightarrow> tags_ok (s_channel s')"
  by (auto simp: rejectOne_def Let_def session_defs tags_ok_delete split: option.splits if_splits)

lemma tags_ok_rejectAll: "rejectAll requeue tags s = Some s' \<Longrightarrow> tags_ok (s_channel s) \<Longrightarrow> tags_ok (s_channel s')"
  by (induction tags arbitrary: s) (auto simp: bind_eq_Some_conv dest: tags_ok_rejectOne)

lemma tags_ok_recover: "tags_ok (s_channel (basicRecover bits s))"
  by (simp add: basicRecover_def Let_def session_defs tags_ok_empty)

lemma tags_ok_removeAll: "tags_ok (s_channel (removeAllConsumers s))"
  by (simp add: removeAllConsumers_def requeueUnackedMessages_def session_defs tags_ok_empty)

lemma tags_ok_receive:
  "tags_ok (s_channel s) \<Longrightarrow> (\<And>s'. r = Inr s' \<Longrightarrow> tags_ok (s_channel s')) \<Longrightarrow> tags_ok (s_channel (snd (receive s r)))"
  by (cases r) (simp_all add: receive_def)

lemma attempt_Inr: "attempt r = Inr s' \<longleftrightarrow> r = Some s'"
  by (cases r) (simp_all add: attempt_def)

lemma same_tags_handlers:
  "same_tags s (snd (handleExchangeDeclare buf s))" "same_tags s (snd (handleExchangeDelete buf s))"
  "same_tags s (snd (handleQueueDeclare buf s))" "same_tags s (snd (handleQueueBind buf s))"
  "same_tags s (snd (handleQueueUnbind buf s))" "same_tags s (snd (handleQueuePurge buf s))"
  "same_tags s (snd (handleQueueDelete buf s))" "same_tags s (snd (handleBasicConsume buf s))"
  "same_tags s (snd (handleBasicCancel buf s))" "same_tags s (snd (handleBasicPublish buf s))"
  "same_tags s (snd (handleConfirmSelect buf s))" "same_tags s (snd (handleTxSelect buf s))"
  "same_tags s (snd (handleTxCommit buf s))" "same_tags s (snd (handleTxRollback buf s))"
  by (auto simp: handleExchangeDeclare_def handleExchangeDelete_def handleQueueDeclare_def handleQueueBind_def
      handleQueueUnbind_def handleQueuePurge_def handleQueueDelete_def handleBasicConsume_def handleBasicCancel_def
      handleBasicPublish_def handleConfirmSelect_def handleTxSelect_def handleTxCommit_def handleTxRollback_def
      bindE_Inr_iff same_tags_declarations same_tags_consumers intro!: same_tags_receive)

lemma tags_ok_handlers:
  assumes "tags_ok (s_channel s)"
  shows "tags_ok (s_channel (snd (handleBasicAck buf s)))" "tags_ok (s_channel (snd (handleBasicReject buf s)))"
    "tags_ok (s_channel (snd (handleBasicNack buf s)))" "tags_ok (s_channel (snd (handleBasicRecover buf s)))"
    "ch_nextDeliveryTag (s_channel s) \<noteq> - 1 \<Longrightarrow> tags_ok (s_channel (snd (handleBasicGet buf s)))"
  using assms
  by (auto simp: handleBasicAck_def handleBasicReject_def handleBasicNack_def handleBasicRecover_def handleBasicGet_def
      basicNack_def bindE_Inr_iff attempt_Inr tags_ok_ack tags_ok_recover
      intro!: tags_ok_receive intro: tags_ok_rejectOne tags_ok_rejectAll tags_ok_get)

lemma tags_ok_method:
  assumes "tags_ok (s_channel s)" "ch_nextDeliveryTag (s_channel s) \<noteq> - 1"
  shows "tags_ok (s_channel (snd (handleMethod c m buf s)))"
proof -
  note same = same_tags_handlers same_tags_qos
  have "tags_ok (s_channel (notImplemented c m s))"
    using assms(1) by (simp add: notImplemented_def session_defs)
  then show ?thesis unfolding handleMethod_def
    using tags_ok_handlers [OF assms(1)] assms(2) same [THEN tags_ok_same, OF assms(1)] by simp
qed

section \<open>Steps of a channel\<close>

text \<open>
  A method, a content header, a part of a body, a posted delivery, the end of the channel, and
  whatever others do to the virtual host meanwhile; until the 64-bit counter is used up.
\<close>

inductive channel_step :: "Session \<Rightarrow> Session \<Rightarrow> bool" where
  method_frame: "ch_nextDeliveryTag (s_channel s) \<noteq> - 1 \<Longrightarrow> channel_step s (snd (handleMethod c m buf s))"
| header_frame: "channel_step s (snd (handleContentHeader buf s))"
| body_frame: "channel_step s (snd (handleContentBody data s))"
| delivery: "ch_nextDeliveryTag (s_channel s) \<noteq> - 1 \<Longrightarrow> channel_step s (runDelivery t s)"
| finish: "channel_step s (removeAllConsumers s)"
| others: "channel_step s (s\<lparr>s_host := vh\<rparr>)"

lemma channel_step_tags: "channel_step s s' \<Longrightarrow> tags_ok (s_channel s) \<Longrightarrow> tags_ok (s_channel s')"
  by (induction rule: channel_step.induct)
    (auto intro: tags_ok_method tags_ok_deliver tags_ok_removeAll tags_ok_same [OF same_tags_header] tags_ok_same [OF same_tags_body])



end
