(* ===== verification/Channel_Closing.thy ===== *)
theory Channel_Closing
  imports Publishing Delivery_Tags
begin

text \<open>
  The end of a channel and of its consumers: unacknowledged messages go back to their
  queues, and cancelling takes a consumer off a queue by its tag alone.
\<close>

section \<open>Requeueing\<close>

lemma requeueMessage_other:
  "m \<noteq> n \<Longrightarrow> findQueue n (requeueMessage m a vh) = findQueue n vh"
  by (simp add: requeueMessage_def findQueue_def put_queue_def split: option.split prod.split)

lemma requeueMessage_idle:
  "findQueue n vh = Some q \<Longrightarrow> q_consumers q = [] \<Longrightarrow>
   findQueue n (requeueMessage n a vh) = Some (q\<lparr>q_messages := a # q_messages q\<rparr>)"
  by (simp add: requeueMessage_def requeueLocked_def dispatchLocked_def findQueue_def put_queue_def)

lemma delivery_steps_msgs: "delivery_steps s s' \<Longrightarrow> msg_ok (fst s) x \<Longrightarrow> msg_ok (fst s') x \<and> msg_at (fst s') x = msg_at (fst s) x"
proof (induction rule: rtranclp_induct)
  case (step s1 s2)
  from step(2) show ?case using step by (cases rule: delivery_step.cases) (auto simp: heap_simps)
qed simp

lemma requeueMessage_msgs:
  assumes "msg_ok (vh_heap vh) x"
  shows "msg_ok (vh_heap (requeueMessage n a vh)) x"
    "m_redelivered (msg_at (vh_heap (requeueMessage n a vh)) x) \<longleftrightarrow>
       m_redelivered (msg_at (vh_heap vh) x) \<or> x = a \<and> findQueue n vh \<noteq> None"
proof -
  have "msg_ok (vh_heap (requeueMessage n a vh)) x \<and>
    (m_redelivered (msg_at (vh_heap (requeueMessage n a vh)) x) \<longleftrightarrow>
       m_redelivered (msg_at (vh_heap vh) x) \<or> x = a \<and> findQueue n vh \<noteq> None)"
  proof (cases "findQueue n vh")
    case (Some q)
    let ?h = "put_msg a ((msg_at (vh_heap vh) a)\<lparr>m_redelivered := True\<rparr>) (vh_heap vh)"
    let ?q = "q\<lparr>q_messages := a # q_messages q\<rparr>"
    have h: "msg_ok ?h x" "m_redelivered (msg_at ?h x) \<longleftrightarrow> m_redelivered (msg_at (vh_heap vh) x) \<or> x = a"
      using assms by (simp add: heap_simps, cases "x = a") (simp_all add: heap_simps put_msg_other)
    have "vh_heap (requeueMessage n a vh) = fst (dispatchLocked ?h ?q)"
      using Some by (simp add: requeueMessage_def requeueLocked_def put_queue_def split_beta)
    then show ?thesis using delivery_steps_msgs [OF dispatch.run_steps [of ?h ?q]] h Some by auto
  qed (simp add: requeueMessage_def assms)
  then show "msg_ok (vh_heap (requeueMessage n a vh)) x"
    "m_redelivered (msg_at (vh_heap (requeueMessage n a vh)) x) \<longleftrightarrow>
       m_redelivered (msg_at (vh_heap vh) x) \<or> x = a \<and> findQueue n vh \<noteq> None"
    by blast+
qed

text \<open>One entry of the loop of \<open>requeueUnackedMessages\<close>.\<close>

definition give_back :: "u64 \<times> UnackedMessage \<Rightarrow> VirtualHost \<Rightarrow> VirtualHost" where
  "give_back = (\<lambda>(tag, u) vh. requeueMessage (ua_queue_name u) (ua_message u) (releaseCredit (ua_consumer u) vh))"

lemma findQueue_releaseCredit [simp]: "findQueue n (releaseCredit co vh) = findQueue n vh"
  by (simp add: findQueue_def)

lemma msg_ok_releaseCredit [simp]: "msg_ok (vh_heap (releaseCredit co vh)) x = msg_ok (vh_heap vh) x"
  by (simp add: msg_ok_def)

lemma give_back_all_queue:
  assumes "findQueue n vh = Some q" "q_consumers q = []"
  shows "findQueue n (fold give_back us vh) =
    Some (q\<lparr>q_messages := rev (map ua_message (filter (\<lambda>u. ua_queue_name u = n) (map snd us))) @ q_messages q\<rparr>)"
  using assms
proof (induction us arbitrary: vh q)
  case (Cons e us)
  obtain t u where e: "e = (t, u)" by (cases e)
  show ?case
  proof (cases "ua_queue_name u = n")
    case True
    have "findQueue n (give_back e vh) = Some (q\<lparr>q_messages := ua_message u # q_messages q\<rparr>)"
      using True requeueMessage_idle [of n "releaseCredit (ua_consumer u) vh" q "ua_message u"] Cons.prems
      by (simp add: give_back_def e)
    from Cons.IH [OF this] Cons.prems True show ?thesis by (simp add: e)
  next
    case False
    then have "findQueue n (give_back e vh) = Some q" using Cons.prems by (simp add: give_back_def e requeueMessage_other)
    from Cons.IH [OF this] Cons.prems False show ?thesis by (simp add: e)
  qed
qed simp

lemma give_back_keeps:
  assumes "msg_ok (vh_heap vh) x"
  shows "msg_ok (vh_heap (give_back e vh)) x"
    "m_redelivered (msg_at (vh_heap vh) x) \<Longrightarrow> m_redelivered (msg_at (vh_heap (give_back e vh)) x)"
    "findQueue n (give_back e vh) = None \<longleftrightarrow> findQueue n vh = None"
  using assms requeueMessage_msgs
  by (auto simp: give_back_def split_beta)
    (auto simp: requeueMessage_def findQueue_def put_queue_def split: option.splits prod.splits if_splits)

lemma give_back_all_redelivered:
  assumes "msg_ok (vh_heap vh) x"
  shows "msg_ok (vh_heap (fold give_back us vh)) x"
    "m_redelivered (msg_at (vh_heap vh) x) \<or> (\<exists>u \<in> set (map snd us). ua_message u = x \<and> findQueue (ua_queue_name u) vh \<noteq> None) \<Longrightarrow>
       m_redelivered (msg_at (vh_heap (fold give_back us vh)) x)"
  using assms
proof (induction us arbitrary: vh)
  case (Cons e us)
  { case 1 then show ?case using Cons.IH(1) give_back_keeps(1) by simp }
  { case 2
    obtain t u where e: "e = (t, u)" by (cases e)
    have now: "m_redelivered (msg_at (vh_heap (give_back e vh)) x)"
      if "ua_message u = x" "findQueue (ua_queue_name u) vh \<noteq> None"
      using that requeueMessage_msgs(2) [of "releaseCredit (ua_consumer u) vh" x "ua_queue_name u" "ua_message u"] 2(2)
      by (simp add: give_back_def e)
    have "m_redelivered (msg_at (vh_heap (give_back e vh)) x) \<or>
      (\<exists>u \<in> set (map snd us). ua_message u = x \<and> findQueue (ua_queue_name u) (give_back e vh) \<noteq> None)"
      using 2 now give_back_keeps(2,3) [OF 2(2)] by (auto simp: e)
    then show ?case using Cons.IH(2) [of "give_back e vh"] give_back_keeps(1) [OF 2(2)] by simp }
qed simp_all

section \<open>Detaching consumers\<close>

lemma detachConsumer_queue:
  "findQueue n (detachConsumer tag ci vh) = None \<longleftrightarrow> findQueue n vh = None"
  "findQueue n (detachConsumer tag ci vh) = Some q' \<Longrightarrow> \<exists>q. findQueue n vh = Some q \<and> q_messages q' = q_messages q"
  "h_messages (vh_heap (detachConsumer tag ci vh)) = h_messages (vh_heap vh)"
  by (auto simp: detachConsumer_def removeConsumerFrom_def findQueue_def put_queue_def removeConsumer_def
      clear_on_deliver_def put_con_def Let_def split: option.splits prod.splits if_splits)

definition detach_all :: "Session \<Rightarrow> VirtualHost" where
  "detach_all s = fold (\<lambda>(tag, ci). detachConsumer tag ci) (ch_consumers (s_channel s)) (s_host s)"

lemma detach_fold:
  "findQueue n (fold (\<lambda>(tag, ci). detachConsumer tag ci) cs vh) = Some q' \<Longrightarrow>
     \<exists>q. findQueue n vh = Some q \<and> q_messages q' = q_messages q"
  "h_messages (vh_heap (fold (\<lambda>(tag, ci). detachConsumer tag ci) cs vh)) = h_messages (vh_heap vh)"
proof (induction cs arbitrary: vh)
  case (Cons c cs)
  { case 1
    then obtain q1 where "findQueue n (detachConsumer (fst c) (snd c) vh) = Some q1" "q_messages q' = q_messages q1"
      using Cons.IH(1) [of "detachConsumer (fst c) (snd c) vh"] by (auto simp: split_beta)
    then show ?case using detachConsumer_queue(2) [of n "fst c" "snd c" vh q1] by simp }
  { case 2 show ?case using Cons.IH(2) by (simp add: split_beta detachConsumer_queue) }
qed simp_all

lemma removeAllConsumers_host:
  "s_host (removeAllConsumers s) = fold give_back (ch_unackedMessages (s_channel s)) (detach_all s)"
  "s_channel (removeAllConsumers s) = (s_channel s)\<lparr>ch_consumers := [], ch_unackedMessages := []\<rparr>"
  "s_out (removeAllConsumers s) = s_out s"
  by (simp_all add: removeAllConsumers_def requeueUnackedMessages_def session_defs detach_all_def give_back_def)

section \<open>Properties\<close>





end
