(* ===== verification/Connection_Closing.thy ===== *)
theory Connection_Closing
  imports Connection_Properties Channel_Closing Host_Properties
begin

text \<open>
  The end of a connection, from \<open>shutdown\<close> through the clean-up of its channels to that of the
  virtual host.
\<close>

section \<open>Names\<close>

lemma same_names_requeue: "same_names vh (requeueMessage n a vh)"
  by (auto simp: requeueMessage_def findQueue_def split: option.split prod.split
      intro!: same_names_put_queue dest: locked_names(4))

lemma same_names_give_back: "same_names vh (give_back e vh)"
proof -
  obtain t u where e: "e = (t, u)" by (cases e)
  have "same_names vh (releaseCredit co vh)" for co by (simp add: releaseCredit_def split: option.split)
  then show ?thesis unfolding e give_back_def split_conv by (rule same_names_trans [OF _ same_names_requeue])
qed

lemma same_names_fold: "(\<And>x vh. same_names vh (f x vh)) \<Longrightarrow> same_names vh (fold f xs vh)"
  by (induction xs arbitrary: vh) (auto intro: same_names_trans)

lemma same_names_retire: "same_names vh (retireChannel ch vh)"
proof -
  have "same_names vh (detachConsumer tag ci vh)" for tag ci vh
    by (simp add: detachConsumer_def same_names_consumers)
  then have "same_names vh (detach_all \<lparr>s_channel = ch\<lparr>ch_open := False\<rparr>, s_host = vh, s_out = []\<rparr>)"
    unfolding detach_all_def by (auto intro: same_names_fold)
  then show ?thesis unfolding retireChannel_def removeAllConsumers_host
    by (rule same_names_trans [OF _ same_names_fold [OF same_names_give_back]])
qed

lemma shutdown_host:
  assumes "co_state (p_conn p) \<noteq> CLOSED"
  obtains vh where "p_host (shutdown p) = removeConnectionQueues (co_id (p_conn p)) vh" "same_names (p_host p) vh"
proof
  show "p_host (shutdown p) = removeConnectionQueues (co_id (p_conn p))
      (fold (\<lambda>(num, ch). retireChannel ch) (co_channels (p_conn p)) (p_host p))"
    using assms by (simp add: shutdown_def cleanupAllChannels_def on_conn_def Let_def)
  show "same_names (p_host p) (fold (\<lambda>(num, ch). retireChannel ch) (co_channels (p_conn p)) (p_host p))"
    by (rule same_names_fold) (auto simp: same_names_retire)
qed

section \<open>Consumers\<close>

lemma dropConsumers_connection:
  "c_connection_id (con_at (vh_heap (dropConsumers c qs vh)) y) = c_connection_id (con_at (vh_heap vh) y)"
proof (induction qs arbitrary: vh)
  case (Cons n qs)
  then show ?case using removeConsumersByConnection_result
    by (auto simp: put_queue_def split: option.split prod.split)
qed simp

lemma cleanup_connection:
  "c_connection_id (con_at (vh_heap (removeConnectionQueues c vh)) y) = c_connection_id (con_at (vh_heap vh) y)"
proof -
  have "vh_heap (fold eraseExclusive ns vh) = vh_heap vh" for ns vh
    by (induction ns arbitrary: vh) (simp_all add: eraseExclusive_def unbindEverywhere_def Let_def)
  then show ?thesis by (simp add: removeConnectionQueues_def Let_def dropConsumers_connection)
qed

section \<open>Properties\<close>

text \<open>
  (C25) The end of a connection leaves nothing of it behind: its channels are gone, no queue is owned
  by it and no queue has a consumer of it, while the names of the virtual host stay consistent.
\<close>

theorem shutdown_leaves_nothing_behind:
  assumes "names_ok (p_host p)" "co_state (p_conn p) \<noteq> CLOSED" "findQueue n (p_host (shutdown p)) = Some q"
  shows "co_state (p_conn (shutdown p)) = CLOSED \<and> co_channels (p_conn (shutdown p)) = [] \<and>
    p_closed (shutdown p) = p_closed p @ [co_id (p_conn p)] \<and> names_ok (p_host (shutdown p)) \<and>
    \<not> (q_exclusive q \<and> q_owner_connection q = co_id (p_conn p)) \<and>
    list_all (\<lambda>ci. c_connection_id (con_at (vh_heap (p_host (shutdown p))) ci) \<noteq> co_id (p_conn p)) (q_consumers q)"
proof -
  obtain vh where vh: "p_host (shutdown p) = removeConnectionQueues (co_id (p_conn p)) vh" "same_names (p_host p) vh"
    by (rule shutdown_host [OF assms(2)])
  have ok: "names_ok vh" using names_ok_same [OF vh(2)] assms(1) by simp
  have keys: "distinct_keys (vh_queues vh)"
    using ok keys_queue_names [of vh] by (simp add: names_ok_def queues_ok_def)
  obtain q0 where "findQueue n vh = Some q0" "\<not> owned_by (co_id (p_conn p)) q0"
    "q = without_consumers_of (co_id (p_conn p)) (vh_heap vh) q0"
    using assms(3) unfolding vh(1) cleanup_result_of [OF keys] by (auto split: option.splits if_splits)
  then have "\<not> (q_exclusive q \<and> q_owner_connection q = co_id (p_conn p)) \<and>
      list_all (\<lambda>ci. c_connection_id (con_at (vh_heap (p_host (shutdown p))) ci) \<noteq> co_id (p_conn p)) (q_consumers q)"
    unfolding vh(1) cleanup_connection by (simp add: owned_by_def without_consumers_of_def list_all_iff)
  moreover have "names_ok (p_host (shutdown p))" unfolding vh(1) by (rule names_ok_cleanup [OF ok])
  moreover have "co_state (p_conn (shutdown p)) = CLOSED \<and> co_channels (p_conn (shutdown p)) = [] \<and>
      p_closed (shutdown p) = p_closed p @ [co_id (p_conn p)]"
    using assms(2) by (simp add: shutdown_def cleanupAllChannels_def on_conn_def Let_def)
  ultimately show ?thesis by blast
qed

theorem shutdown_leaves_nothing_behind_witness:
  "let p = \<lparr>p_conn = new_Connection 2 None [] 0, p_host = one_queue_host False False, p_objects = 0, p_closed = []\<rparr>
   in p_closed (shutdown p) = [2] \<and> names_ok (p_host (shutdown p))"
proof -
  let ?p = "\<lparr>p_conn = new_Connection 2 None [] 0, p_host = one_queue_host False False, p_objects = 0, p_closed = []\<rparr>"
  have p: "co_state (p_conn ?p) \<noteq> CLOSED" "co_id (p_conn ?p) = 2" by (simp_all add: new_Connection_def)
  have ok: "names_ok (p_host ?p)" using reachable_names [OF client_reachable [OF one_queue_host(4)]] by simp
  have "p_host (shutdown ?p) = removeConnectionQueues 2 (one_queue_host False False)"
    by (simp add: shutdown_def cleanupAllChannels_def on_conn_def Let_def new_Connection_def)
  then have "findQueue ''q'' (p_host (shutdown ?p)) \<noteq> None"
    by (simp add: cleanup_result_of [OF one_queue_host(3)] one_queue_host owned_by_def idle_auto_delete_def without_consumers_of_def)
  then show ?thesis using shutdown_leaves_nothing_behind [OF ok p(1)] p(2) by (auto simp: Let_def)
qed

end
