(* ===== verification/Server.thy ===== *)
theory Server
  imports Handshake Restart
begin

text \<open>
  The server (\<open>broker/server.h\<close>, \<open>broker/server.cpp\<close>): start-up, accepting connections, the
  timers for expiry and compaction, and stopping. The properties span connections: who is
  logged in, and which connections are registered.
\<close>

section \<open>State\<close>

text \<open>
  Connection objects have addresses, as they outlive their entry in \<open>connections_\<close>; \<open>sv_heap\<close>
  holds them. The three flags say whether the acceptor and the timers are running.
\<close>

record AmqpServer =
  sv_vhost :: VirtualHost
  sv_userStore :: UserStore
  sv_nextConnectionId :: u32
  sv_connections :: "(u32 \<times> nat) list"
  sv_accepting :: bool
  sv_tickTimer :: bool
  sv_compactTimer :: bool
  sv_heap :: "Connection list"
  sv_channels :: nat

record ConnectionInfo =
  ci_id :: u32
  ci_user :: string
  ci_peer :: string
  ci_connectedAtMs :: int
  ci_channels :: nat

section \<open>Operations\<close>

text \<open>
  \<open>wal\<close> is the content of the log below \<open>dataDir\<close>, \<open>None\<close> if \<open>dataDir\<close> is empty; \<open>users\<close>
  is \<open>None\<close> if \<open>usersFile\<close> is empty, and else the content of that file if it can be read.
\<close>

definition new_AmqpServer :: "byte list option \<Rightarrow> string option option \<Rightarrow> Heap \<Rightarrow> AmqpServer option" where
  "new_AmqpServer wal users h =
     do { vh \<leftarrow> recoverFromStore (new_VirtualHost ''/'' (map_option (\<lambda>bs. open_store (new_MessageStore bs)) wal) h);
          Some \<lparr>sv_vhost = vh,
                sv_userStore = (case users of None \<Rightarrow> new_UserStore | Some f \<Rightarrow> snd (loadFromFile f new_UserStore)),
                sv_nextConnectionId = 1, sv_connections = [], sv_accepting = False, sv_tickTimer = False,
                sv_compactTimer = False, sv_heap = [], sv_channels = 0\<rparr> }"

definition start_server :: "AmqpServer \<Rightarrow> AmqpServer" where
  "start_server s = s\<lparr>sv_accepting := True, sv_tickTimer := True, sv_compactTimer := True\<rparr>"

definition removeConnection :: "u32 \<Rightarrow> AmqpServer \<Rightarrow> AmqpServer" where
  "removeConnection i s = s\<lparr>sv_connections := AList.delete i (sv_connections s)\<rparr>"

text \<open>
  A callback of the connection at \<open>a\<close>. It works on the shared virtual host, and \<open>shutdown\<close>
  calls \<open>onClose_\<close>, which removes the connection.
\<close>

definition peer_of :: "nat \<Rightarrow> AmqpServer \<Rightarrow> Peer" where
  "peer_of a s = \<lparr>p_conn = sv_heap s ! a, p_host = sv_vhost s, p_objects = sv_channels s, p_closed = []\<rparr>"

definition put_peer :: "nat \<Rightarrow> Peer \<Rightarrow> AmqpServer \<Rightarrow> AmqpServer" where
  "put_peer a p s = fold removeConnection (p_closed p)
     (s\<lparr>sv_heap := (sv_heap s)[a := p_conn p], sv_vhost := p_host p, sv_channels := p_objects p\<rparr>)"

definition on_peer :: "nat \<Rightarrow> (Peer \<Rightarrow> Peer) \<Rightarrow> AmqpServer \<Rightarrow> AmqpServer" where
  "on_peer a f s = put_peer a (f (peer_of a s)) s"

text \<open>\<open>None\<close> is an error of \<open>async_accept\<close>; it ends the loop.\<close>

definition onAccept :: "(string \<times> int) option \<Rightarrow> AmqpServer \<Rightarrow> AmqpServer" where
  "onAccept r s =
     (case r of
        None \<Rightarrow> s\<lparr>sv_accepting := False\<rparr>
      | Some (peer, time) \<Rightarrow>
          let connId = sv_nextConnectionId s;
              a = length (sv_heap s);
              s1 = s\<lparr>sv_nextConnectionId := connId + 1,
                     sv_heap := sv_heap s @ [new_Connection connId (Some (sv_userStore s)) peer time],
                     sv_connections := AList.update connId a (sv_connections s)\<rparr>
          in (on_peer a start_connection s1)\<lparr>sv_accepting := True\<rparr>)"

definition stop :: "AmqpServer \<Rightarrow> AmqpServer" where
  "stop s =
     (let s1 = s\<lparr>sv_tickTimer := False, sv_compactTimer := False, sv_accepting := False\<rparr>;
          s2 = fold (\<lambda>(i, a). on_peer a (on_conn close_connection)) (sv_connections s1) s1
      in s2\<lparr>sv_connections := []\<rparr>)"

definition snapshotConnections :: "AmqpServer \<Rightarrow> ConnectionInfo list" where
  "snapshotConnections s =
     map (\<lambda>(i, a). let c = sv_heap s ! a
            in \<lparr>ci_id = i, ci_user = co_authUser c, ci_peer = co_peerAddress c,
                ci_connectedAtMs = co_connectedAtMs c, ci_channels = length (co_channels c)\<rparr>) (sv_connections s)"

text \<open>The timers start themselves again.\<close>

definition onTick :: "AmqpServer \<Rightarrow> AmqpServer option" where
  "onTick s = do { vh \<leftarrow> tick (sv_vhost s); Some (s\<lparr>sv_vhost := vh\<rparr>) }"

definition onCompaction :: "AmqpServer \<Rightarrow> AmqpServer" where
  "onCompaction s = s\<lparr>sv_vhost := log_store compactIfNeeded (sv_vhost s)\<rparr>"

section \<open>Steps\<close>

text \<open>What happens to a running server, before \<open>stop\<close>.\<close>

inductive server_step :: "AmqpServer \<Rightarrow> AmqpServer \<Rightarrow> bool" where
  accept: "sv_accepting s \<Longrightarrow> server_step s (onAccept r s)"
| connection: "a < length (sv_heap s) \<Longrightarrow> callback (peer_of a s) p \<Longrightarrow> server_step s (put_peer a p s)"
| tick: "sv_tickTimer s \<Longrightarrow> onTick s = Some s' \<Longrightarrow> server_step s s'"
| compaction: "sv_compactTimer s \<Longrightarrow> server_step s (onCompaction s)"

end
