(* ===== verification/Server_Properties.thy ===== *)
theory Server_Properties
  imports Server
begin

text \<open>
  Properties of the server with all its connections: who is past the login, and which
  connections \<open>connections_\<close> holds.
\<close>

section \<open>What the handlers of a connection keep\<close>

text \<open>
  The id and the outstanding read stay, a closed connection stays closed, and \<open>onClose_\<close> is
  called exactly when the connection becomes closed.
\<close>

definition keeps :: "Peer \<Rightarrow> Peer \<Rightarrow> bool" where
  "keeps p p' \<longleftrightarrow> co_id (p_conn p') = co_id (p_conn p) \<and> co_read (p_conn p') = co_read (p_conn p) \<and>
     (co_state (p_conn p) = CLOSED \<longrightarrow> co_state (p_conn p') = CLOSED) \<and>
     p_closed p' = p_closed p @
       (if co_state (p_conn p) \<noteq> CLOSED \<and> co_state (p_conn p') = CLOSED then [co_id (p_conn p)] else [])"

lemma keeps_refl [simp]: "keeps p p"
  by (simp add: keeps_def)

lemma keeps_trans: "keeps p p1 \<Longrightarrow> keeps p1 p2 \<Longrightarrow> keeps p p2"
  by (auto simp: keeps_def)

lemma keeps_on_conn:
  "co_id (f (p_conn p)) = co_id (p_conn p) \<Longrightarrow> co_read (f (p_conn p)) = co_read (p_conn p) \<Longrightarrow>
   (co_state (f (p_conn p)) = CLOSED) = (co_state (p_conn p) = CLOSED) \<Longrightarrow> keeps p (on_conn f p)"
  by (simp add: keeps_def on_conn_def)

lemma connMethodFrame_sel [simp]:
  "co_id (connMethodFrame ch cl me w c) = co_id c" "co_read (connMethodFrame ch cl me w c) = co_read c"
  "co_state (connMethodFrame ch cl me w c) = co_state c"
  by (simp_all add: connMethodFrame_def)

lemma fold_sendFrame_more [simp]:
  "co_id (fold sendFrame ds c) = co_id c" "co_read (fold sendFrame ds c) = co_read c"
  by (induction ds arbitrary: c) simp_all

lemma keeps_frame: "keeps p (on_conn (sendFrame d) p)" "keeps p (on_conn (connMethodFrame ch cl me w) p)"
  by (intro keeps_on_conn; simp)+

lemma keeps_close: "keeps p (on_conn (sendConnectionClose code txt cl me) p)"
  by (rule keeps_on_conn) (simp_all add: sendConnectionClose_def)

lemma keeps_shutdown: "keeps p (shutdown p)"
  by (simp add: keeps_def shutdown_def cleanupAllChannels_def on_conn_def Let_def)

lemma keeps_gets:
  "(\<And>x. r = Inr x \<Longrightarrow> keeps p (snd (f x))) \<Longrightarrow> keeps p (snd (gets p r f))"
  by (cases r) (simp_all add: gets_def)

lemma keeps_in_channel: "keeps p (snd (in_channel num ch f p))"
  by (simp add: in_channel_def keeps_def split_beta)

lemma keeps_startOk: "keeps p (snd (handleStartOk buf p))"
proof -
  have "keeps p (on_conn (\<lambda>c. case cred of
             None \<Rightarrow> sendConnectionClose a t1 cl me c
           | Some (user, pass) \<Rightarrow>
               if \<not> admitted (co_userStore c) user pass then sendConnectionClose a t2 cl me c
               else sendConnectionTune (c\<lparr>co_authUser := user, co_state := AWAITING_TUNE_OK\<rparr>)) p)"
    if "co_state (p_conn p) = AWAITING_START_OK" for cred a t1 t2 cl me
    using that by (intro keeps_on_conn) (auto simp: sendConnectionClose_def sendConnectionTune_def split: option.split)
  then show ?thesis by (auto simp: handleStartOk_def keeps_close intro!: keeps_gets)
qed

lemma keeps_tuneOk: "keeps p (snd (handleTuneOk buf p))"
proof -
  have "keeps p (on_conn (\<lambda>c. let c1 = (negotiate a b d c)\<lparr>co_state := AWAITING_OPEN\<rparr>
      in if co_heartbeatInterval c1 > 0 then startHeartbeat c1 else c1) p)"
    if "co_state (p_conn p) = AWAITING_TUNE_OK" for a b d
    using that by (intro keeps_on_conn) (simp_all add: negotiate_def startHeartbeat_def Let_def)
  then show ?thesis by (auto simp: handleTuneOk_def keeps_close intro!: keeps_gets)
qed

lemma keeps_open: "keeps p (snd (handleConnectionOpen buf p))"
proof -
  have "keeps p (on_conn (\<lambda>c. if v then sendConnectionClose a t cl me c
      else connMethodFrame 0 class_CONNECTION connection_OPEN_OK w (c\<lparr>co_state := OPEN\<rparr>)) p)"
    if "co_state (p_conn p) = AWAITING_OPEN" for v a t cl me w
    using that by (intro keeps_on_conn) (simp_all add: sendConnectionClose_def)
  then show ?thesis by (auto simp: handleConnectionOpen_def keeps_close intro!: keeps_gets)
qed

lemma keeps_cleanup: "keeps p (cleanupChannel num p)"
  by (simp add: cleanupChannel_def keeps_def split: option.split)

lemma keeps_channel_methods:
  "keeps p (snd (handleChannelOpen num buf p))" "keeps p (snd (handleChannelClose num buf p))"
  "keeps p (snd (handleChannelCloseOk num p))" "keeps p (snd (handleChannelFlow num buf p))"
proof -
  have "keeps p (on_conn (connMethodFrame a b d w) (p\<lparr>p_objects := n, p_conn := (p_conn p)\<lparr>co_channels := x\<rparr>\<rparr>))" for a b d w n x
    by (simp add: keeps_def on_conn_def)
  then show "keeps p (snd (handleChannelOpen num buf p))"
    by (auto simp: handleChannelOpen_def keeps_close intro!: keeps_gets)
  have "keeps p (on_conn (connMethodFrame a b d w) (cleanupChannel num p))" for a b d w
    using keeps_cleanup keeps_frame(2) by (rule keeps_trans)
  then show "keeps p (snd (handleChannelClose num buf p))"
    by (auto simp: handleChannelClose_def intro!: keeps_gets)
  show "keeps p (snd (handleChannelCloseOk num p))" by (simp add: handleChannelCloseOk_def keeps_cleanup)
  show "keeps p (snd (handleChannelFlow num buf p))"
    by (auto simp: handleChannelFlow_def keeps_frame intro!: keeps_gets)
qed

lemma keeps_connectionClose: "keeps p (snd (handleConnectionClose buf p))"
  by (auto simp: handleConnectionClose_def intro!: keeps_gets keeps_trans [OF keeps_frame(2) keeps_shutdown])

lemma keeps_frames: "keeps p (snd (handleFrame f p))"
proof -
  have closeOk: "keeps p (snd (handleConnectionCloseOk p))" by (simp add: handleConnectionCloseOk_def keeps_shutdown)
  then have "keeps p (snd (handleConnectionMethod m buf p))" for m buf
    by (simp add: handleConnectionMethod_def keeps_startOk keeps_tuneOk keeps_open keeps_connectionClose keeps_close)
  moreover have "keeps p (snd (toChannel ch c m buf p))" for ch c m buf
    by (simp add: toChannel_def Let_def keeps_close keeps_in_channel split: option.split)
  ultimately have "keeps p (snd (handleMethodFrame ch buf p))" for ch buf
    by (auto simp: handleMethodFrame_def keeps_close keeps_channel_methods intro!: keeps_gets)
  then show ?thesis
    by (auto simp: handleFrame_def toOpenChannel_def keeps_close keeps_in_channel closeOk
        split: option.split intro!: keeps_gets)
qed

section \<open>What the callbacks of a connection keep\<close>

definition ends :: "Peer \<Rightarrow> Peer \<Rightarrow> bool" where
  "ends p p' \<longleftrightarrow> co_id (p_conn p') = co_id (p_conn p) \<and>
     (co_state (p_conn p) = CLOSED \<longrightarrow> co_state (p_conn p') = CLOSED) \<and>
     p_closed p' = p_closed p @
       (if co_state (p_conn p) \<noteq> CLOSED \<and> co_state (p_conn p') = CLOSED then [co_id (p_conn p)] else [])"

text \<open>Before the protocol header arrives nothing else is outstanding.\<close>

definition untouched :: "Connection \<Rightarrow> bool" where
  "untouched c \<longleftrightarrow> (co_read c = ReadProtocolHeader \<longrightarrow> co_state c = AWAITING_PROTOCOL_HEADER \<and> co_inflight c = None \<and>
     \<not> co_heartbeatTimer c \<and> \<not> co_heartbeatCheckTimer c \<and> co_channels c = [])"

lemma keeps_ends: "keeps p p' \<Longrightarrow> ends p p'"
  by (simp add: keeps_def ends_def)

lemma ends_trans: "ends p p1 \<Longrightarrow> ends p1 p2 \<Longrightarrow> ends p p2"
  by (auto simp: ends_def)

lemma ends_set_read: "ends p (set_read r p)"
  by (simp add: ends_def set_read_def on_conn_def)

lemma ends_received: "ends p (on_conn (\<lambda>c. c\<lparr>co_receivedData := b\<rparr>) p)"
  by (simp add: ends_def on_conn_def)

lemma read_elsewhere: "co_read c \<noteq> ReadProtocolHeader \<Longrightarrow> untouched c"
  by (simp add: untouched_def)

lemma keeps_read: "keeps p p' \<Longrightarrow> co_read (p_conn p') = co_read (p_conn p)"
  by (simp add: keeps_def)

lemma protocol_header_ends:
  assumes "co_state (p_conn p) \<noteq> CLOSED"
  shows "ends p (onProtocolHeader bs p)" "co_read (p_conn (onProtocolHeader bs p)) \<noteq> ReadProtocolHeader"
proof -
  have "ends p (on_conn (\<lambda>c. sendConnectionStart (c\<lparr>co_state := AWAITING_START_OK\<rparr>)) p)"
    using assms by (simp add: ends_def on_conn_def sendConnectionStart_def)
  then show "ends p (onProtocolHeader bs p)"
    by (auto simp: onProtocolHeader_def intro: ends_trans ends_set_read
        ends_trans [OF ends_set_read ends_trans [OF keeps_ends [OF keeps_frame(1)] keeps_ends [OF keeps_shutdown]]])
  show "co_read (p_conn (onProtocolHeader bs p)) \<noteq> ReadProtocolHeader"
    using keeps_read [OF keeps_trans [OF keeps_frame(1) keeps_shutdown], of PROTOCOL_HEADER "set_read NoRead p"]
    by (simp add: onProtocolHeader_def)
qed

lemma frame_header_ends:
  "ends p (onFrameHeader bs p)" "co_read (p_conn (onFrameHeader bs p)) \<noteq> ReadProtocolHeader"
  by (auto simp: onFrameHeader_def Let_def
      intro: ends_trans [OF ends_received ends_set_read]
        ends_trans [OF ends_received ends_trans [OF keeps_ends [OF keeps_close] ends_set_read]])

lemma frame_payload_ends:
  "ends p (onFramePayload ty ch sz bs p)" "co_read (p_conn (onFramePayload ty ch sz bs p)) \<noteq> ReadProtocolHeader"
proof -
  let ?f = "\<lparr>f_type = ty, f_channel = ch, f_payload = take (unat sz) bs\<rparr>"
  obtain e p1 where h: "handleFrame ?f (set_read NoRead p) = (e, p1)" by fastforce
  have k: "keeps (set_read NoRead p) p1" using keeps_frames [of "set_read NoRead p" ?f] by (simp add: h)
  have p1: "ends p p1" using ends_set_read keeps_ends [OF k] by (rule ends_trans)
  have r: "co_read (p_conn p1) = NoRead" using keeps_read [OF k] by simp
  have closed: "ends p (on_conn (sendConnectionClose a t c m) p1)" "ends p (set_read r' p1)" for a t c m r'
    using p1 keeps_ends [OF keeps_close] ends_set_read by (blast intro: ends_trans)+
  have "ends p (set_read NoRead (on_conn (sendConnectionClose a t c m) p))" for a t c m
    using keeps_ends [OF keeps_close] ends_set_read by (rule ends_trans)
  then show "ends p (onFramePayload ty ch sz bs p)"
    by (simp add: onFramePayload_def h p1 closed split: option.split)
  have "co_read (sendConnectionClose a t c m (p_conn p1)) = NoRead" for a t c m
    using keeps_read [OF keeps_close [of p1 a t c m]] by (simp add: r)
  then show "co_read (p_conn (onFramePayload ty ch sz bs p)) \<noteq> ReadProtocolHeader"
    by (simp add: onFramePayload_def h r split: option.split)
qed

lemma read_error_ends: "ends p (onReadError p)" "co_read (p_conn (onReadError p)) \<noteq> ReadProtocolHeader"
  using ends_trans [OF ends_set_read keeps_ends [OF keeps_shutdown]] keeps_read [OF keeps_shutdown [of "set_read NoRead p"]]
  by (simp_all add: onReadError_def)

text \<open>The other callbacks are handlers that do nothing on an untouched connection.\<close>

lemma other_callbacks_keep:
  "keeps p (onWritten p)" "keeps p (onWriteError p)" "keeps p (onHeartbeatTimer p)" "keeps p (onHeartbeatCheck p)"
  "keeps p (runPosted t p)"
proof -
  show "keeps p (onWritten p)"
    by (cases "co_inflight (p_conn p)"; cases "co_writeQueue (p_conn p)")
      (simp_all add: onWritten_def doWrite_def keeps_on_conn)
  show "keeps p (onWriteError p)" unfolding onWriteError_def
    by (rule keeps_trans [OF _ keeps_shutdown], rule keeps_on_conn) simp_all
  show "keeps p (onHeartbeatTimer p)" by (simp add: onHeartbeatTimer_def keeps_frame)
  show "keeps p (onHeartbeatCheck p)" by (simp add: onHeartbeatCheck_def keeps_shutdown keeps_on_conn)
  show "keeps p (runPosted t p)" by (auto simp: runPosted_def keeps_in_channel split: option.split)
qed

lemma untouched_waits:
  assumes "untouched (p_conn p)" "co_read (p_conn p) = ReadProtocolHeader"
  shows "onWritten p = p" "co_inflight (p_conn p) = None" "onHeartbeatTimer p = p" "onHeartbeatCheck p = p" "runPosted t p = p"
  using assms by (simp_all add: untouched_def onWritten_def onHeartbeatTimer_def onHeartbeatCheck_def runPosted_def)

lemma keeps_untouched:
  "keeps p p' \<Longrightarrow> untouched (p_conn p) \<Longrightarrow> (co_read (p_conn p) = ReadProtocolHeader \<Longrightarrow> p' = p) \<Longrightarrow>
   ends p p' \<and> untouched (p_conn p')"
  by (cases "co_read (p_conn p) = ReadProtocolHeader") (simp_all add: keeps_ends keeps_read read_elsewhere)

lemma callback_ends:
  assumes "callback p p'" "untouched (p_conn p)"
  shows "ends p p' \<and> untouched (p_conn p')"
  using assms
proof (induction rule: callback.induct)
  case (read_done p bs)
  show ?case
  proof (cases "co_read (p_conn p)")
    case ReadProtocolHeader
    with read_done have "co_state (p_conn p) \<noteq> CLOSED" by (simp add: untouched_def)
    then show ?thesis unfolding ReadProtocolHeader onRead.simps using protocol_header_ends read_elsewhere by blast
  next
    case ReadFrameHeader
    show ?thesis unfolding ReadFrameHeader onRead.simps using frame_header_ends read_elsewhere by blast
  next
    case (ReadFramePayload ty ch sz)
    show ?thesis unfolding ReadFramePayload onRead.simps using frame_payload_ends read_elsewhere by blast
  next
    case NoRead
    with read_done show ?thesis by simp
  qed
next
  case (read_failed p)
  show ?case using read_error_ends read_elsewhere by blast
next
  case (write_failed p)
  then show ?case using untouched_waits(2) by (intro keeps_untouched other_callbacks_keep) auto
next
  case (write_done p)
  then show ?case by (intro keeps_untouched other_callbacks_keep untouched_waits)
next
  case (heartbeat p)
  then show ?case by (intro keeps_untouched other_callbacks_keep untouched_waits)
next
  case (check p)
  then show ?case by (intro keeps_untouched other_callbacks_keep untouched_waits)
next
  case (delivery p t)
  then show ?case by (intro keeps_untouched other_callbacks_keep untouched_waits)
qed

section \<open>The server\<close>

text \<open>
  Connection objects are numbered in the order in which they were accepted; \<open>connections_\<close>
  holds exactly those that are not closed.
\<close>

definition registered :: "AmqpServer \<Rightarrow> bool" where
  "registered s \<longleftrightarrow> sv_nextConnectionId s = word_of_nat (length (sv_heap s) + 1) \<and> distinct (map fst (sv_connections s)) \<and>
     (\<forall>a < length (sv_heap s). co_id (sv_heap s ! a) = word_of_nat (a + 1) \<and> untouched (sv_heap s ! a)) \<and>
     (\<forall>i a. (i, a) \<in> set (sv_connections s) \<longleftrightarrow>
        a < length (sv_heap s) \<and> i = word_of_nat (a + 1) \<and> co_state (sv_heap s ! a) \<noteq> CLOSED)"

definition known_users :: "AmqpServer \<Rightarrow> bool" where
  "known_users s \<longleftrightarrow> (\<forall>c \<in> set (sv_heap s). co_userStore c = Some (sv_userStore s) \<and>
     (past_login (co_state c) \<longrightarrow> (\<exists>pass. verify (co_authUser c) pass (sv_userStore s))))"

lemma put_peer_sel:
  "sv_heap (put_peer a p s) = (sv_heap s)[a := p_conn p]" "sv_userStore (put_peer a p s) = sv_userStore s"
  "sv_nextConnectionId (put_peer a p s) = sv_nextConnectionId s"
  "sv_connections (put_peer a p s) = fold AList.delete (p_closed p) (sv_connections s)"
proof -
  have "sv_heap (fold removeConnection is t) = sv_heap t \<and> sv_userStore (fold removeConnection is t) = sv_userStore t \<and>
      sv_nextConnectionId (fold removeConnection is t) = sv_nextConnectionId t \<and>
      sv_connections (fold removeConnection is t) = fold AList.delete is (sv_connections t)" for "is" t
    by (induction "is" arbitrary: t) (simp_all add: removeConnection_def)
  then show "sv_heap (put_peer a p s) = (sv_heap s)[a := p_conn p]" "sv_userStore (put_peer a p s) = sv_userStore s"
    "sv_nextConnectionId (put_peer a p s) = sv_nextConnectionId s"
    "sv_connections (put_peer a p s) = fold AList.delete (p_closed p) (sv_connections s)"
    by (simp_all add: put_peer_def)
qed

lemma known_users_put:
  assumes "known_users s" "moves (sv_heap s ! a) (p_conn p)"
  shows "known_users (put_peer a p s)"
proof (cases "a < length (sv_heap s)")
  case True
  have "co_userStore (sv_heap s ! a) = Some (sv_userStore s)"
    "past_login (co_state (sv_heap s ! a)) \<Longrightarrow> \<exists>pass. verify (co_authUser (sv_heap s ! a)) pass (sv_userStore s)"
    using assms(1) True by (simp_all add: known_users_def)
  then have "co_userStore (p_conn p) = Some (sv_userStore s) \<and>
     (past_login (co_state (p_conn p)) \<longrightarrow> (\<exists>pass. verify (co_authUser (p_conn p)) pass (sv_userStore s)))"
    using assms(2) by (auto simp: moves_def admitted_def)
  then show ?thesis using assms(1) set_update_subset_insert [of "sv_heap s" a "p_conn p"]
    unfolding known_users_def put_peer_sel by blast
next
  case False
  then show ?thesis using assms(1) by (simp add: known_users_def put_peer_sel list_update_beyond)
qed

lemma onAccept_sel:
  "sv_heap (onAccept (Some (peer, time)) s) = sv_heap s @
     [(new_Connection (sv_nextConnectionId s) (Some (sv_userStore s)) peer time)\<lparr>co_read := ReadProtocolHeader\<rparr>]"
  "sv_userStore (onAccept (Some (peer, time)) s) = sv_userStore s"
  "sv_nextConnectionId (onAccept (Some (peer, time)) s) = sv_nextConnectionId s + 1"
  "sv_connections (onAccept (Some (peer, time)) s) =
     AList.update (sv_nextConnectionId s) (length (sv_heap s)) (sv_connections s)"
  by (simp_all add: onAccept_def on_peer_def put_peer_sel peer_of_def start_connection_def on_conn_def Let_def)

lemma onAccept_None_sel:
  "sv_heap (onAccept None s) = sv_heap s" "sv_userStore (onAccept None s) = sv_userStore s"
  "sv_nextConnectionId (onAccept None s) = sv_nextConnectionId s" "sv_connections (onAccept None s) = sv_connections s"
  by (simp_all add: onAccept_def)

lemma timers_sel:
  "onTick s = Some s' \<Longrightarrow> sv_heap s' = sv_heap s \<and> sv_userStore s' = sv_userStore s \<and>
     sv_nextConnectionId s' = sv_nextConnectionId s \<and> sv_connections s' = sv_connections s"
  "sv_heap (onCompaction s) = sv_heap s" "sv_userStore (onCompaction s) = sv_userStore s"
  "sv_nextConnectionId (onCompaction s) = sv_nextConnectionId s" "sv_connections (onCompaction s) = sv_connections s"
  by (auto simp: onTick_def onCompaction_def split: Option.bind_splits)

lemma known_users_step: "server_step s s' \<Longrightarrow> known_users s \<Longrightarrow> known_users s' \<and> sv_userStore s' = sv_userStore s"
proof (induction rule: server_step.induct)
  case (accept s r)
  show ?case
  proof (cases r)
    case None
    with accept show ?thesis by (simp add: known_users_def onAccept_None_sel)
  next
    case (Some pt)
    with accept show ?thesis
      by (cases pt) (auto simp: known_users_def onAccept_sel new_Connection_def past_login_def)
  qed
next
  case (connection a s p)
  then show ?case using known_users_put [of s a p] callback_moves [of "peer_of a s" p]
    by (simp add: peer_of_def put_peer_sel)
next
  case (tick s s')
  then show ?case using timers_sel(1) [of s s'] by (simp add: known_users_def)
qed (simp add: known_users_def timers_sel)

lemma known_users_stop: "known_users s \<Longrightarrow> known_users (stop s) \<and> sv_userStore (stop s) = sv_userStore s"
proof -
  have one: "known_users (on_peer a (on_conn close_connection) t) \<and> sv_userStore (on_peer a (on_conn close_connection) t) = sv_userStore t"
    if "known_users t" for a t
    using known_users_put [OF that, of a] moves_close
    by (simp add: on_peer_def put_peer_sel peer_of_def close_connection_def)
  have "known_users t \<Longrightarrow> known_users (fold (\<lambda>(i, a). on_peer a (on_conn close_connection)) cs t) \<and>
      sv_userStore (fold (\<lambda>(i, a). on_peer a (on_conn close_connection)) cs t) = sv_userStore t" for cs t
    by (induction cs arbitrary: t) (use one in auto)
  note closed = this [of "s\<lparr>sv_tickTimer := False, sv_compactTimer := False, sv_accepting := False\<rparr>" "sv_connections s"]
  have flags: "known_users (t\<lparr>sv_connections := cs\<rparr>) = known_users t"
    "known_users (t\<lparr>sv_tickTimer := x, sv_compactTimer := y, sv_accepting := z\<rparr>) = known_users t" for t cs x y z
    by (simp_all add: known_users_def)
  show "known_users s \<Longrightarrow> ?thesis" using closed by (simp add: stop_def Let_def flags)
qed

lemma ids_distinct: "a < 2 ^ 32 - 1 \<Longrightarrow> b < 2 ^ 32 - 1 \<Longrightarrow> (word_of_nat (a + 1) :: u32) = word_of_nat (b + 1) \<longleftrightarrow> a = b"
  using unat_of_nat_u32 [of "a + 1"] unat_of_nat_u32 [of "b + 1"] by (metis add_right_cancel less_diff_conv)

lemma registered_put:
  assumes "registered s" "length (sv_heap s) < 2 ^ 32 - 1" "a < length (sv_heap s)" "ends (peer_of a s) p" "untouched (p_conn p)"
  shows "registered (put_peer a p s)"
proof -
  let ?i = "word_of_nat (a + 1) :: u32" and ?c = "sv_heap s ! a"
  have c: "co_id ?c = ?i" and d: "distinct (map fst (sv_connections s))" using assms(1,3) by (simp_all add: registered_def)
  have p: "co_id (p_conn p) = ?i" "co_state ?c = CLOSED \<Longrightarrow> co_state (p_conn p) = CLOSED"
    "p_closed p = (if co_state ?c \<noteq> CLOSED \<and> co_state (p_conn p) = CLOSED then [?i] else [])"
    using assms(4) c by (simp_all add: ends_def peer_of_def)
  have "(i, b) \<in> set (fold AList.delete (p_closed p) (sv_connections s)) \<longleftrightarrow>
      (i, b) \<in> set (sv_connections s) \<and> \<not> (i = ?i \<and> co_state ?c \<noteq> CLOSED \<and> co_state (p_conn p) = CLOSED)" for i b
    by (auto simp: p(3) AList.delete_eq)
  moreover have "distinct (map fst (fold AList.delete (p_closed p) (sv_connections s)))"
    using d by (simp add: p(3) distinct_delete)
  moreover have "(i, b) \<in> set (sv_connections s) \<and> \<not> (i = ?i \<and> co_state ?c \<noteq> CLOSED \<and> co_state (p_conn p) = CLOSED) \<longleftrightarrow>
      b < length (sv_heap s) \<and> i = word_of_nat (b + 1) \<and> co_state ((sv_heap s)[a := p_conn p] ! b) \<noteq> CLOSED" for i b
  proof (cases "b = a")
    case True
    then show ?thesis using assms(1,3) p(2) by (auto simp: registered_def)
  next
    case False
    then show ?thesis using assms(1-3) ids_distinct [of a b] by (auto simp: registered_def)
  qed
  moreover have "co_id ((sv_heap s)[a := p_conn p] ! b) = word_of_nat (b + 1) \<and> untouched ((sv_heap s)[a := p_conn p] ! b)"
    if "b < length (sv_heap s)" for b
    using assms(1,3,5) p(1) that by (cases "b = a") (simp_all add: registered_def)
  ultimately show ?thesis using assms(1) by (simp add: registered_def put_peer_sel)
qed

lemma update_new: "k \<notin> fst ` set xs \<Longrightarrow> AList.update k v xs = xs @ [(k, v)]"
  by (induction xs) auto

lemma registered_accept:
  assumes "registered s" "length (sv_heap s) < 2 ^ 32 - 1"
  shows "registered (onAccept (Some (peer, time)) s)"
proof -
  let ?n = "length (sv_heap s)" and ?i = "sv_nextConnectionId s"
  have i: "?i = word_of_nat (?n + 1)" using assms(1) by (simp add: registered_def)
  have new: "(?i, a) \<notin> set (sv_connections s)" for a
    using assms i ids_distinct [of a ?n] by (auto simp: registered_def)
  then have "?i \<notin> fst ` set (sv_connections s)" by force
  then have up: "AList.update ?i ?n (sv_connections s) = sv_connections s @ [(?i, ?n)]" by (rule update_new)
  have "untouched ((new_Connection ?i (Some (sv_userStore s)) peer time)\<lparr>co_read := ReadProtocolHeader\<rparr>)"
    by (simp add: untouched_def new_Connection_def)
  then show ?thesis using assms(1) \<open>?i \<notin> fst ` set (sv_connections s)\<close>
    unfolding registered_def onAccept_sel up by (auto simp: nth_append less_Suc_eq new_Connection_def i)
qed

lemma registered_step:
  "server_step s s' \<Longrightarrow> registered s \<Longrightarrow> length (sv_heap s) < 2 ^ 32 - 1 \<Longrightarrow> registered s'"
proof (induction rule: server_step.induct)
  case (accept s r)
  show ?case
  proof (cases r)
    case None
    with accept show ?thesis by (simp add: registered_def onAccept_None_sel)
  next
    case (Some pt)
    with accept show ?thesis using registered_accept by (cases pt) simp
  qed
next
  case (connection a s p)
  have "untouched (p_conn (peer_of a s))" using connection(1,3) by (simp add: peer_of_def registered_def)
  from callback_ends [OF connection(2) this] show ?case using registered_put connection(1,3,4) by blast
next
  case (tick s s')
  then show ?case using timers_sel(1) [of s s'] by (simp add: registered_def)
qed (simp add: registered_def timers_sel)

lemma heap_grows: "server_step s s' \<Longrightarrow> length (sv_heap s) \<le> length (sv_heap s')"
proof (induction rule: server_step.induct)
  case (accept s r)
  show ?case by (cases r) (auto simp: onAccept_None_sel onAccept_sel)
next
  case (tick s s')
  then show ?case using timers_sel(1) [of s s'] by simp
qed (simp_all add: put_peer_sel timers_sel)

lemma new_server:
  assumes "new_AmqpServer wal users h = Some s"
  shows "known_users (start_server s)" "registered (start_server s)"
    "sv_userStore (start_server s) = (case users of None \<Rightarrow> new_UserStore | Some f \<Rightarrow> snd (loadFromFile f new_UserStore))"
    "sv_accepting (start_server s)" "sv_heap (start_server s) = []" "sv_connections (start_server s) = []"
    "sv_nextConnectionId (start_server s) = 1"
  using assms by (auto simp: new_AmqpServer_def start_server_def known_users_def registered_def split: Option.bind_splits)

lemma registered_reachable:
  assumes "new_AmqpServer wal users h = Some s0" "server_step\<^sup>*\<^sup>* (start_server s0) s" "length (sv_heap s) < 2 ^ 32 - 1"
  shows "registered s"
  using assms(2,3)
proof (induction rule: rtranclp_induct)
  case base
  then show ?case using new_server(2) [OF assms(1)] by simp
next
  case (step s s')
  then show ?case using heap_grows [OF step(2)] registered_step by simp
qed

lemma live_connections:
  assumes "registered s"
  shows "(\<lambda>x. sv_heap s ! snd x) ` set (sv_connections s) = {c. c \<in> set (sv_heap s) \<and> co_state c \<noteq> CLOSED}" (is "?l = ?r")
proof (intro equalityI subsetI)
  fix c assume "c \<in> ?l"
  then show "c \<in> ?r" using assms by (auto simp: registered_def)
next
  fix c assume "c \<in> ?r"
  then obtain a where a: "a < length (sv_heap s)" "c = sv_heap s ! a" "co_state c \<noteq> CLOSED"
    by (auto simp: in_set_conv_nth)
  then have "(word_of_nat (a + 1), a) \<in> set (sv_connections s)" using assms by (simp add: registered_def)
  then show "c \<in> ?l" using a(2) by (intro image_eqI [of _ _ "(word_of_nat (a + 1), a)"]) simp_all
qed

text \<open>A run of one connection is a run of the server.\<close>

lemma callbacks_end:
  "callback\<^sup>*\<^sup>* p p' \<Longrightarrow> untouched (p_conn p) \<Longrightarrow> ends p p' \<and> untouched (p_conn p')"
proof (induction rule: rtranclp_induct)
  case base
  then show ?case by (simp add: keeps_ends)
next
  case (step p1 p2)
  then show ?case using callback_ends ends_trans by blast
qed

lemma run_connection:
  assumes "callback\<^sup>*\<^sup>* (peer_of a s) p" "a < length (sv_heap s)" "untouched (sv_heap s ! a)" "p_closed p = []"
  shows "server_step\<^sup>*\<^sup>* s (put_peer a p s)"
  using assms(1,4)
proof (induction rule: rtranclp_induct)
  case base
  show ?case by (simp add: put_peer_def peer_of_def)
next
  case (step p1 p2)
  have "untouched (p_conn p1)" using callbacks_end [OF step(1)] assms(3) by (simp add: peer_of_def)
  then have "p_closed p1 = []" using callback_ends [OF step(2)] step(4) by (simp add: ends_def)
  then have "peer_of a (put_peer a p1 s) = p1" "put_peer a p2 (put_peer a p1 s) = put_peer a p2 s"
    using assms(2) step(4) by (cases p1; simp add: peer_of_def put_peer_def)+
  with server_step.connection [of a "put_peer a p1 s" p2] step(2) assms(2)
  have "server_step (put_peer a p1 s) (put_peer a p2 s)" by (simp add: put_peer_sel)
  with step.IH [OF \<open>p_closed p1 = []\<close>] show ?case by simp
qed

lemma sample_server: "\<exists>s. new_AmqpServer None None (sample_heap 0) = Some s"
  by (simp add: new_AmqpServer_def recoverFromStore_def new_VirtualHost_def)

text \<open>For the examples: a server without a log and users file, and a client that logs in as \<open>guest\<close>.\<close>

lemma login_run:
  assumes "new_AmqpServer None None (sample_heap 0) = Some s0"
  shows "let s = onAccept (Some ([], 0)) (start_server s0)
    in \<exists>p. server_step\<^sup>*\<^sup>* s (put_peer 0 p s) \<and> co_state (p_conn p) = OPEN \<and> sv_heap (put_peer 0 p s) = [p_conn p]"
proof -
  let ?s = "onAccept (Some ([], 0)) (start_server s0)"
  note s0 = new_server [OF assms]
  let ?p0 = "start_connection \<lparr>p_conn = new_Connection 1 (Some new_UserStore) [] 0, p_host = sv_vhost ?s,
    p_objects = sv_channels ?s, p_closed = []\<rparr>"
  have heap: "sv_heap ?s = [(new_Connection 1 (Some new_UserStore) [] 0)\<lparr>co_read := ReadProtocolHeader\<rparr>]"
    by (simp add: onAccept_sel s0)
  have p0: "peer_of 0 ?s = ?p0" by (simp add: peer_of_def heap start_connection_def on_conn_def)
  obtain bs p where p: "feed bs ?p0 = (p, [])" "co_state (p_conn p) = OPEN"
    using plain_login [OF guest_login(1,2) _ guest_login(4), of 4096 10 0 1 new_UserStore "sv_vhost ?s" "sv_channels ?s"]
      guest_login(3) by auto
  have run: "callback\<^sup>*\<^sup>* (peer_of 0 ?s) p" using feed_callbacks [of ?p0 bs] p(1) by (simp add: p0)
  have u: "untouched (sv_heap ?s ! 0)" by (simp add: heap untouched_def new_Connection_def)
  have "ends (peer_of 0 ?s) p" using callbacks_end [OF run] u by (simp add: peer_of_def)
  then have "p_closed p = []" using p(2) by (simp add: ends_def peer_of_def)
  then have "server_step\<^sup>*\<^sup>* ?s (put_peer 0 p ?s)" using run u heap by (intro run_connection) simp_all
  then show ?thesis using p(2) by (auto simp: Let_def put_peer_sel heap)
qed

section \<open>Properties\<close>

text \<open>
  (C18) In a server with any number of connections, through any interleaving of their callbacks, timers
  and stopping: a connection is past the login only under a name that the users file - or, without
  it, the built-in user - accepts.
\<close>

theorem only_known_users_pass_the_login:
  assumes "new_AmqpServer wal users h = Some s0" "(\<lambda>s s'. server_step s s' \<or> s' = stop s)\<^sup>*\<^sup>* (start_server s0) s"
    "c \<in> set (sv_heap s)" "past_login (co_state c)"
  shows "\<exists>pass. verify (co_authUser c) pass
    (case users of None \<Rightarrow> new_UserStore | Some f \<Rightarrow> snd (loadFromFile f new_UserStore))"
proof -
  have "known_users s \<and> sv_userStore s = sv_userStore (start_server s0)"
    using assms(2)
  proof (induction rule: rtranclp_induct)
    case base
    then show ?case using new_server(1) [OF assms(1)] by simp
  next
    case (step s s')
    then show ?case using known_users_step [of s s'] known_users_stop [of s] by auto
  qed
  then show ?thesis using assms(3,4) new_server(3) [OF assms(1)] by (auto simp: known_users_def)
qed

theorem only_known_users_pass_the_login_witness:
  "\<exists>s c pass. (\<lambda>s s'. server_step s s' \<or> s' = stop s)\<^sup>*\<^sup>* (start_server (the (new_AmqpServer None None (sample_heap 0)))) s \<and>
     c \<in> set (sv_heap s) \<and> co_state c = OPEN \<and> verify (co_authUser c) pass new_UserStore"
proof -
  obtain s0 where s0: "new_AmqpServer None None (sample_heap 0) = Some s0" using sample_server by blast
  let ?s = "onAccept (Some ([], 0)) (start_server s0)"
  have acc: "server_step (start_server s0) ?s" using new_server(4) [OF s0] by (intro server_step.accept)
  obtain p where p: "server_step\<^sup>*\<^sup>* ?s (put_peer 0 p ?s)" "co_state (p_conn p) = OPEN" "sv_heap (put_peer 0 p ?s) = [p_conn p]"
    using login_run [OF s0] by (auto simp: Let_def)
  let ?R = "\<lambda>s s'. server_step s s' \<or> s' = stop s"
  have "server_step\<^sup>*\<^sup>* \<le> ?R\<^sup>*\<^sup>*" by (rule rtranclp_mono) auto
  then have run: "?R\<^sup>*\<^sup>* (start_server s0) (put_peer 0 p ?s)"
    using converse_rtranclp_into_rtranclp [of server_step, OF acc p(1)] by blast
  from only_known_users_pass_the_login [OF s0 run, of "p_conn p"] p(2,3)
  obtain pass where "verify (co_authUser (p_conn p)) pass new_UserStore" by (auto simp: past_login_def)
  moreover have "p_conn p \<in> set (sv_heap (put_peer 0 p ?s))" by (simp add: p(3))
  ultimately show ?thesis using run p(2) unfolding s0 option.sel by blast
qed



end
