(* ===== verification/Stats_Writer.thy ===== *)
theory Stats_Writer
  imports Server
begin

text \<open>
  The statistics file for the web interface (\<open>broker/stats_writer.h\<close>): the text of a snapshot
  and the replacement of the file, checked against the grammar of JSON (RFC 8259).
\<close>

section \<open>The text\<close>

definition hexDigit :: "nat \<Rightarrow> char" where
  "hexDigit d = (if d < 10 then char_of (48 + d) else char_of (87 + d))"

text \<open>\<open>%04x\<close> of a value below 0x100.\<close>

definition hex4 :: "nat \<Rightarrow> string" where
  "hex4 n = ''00'' @ [hexDigit (n div 16), hexDigit (n mod 16)]"

definition jsonEscapeChar :: "char \<Rightarrow> string" where
  "jsonEscapeChar c =
     (if c = CHR 0x22 then [CHR 0x5C, CHR 0x22]
      else if c = CHR 0x5C then [CHR 0x5C, CHR 0x5C]
      else if c = CHR 0x08 then CHR 0x5C # ''b''
      else if c = CHR 0x0C then CHR 0x5C # ''f''
      else if c = CHR 0x0A then CHR 0x5C # ''n''
      else if c = CHR 0x0D then CHR 0x5C # ''r''
      else if c = CHR 0x09 then CHR 0x5C # ''t''
      else if of_char c < (0x20 :: nat) then CHR 0x5C # CHR ''u'' # hex4 (of_char c)
      else [c])"

definition jsonEscape :: "string \<Rightarrow> string" where
  "jsonEscape s = concat (map jsonEscapeChar s)"

definition show_int :: "int \<Rightarrow> string" where
  "show_int i = (if i < 0 then CHR ''-'' # show_nat (nat (- i)) else show_nat (nat i))"

definition show_bool :: "bool \<Rightarrow> string" where
  "show_bool b = (if b then ''true'' else ''false'')"

text \<open>A key with its colon, and a string in quotes.\<close>

definition key :: "string \<Rightarrow> string" where
  "key k = CHR 0x22 # k @ [CHR 0x22, CHR '':'']"

definition inQuotes :: "string \<Rightarrow> string" where
  "inQuotes t = CHR 0x22 # t @ [CHR 0x22]"

definition queueText :: "QueueSnapshot \<Rightarrow> string" where
  "queueText q =
     ''{'' @ key ''name'' @ inQuotes (jsonEscape (qs_name q)) @ '',''
     @ key ''durable'' @ show_bool (qs_durable q) @ '',''
     @ key ''exclusive'' @ show_bool (qs_exclusive q) @ '',''
     @ key ''auto_delete'' @ show_bool (qs_auto_delete q) @ '',''
     @ key ''messages'' @ show_nat (unat (qs_message_count q)) @ '',''
     @ key ''consumers'' @ show_nat (unat (qs_consumer_count q)) @ ''}''"

definition exchangeText :: "ExchangeSnapshot \<Rightarrow> string" where
  "exchangeText ex =
     ''{'' @ key ''name'' @ inQuotes (jsonEscape (if es_name ex = [] then ''(default)'' else es_name ex)) @ '',''
     @ key ''type'' @ inQuotes (jsonEscape (es_type ex)) @ '',''
     @ key ''durable'' @ show_bool (es_durable ex) @ '',''
     @ key ''auto_delete'' @ show_bool (es_auto_delete ex) @ '',''
     @ key ''bindings'' @ show_nat (es_binding_count ex) @ ''}''"

definition connectionText :: "ConnectionInfo \<Rightarrow> string" where
  "connectionText c =
     ''{'' @ key ''id'' @ show_nat (unat (ci_id c)) @ '',''
     @ key ''user'' @ inQuotes (jsonEscape (ci_user c)) @ '',''
     @ key ''peer'' @ inQuotes (jsonEscape (ci_peer c)) @ '',''
     @ key ''connected_at_ms'' @ show_int (ci_connectedAtMs c) @ '',''
     @ key ''channels'' @ show_nat (ci_channels c) @ ''}''"

text \<open>The loops over an index: a comma before every element but the first.\<close>

fun commaLoop :: "('a \<Rightarrow> string) \<Rightarrow> nat \<Rightarrow> 'a list \<Rightarrow> string" where
  "commaLoop f i [] = []"
| "commaLoop f i (x # xs) = (if i \<noteq> 0 then '','' else []) @ f x @ commaLoop f (i + 1) xs"

definition totalMessages :: "QueueSnapshot list \<Rightarrow> u32" where
  "totalMessages queues = fold (\<lambda>q n. n + qs_message_count q) queues 0"

definition snapshotText :: "int \<Rightarrow> int \<Rightarrow> AmqpServer \<Rightarrow> string" where
  "snapshotText nowMs startedAtMs server =
     (let queues = snapshotQueues (sv_vhost server);
          exchanges = snapshotExchanges (sv_vhost server);
          conns = snapshotConnections server
      in ''{'' @ key ''version'' @ inQuotes ''1.0'' @ '',''
         @ key ''timestamp_ms'' @ show_int nowMs @ '',''
         @ key ''uptime_ms'' @ show_int (nowMs - startedAtMs) @ '',''
         @ key ''stats'' @ ''{''
         @ key ''connections'' @ show_nat (length conns) @ '',''
         @ key ''queues'' @ show_nat (length queues) @ '',''
         @ key ''exchanges'' @ show_nat (length exchanges) @ '',''
         @ key ''messages_ready'' @ show_nat (unat (totalMessages queues)) @ ''}'' @ '',''
         @ key ''queues'' @ ''['' @ commaLoop queueText 0 queues @ '']'' @ '',''
         @ key ''exchanges'' @ ''['' @ commaLoop exchangeText 0 exchanges @ '']'' @ '',''
         @ key ''connections'' @ ''['' @ commaLoop connectionText 0 conns @ '']'' @ ''}'')"

section \<open>The file\<close>

text \<open>
  \<open>stats.json\<close> and \<open>stats.json.tmp\<close>, where they exist. The operating system decides whether
  the temporary file opens, how many bytes of the text reach it and whether renaming succeeds.
\<close>

record StatsFiles =
  sf_file :: "string option"
  sf_tmp :: "string option"

record StatsWriter =
  sw_startedAtMs :: int
  sw_running :: bool

definition new_StatsWriter :: "int \<Rightarrow> StatsWriter" where
  "new_StatsWriter nowMs = \<lparr>sw_startedAtMs = nowMs, sw_running = False\<rparr>"

definition start_stats :: "StatsWriter \<Rightarrow> StatsWriter" where
  "start_stats w = w\<lparr>sw_running := True\<rparr>"

definition stop_stats :: "StatsWriter \<Rightarrow> StatsWriter" where
  "stop_stats w = w\<lparr>sw_running := False\<rparr>"

definition writeSnapshot :: "bool \<Rightarrow> nat \<Rightarrow> bool \<Rightarrow> int \<Rightarrow> AmqpServer \<Rightarrow> StatsWriter \<Rightarrow> StatsFiles \<Rightarrow> StatsFiles" where
  "writeSnapshot opens wrote renames nowMs server w fs =
     (if \<not> opens then fs
      else let fs1 = fs\<lparr>sf_tmp := Some (take wrote (snapshotText nowMs (sw_startedAtMs w) server))\<rparr>
           in if renames then fs1\<lparr>sf_file := sf_tmp fs1, sf_tmp := None\<rparr> else fs1)"

text \<open>The timer starts itself again.\<close>

definition onStatsTimer :: "bool \<Rightarrow> nat \<Rightarrow> bool \<Rightarrow> int \<Rightarrow> AmqpServer \<Rightarrow> StatsWriter \<Rightarrow> StatsFiles \<Rightarrow> StatsFiles" where
  "onStatsTimer opens wrote renames nowMs server w fs =
     (if sw_running w then writeSnapshot opens wrote renames nowMs server w fs else fs)"

section \<open>JSON\<close>

datatype json = JNum int | JStr string | JBool bool | JArr "json list" | JObj "(string \<times> json) list"

definition plain_char :: "char \<Rightarrow> bool" where
  "plain_char c \<longleftrightarrow> c \<noteq> CHR 0x22 \<and> c \<noteq> CHR 0x5C \<and> 0x20 \<le> (of_char c :: nat)"

definition hex_value :: "char \<Rightarrow> nat option" where
  "hex_value c = (let n = of_char c in
     if 48 \<le> n \<and> n \<le> 57 then Some (n - 48) else if 97 \<le> n \<and> n \<le> 102 then Some (n - 87)
     else if 65 \<le> n \<and> n \<le> 70 then Some (n - 55) else None)"

text \<open>A character of a string, written out; \<open>\u\<close> stands for characters below 0x80 here.\<close>

inductive json_char :: "char \<Rightarrow> string \<Rightarrow> bool" where
  jc_plain: "plain_char c \<Longrightarrow> json_char c [c]"
| jc_quote: "json_char (CHR 0x22) [CHR 0x5C, CHR 0x22]"
| jc_backslash: "json_char (CHR 0x5C) [CHR 0x5C, CHR 0x5C]"
| jc_slash: "json_char (CHR ''/'') [CHR 0x5C, CHR ''/'']"
| jc_b: "json_char (CHR 0x08) [CHR 0x5C, CHR ''b'']"
| jc_f: "json_char (CHR 0x0C) [CHR 0x5C, CHR ''f'']"
| jc_n: "json_char (CHR 0x0A) [CHR 0x5C, CHR ''n'']"
| jc_r: "json_char (CHR 0x0D) [CHR 0x5C, CHR ''r'']"
| jc_t: "json_char (CHR 0x09) [CHR 0x5C, CHR ''t'']"
| jc_u: "map hex_value [a, b, d, e] = map Some [i, j, k, l] \<Longrightarrow> ((i * 16 + j) * 16 + k) * 16 + l < 128 \<Longrightarrow>
    json_char (char_of (((i * 16 + j) * 16 + k) * 16 + l)) [CHR 0x5C, CHR ''u'', a, b, d, e]"

inductive json_chars :: "string \<Rightarrow> string \<Rightarrow> bool" where
  json_chars_nil: "json_chars [] []"
| json_chars_cons: "json_char c t \<Longrightarrow> json_chars cs ts \<Longrightarrow> json_chars (c # cs) (t @ ts)"

definition numeral_text :: "string \<Rightarrow> bool" where
  "numeral_text ds \<longleftrightarrow> ds \<noteq> [] \<and> list_all (\<lambda>c. 48 \<le> (of_char c :: nat) \<and> of_char c \<le> (57 :: nat)) ds \<and>
     (hd ds \<noteq> CHR ''0'' \<or> length ds = 1)"

inductive json_text :: "json \<Rightarrow> string \<Rightarrow> bool"
  and json_elems :: "json list \<Rightarrow> string \<Rightarrow> bool"
  and json_members :: "(string \<times> json) list \<Rightarrow> string \<Rightarrow> bool" where
  j_num: "numeral_text ds \<Longrightarrow> json_text (JNum (int (read_nat ds))) ds"
| j_neg: "numeral_text ds \<Longrightarrow> json_text (JNum (- int (read_nat ds))) (CHR ''-'' # ds)"
| j_str: "json_chars s t \<Longrightarrow> json_text (JStr s) (CHR 0x22 # t @ [CHR 0x22])"
| j_true: "json_text (JBool True) ''true''"
| j_false: "json_text (JBool False) ''false''"
| j_arr: "json_elems vs t \<Longrightarrow> json_text (JArr vs) (CHR ''['' # t @ '']'')"
| j_obj: "json_members ms t \<Longrightarrow> json_text (JObj ms) (CHR ''{'' # t @ ''}'')"
| e_nil: "json_elems [] []"
| e_one: "json_text v t \<Longrightarrow> json_elems [v] t"
| e_cons: "json_text v t \<Longrightarrow> json_elems (v' # vs) ts \<Longrightarrow> json_elems (v # v' # vs) (t @ CHR '','' # ts)"
| m_nil: "json_members [] []"
| m_one: "json_chars k kt \<Longrightarrow> json_text v t \<Longrightarrow> json_members [(k, v)] (CHR 0x22 # kt @ CHR 0x22 # CHR '':'' # t)"
| m_cons: "json_chars k kt \<Longrightarrow> json_text v t \<Longrightarrow> json_members (m # ms) ts \<Longrightarrow>
    json_members ((k, v) # m # ms) (CHR 0x22 # kt @ CHR 0x22 # CHR '':'' # t @ CHR '','' # ts)"

section \<open>The text is JSON\<close>

lemma hex_value_digit: "d < 16 \<Longrightarrow> hex_value (hexDigit d) = Some d"
  by (auto simp: hex_value_def hexDigit_def Let_def)

lemma if_pred: "(b \<Longrightarrow> P x) \<Longrightarrow> (\<not> b \<Longrightarrow> P y) \<Longrightarrow> P (if b then x else y)"
  by simp

lemma json_char_escape: "json_char c (jsonEscapeChar c)"
proof -
  have u: "json_char c [CHR 0x5C, CHR ''u'', CHR ''0'', CHR ''0'', hexDigit (n div 16), hexDigit (n mod 16)]"
    if n: "n = of_char c" "n < 32" for n
  proof -
    have "map hex_value [CHR ''0'', CHR ''0'', hexDigit (n div 16), hexDigit (n mod 16)] = map Some [0, 0, n div 16, n mod 16]"
      using n(2) by (simp add: hex_value_digit) (simp add: hex_value_def)
    from jc_u [OF this] n show ?thesis by simp
  qed
  have plain: "json_char c [c]" if "c \<noteq> CHR 0x22" "c \<noteq> CHR 0x5C" "\<not> of_char c < (32 :: nat)"
    using that by (intro jc_plain) (simp add: plain_char_def)
  show ?thesis unfolding jsonEscapeChar_def hex4_def append_Cons append_Nil
    by (intro if_pred [where P = "json_char c"] plain u [OF refl])
      (simp_all only: jc_quote jc_backslash jc_b jc_f jc_n jc_r jc_t not_False_eq_True)
qed

lemma json_chars_escape: "json_chars s (jsonEscape s)"
  by (induction s) (auto simp: jsonEscape_def intro: json_chars.intros json_char_escape)

lemma json_chars_plain: "list_all plain_char s \<Longrightarrow> json_chars s s"
proof (induction s)
  case (Cons c s)
  then show ?case using json_chars_cons [OF jc_plain, of c s s] by simp
qed (simp add: json_chars.intros)

lemma show_nat_numeral: "numeral_text (show_nat n)"
proof (induction n rule: show_nat.induct)
  case (1 n)
  have digit: "48 \<le> (of_char (digit_char d) :: nat) \<and> of_char (digit_char d) \<le> (57 :: nat)" if "d < 10" for d
    using that by (simp add: of_char_digit)
  show ?case
  proof (cases "n < 10")
    case True
    then show ?thesis by (subst show_nat.simps) (simp add: numeral_text_def digit)
  next
    case False
    then have IH: "numeral_text (show_nat (n div 10))" by (rule 1)
    have "hd (show_nat (n div 10)) \<noteq> CHR ''0''"
    proof (cases "n div 10 < 10")
      case True
      then have "of_char (digit_char (n div 10)) \<noteq> (of_char (CHR ''0'') :: nat)" using False by (simp add: of_char_digit)
      then show ?thesis using True by (subst show_nat.simps) auto
    next
      case False
      then have "length (show_nat (n div 10)) \<noteq> 1" by (subst show_nat.simps) (subst show_nat.simps, simp)
      then show ?thesis using IH by (simp add: numeral_text_def)
    qed
    then show ?thesis using False IH by (subst show_nat.simps) (simp add: numeral_text_def digit)
  qed
qed

text \<open>A text that starts with a value, or with members, and goes on with \<open>r\<close>.\<close>

definition starts_value :: "json \<Rightarrow> string \<Rightarrow> string \<Rightarrow> bool" where
  "starts_value v t r \<longleftrightarrow> (\<exists>t0. t = t0 @ r \<and> json_text v t0)"

definition starts_members :: "(string \<times> json) list \<Rightarrow> string \<Rightarrow> string \<Rightarrow> bool" where
  "starts_members ms t r \<longleftrightarrow> (\<exists>t0. t = t0 @ r \<and> json_members ms t0)"

lemma starts_nat: "starts_value (JNum (int n)) (show_nat n @ r) r"
  using j_num [OF show_nat_numeral [of n]] by (auto simp: starts_value_def)

lemma starts_int: "starts_value (JNum i) (show_int i @ r) r"
  using j_num [OF show_nat_numeral [of "nat i"]] j_neg [OF show_nat_numeral [of "nat (- i)"]]
  by (cases "i < 0") (auto simp: starts_value_def show_int_def)

lemma starts_bool: "starts_value (JBool b) (show_bool b @ r) r"
  by (cases b) (auto simp: starts_value_def show_bool_def intro: j_true j_false)

lemma starts_escaped: "starts_value (JStr s) (inQuotes (jsonEscape s) @ r) r"
  using j_str [OF json_chars_escape [of s]] by (auto simp: starts_value_def inQuotes_def)

lemma starts_plain: "list_all plain_char s \<Longrightarrow> starts_value (JStr s) (inQuotes s @ r) r"
  using j_str [OF json_chars_plain [of s]] by (auto simp: starts_value_def inQuotes_def)

lemma starts_last: "list_all plain_char k \<Longrightarrow> starts_value v t r \<Longrightarrow> starts_members [(k, v)] (key k @ t) r"
  using m_one [OF json_chars_plain] by (fastforce simp: starts_members_def starts_value_def key_def)

lemma starts_next:
  "list_all plain_char k \<Longrightarrow> starts_value v t ('','' @ ts) \<Longrightarrow> starts_members (m # ms) ts r \<Longrightarrow>
   starts_members ((k, v) # m # ms) (key k @ t) r"
proof -
  assume k: "list_all plain_char k" and "starts_value v t ('','' @ ts)" "starts_members (m # ms) ts r"
  then obtain t0 t1 where "t = t0 @ '','' @ ts" "json_text v t0" "ts = t1 @ r" "json_members (m # ms) t1"
    by (auto simp: starts_value_def starts_members_def)
  then show ?thesis using m_cons [OF json_chars_plain [OF k], of v t0 m ms t1]
    by (auto simp: starts_members_def key_def)
qed

lemma starts_object: "starts_members ms t (''}'' @ r) \<Longrightarrow> starts_value (JObj ms) (''{'' @ t) r"
  using j_obj by (fastforce simp: starts_members_def starts_value_def)

lemma whole_object: "starts_members ms t ''}'' \<Longrightarrow> json_text (JObj ms) (''{'' @ t)"
  using j_obj by (fastforce simp: starts_members_def)

lemma commaLoop_later: "0 < i \<Longrightarrow> xs \<noteq> [] \<Longrightarrow> commaLoop f i xs = CHR '','' # commaLoop f 0 xs"
proof -
  have "commaLoop f i xs = concat (map (\<lambda>x. CHR '','' # f x) xs)" if "0 < i" for i xs
    using that by (induction xs arbitrary: i) simp_all
  then show "0 < i \<Longrightarrow> xs \<noteq> [] \<Longrightarrow> ?thesis" by (cases xs) simp_all
qed

lemma json_elems_loop: "(\<And>x. json_text (g x) (f x)) \<Longrightarrow> json_elems (map g xs) (commaLoop f 0 xs)"
proof (induction xs)
  case (Cons x xs)
  show ?case
  proof (cases xs)
    case Nil
    then show ?thesis using Cons.prems by (simp add: e_one)
  next
    case (Cons y ys)
    then show ?thesis using Cons.IH Cons.prems e_cons [of "g x" "f x" "g y" "map g ys"] commaLoop_later [of 1 xs f] by simp
  qed
qed (simp add: e_nil)

lemma starts_array:
  "(\<And>x. json_text (g x) (f x)) \<Longrightarrow> starts_value (JArr (map g xs)) (''['' @ commaLoop f 0 xs @ '']'' @ r) r"
  using j_arr [OF json_elems_loop] by (fastforce simp: starts_value_def)

section \<open>The value of a snapshot\<close>

definition queueValue :: "QueueSnapshot \<Rightarrow> json" where
  "queueValue q = JObj [(''name'', JStr (qs_name q)), (''durable'', JBool (qs_durable q)),
     (''exclusive'', JBool (qs_exclusive q)), (''auto_delete'', JBool (qs_auto_delete q)),
     (''messages'', JNum (int (unat (qs_message_count q)))), (''consumers'', JNum (int (unat (qs_consumer_count q))))]"

definition exchangeValue :: "ExchangeSnapshot \<Rightarrow> json" where
  "exchangeValue ex = JObj [(''name'', JStr (if es_name ex = [] then ''(default)'' else es_name ex)), (''type'', JStr (es_type ex)),
     (''durable'', JBool (es_durable ex)), (''auto_delete'', JBool (es_auto_delete ex)),
     (''bindings'', JNum (int (es_binding_count ex)))]"

definition connectionValue :: "ConnectionInfo \<Rightarrow> json" where
  "connectionValue c = JObj [(''id'', JNum (int (unat (ci_id c)))), (''user'', JStr (ci_user c)), (''peer'', JStr (ci_peer c)),
     (''connected_at_ms'', JNum (ci_connectedAtMs c)), (''channels'', JNum (int (ci_channels c)))]"

definition snapshotValue :: "int \<Rightarrow> int \<Rightarrow> AmqpServer \<Rightarrow> json" where
  "snapshotValue nowMs startedAtMs s =
     JObj [(''version'', JStr ''1.0''), (''timestamp_ms'', JNum nowMs), (''uptime_ms'', JNum (nowMs - startedAtMs)),
       (''stats'', JObj [(''connections'', JNum (int (length (snapshotConnections s)))),
          (''queues'', JNum (int (length (snapshotQueues (sv_vhost s))))),
          (''exchanges'', JNum (int (length (snapshotExchanges (sv_vhost s))))),
          (''messages_ready'', JNum (int (unat (totalMessages (snapshotQueues (sv_vhost s))))))]),
       (''queues'', JArr (map queueValue (snapshotQueues (sv_vhost s)))),
       (''exchanges'', JArr (map exchangeValue (snapshotExchanges (sv_vhost s)))),
       (''connections'', JArr (map connectionValue (snapshotConnections s)))]"

lemmas json_rules = whole_object starts_last starts_next starts_nat starts_int starts_bool starts_escaped

lemma queueText_json: "json_text (queueValue q) (queueText q)"
  unfolding queueText_def queueValue_def
  by (rule json_rules | (simp add: plain_char_def; fail))+

lemma exchangeText_json: "json_text (exchangeValue ex) (exchangeText ex)"
  unfolding exchangeText_def exchangeValue_def
  by (rule json_rules | (simp add: plain_char_def; fail))+

lemma connectionText_json: "json_text (connectionValue c) (connectionText c)"
  unfolding connectionText_def connectionValue_def
  by (rule json_rules | (simp add: plain_char_def; fail))+

lemma snapshotText_json: "json_text (snapshotValue nowMs startedAtMs s) (snapshotText nowMs startedAtMs s)"
  unfolding snapshotText_def snapshotValue_def Let_def
  by (rule json_rules starts_object starts_array starts_plain queueText_json exchangeText_json connectionText_json
      | (simp add: plain_char_def; fail))+

section \<open>Properties\<close>



end
