(* ===== verification/Main_Program.thy ===== *)
theory Main_Program
  imports Stats_Writer Server_Properties
begin

text \<open>
  The program (\<open>main.cpp\<close>): the choice of port, data directory and users file, the start of the server
  and of the statistics, the signals that stop it, and when the event loop ends. The threads that
  run the loop are the interleavings of \<open>program_step\<close>.
\<close>

section \<open>Arguments\<close>

datatype start_error = InvalidArgument | OutOfRange

text \<open>\<open>std::stoi\<close> of the C++ library: white space, a sign, digits, and anything behind them.\<close>

definition stoi :: "string \<Rightarrow> start_error + int" where
  "stoi s =
     (let s1 = dropWhile isspace s;
          neg = (s1 \<noteq> [] \<and> hd s1 = CHR ''-'');
          s2 = (if s1 \<noteq> [] \<and> (hd s1 = CHR ''-'' \<or> hd s1 = CHR ''+'') then tl s1 else s1);
          ds = takeWhile isdigit s2;
          v = (if neg then - int (read_nat ds) else int (read_nat ds))
      in if ds = [] then Inl InvalidArgument
         else if v < - (2 ^ 31) \<or> v \<ge> 2 ^ 31 then Inl OutOfRange else Inr v)"

record Config =
  cf_port :: u16
  cf_dataDir :: string
  cf_usersFile :: string
  cf_statsFile :: string

text \<open>\<open>args\<close> are the arguments behind the program's name, \<open>env\<close> is \<open>BROKO_USERS_FILE\<close> if set.\<close>

definition main_config :: "string list \<Rightarrow> string option \<Rightarrow> start_error + Config" where
  "main_config args env =
     (let dataDir = (if length args > 1 then args ! 1 else ''./data'');
          usersFile = (if length args > 2 then args ! 2
                       else case env of Some e \<Rightarrow> e | None \<Rightarrow> dataDir @ ''/broker.users'');
          conf = (\<lambda>port. \<lparr>cf_port = port, cf_dataDir = dataDir, cf_usersFile = usersFile,
                          cf_statsFile = dataDir @ ''/stats.json''\<rparr>)
      in if length args > 0 then (case stoi (args ! 0) of Inl e \<Rightarrow> Inl e | Inr v \<Rightarrow> Inr (conf (word_of_int v)))
         else Inr (conf 5672))"

section \<open>The running program\<close>

text \<open>
  The objects of \<open>main\<close>, with the two files of the statistics writer; \<open>br_signals\<close> says that
  \<open>signals.async_wait\<close> is outstanding, \<open>br_workGuard\<close> that the work guard holds the event loop.
\<close>

record Broker =
  br_server :: AmqpServer
  br_stats :: StatsWriter
  br_files :: StatsFiles
  br_signals :: bool
  br_workGuard :: bool

text \<open>
  The broker starts on the content of the log, which is used if the data directory has a name,
  and of the users file, which is read if it has a name.
\<close>

definition start_broker ::
  "Config \<Rightarrow> byte list \<Rightarrow> string option \<Rightarrow> Heap \<Rightarrow> int \<Rightarrow> StatsFiles \<Rightarrow> Broker option" where
  "start_broker cf wal users h nowMs fs =
     map_option (\<lambda>server.
         \<lparr>br_server = start_server server, br_stats = start_stats (new_StatsWriter nowMs), br_files = fs,
          br_signals = True, br_workGuard = True\<rparr>)
       (new_AmqpServer (if cf_dataDir cf = [] then None else Some wal)
         (if cf_usersFile cf = [] then None else Some users) h)"

definition onSignal :: "Broker \<Rightarrow> Broker" where
  "onSignal b = b\<lparr>br_server := stop (br_server b), br_workGuard := False, br_signals := False\<rparr>"

text \<open>
  \<open>ioContext.run()\<close> returns when no work is outstanding: no guard, no wait for a signal, no
  timer, no accept, and no read, write or timer of a connection.
\<close>

definition conn_outstanding :: "Connection \<Rightarrow> bool" where
  "conn_outstanding c \<longleftrightarrow> co_read c \<noteq> NoRead \<or> co_inflight c \<noteq> None \<or> co_heartbeatTimer c \<or> co_heartbeatCheckTimer c"

definition outstanding :: "Broker \<Rightarrow> bool" where
  "outstanding b \<longleftrightarrow> br_workGuard b \<or> br_signals b \<or> sw_running (br_stats b) \<or> sv_accepting (br_server b) \<or>
     sv_tickTimer (br_server b) \<or> sv_compactTimer (br_server b) \<or> list_ex conn_outstanding (sv_heap (br_server b))"

text \<open>The steps of the event loop; the operating system decides about the statistics files.\<close>

inductive program_step :: "Broker \<Rightarrow> Broker \<Rightarrow> bool" where
  server: "server_step (br_server b) s \<Longrightarrow> program_step b (b\<lparr>br_server := s\<rparr>)"
| stats: "sw_running (br_stats b) \<Longrightarrow>
    program_step b (b\<lparr>br_files := onStatsTimer opens wrote renames nowMs (br_server b) (br_stats b) (br_files b)\<rparr>)"
| signal: "br_signals b \<Longrightarrow> program_step b (onSignal b)"

section \<open>A port number is read as written\<close>

lemma show_nat_digits: "list_all isdigit (show_nat n)" "show_nat n \<noteq> []"
  using show_nat_numeral [of n] by (simp_all add: numeral_text_def isdigit_def [abs_def] Let_def)

lemma digit_not_special: "isdigit c \<Longrightarrow> \<not> isspace c \<and> c \<noteq> CHR ''-'' \<and> c \<noteq> CHR ''+''"
  by (auto simp: isdigit_def isspace_def Let_def)

lemma stoi_show_nat: "n < 2 ^ 31 \<Longrightarrow> stoi (show_nat n) = Inr (int n)"
proof -
  assume n: "n < 2 ^ 31"
  obtain c cs where s: "show_nat n = c # cs" using show_nat_digits(2) by (cases "show_nat n") auto
  then have c: "isdigit c" using show_nat_digits(1) [of n] by simp
  have "dropWhile isspace (show_nat n) = show_nat n" using digit_not_special [OF c] by (simp add: s)
  moreover have "takeWhile isdigit (show_nat n) = show_nat n"
    using show_nat_digits(1) [of n] by (simp add: takeWhile_eq_all_conv list_all_iff)
  moreover have "hd (show_nat n) \<noteq> CHR ''-''" "hd (show_nat n) \<noteq> CHR ''+''" using digit_not_special [OF c] by (simp_all add: s)
  moreover have "\<not> (int n < - (2 ^ 31) \<or> int n \<ge> 2 ^ 31)" using n by simp
  ultimately show ?thesis
    by (simp only: stoi_def Let_def show_nat_digits(2) read_show_nat simp_thms if_False)
qed

lemma port_as_written:
  "n < 2 ^ 31 \<Longrightarrow> \<exists>cf. main_config (show_nat n # rest) env = Inr cf \<and> unat (cf_port cf) = n mod 2 ^ 16"
  by (simp add: main_config_def stoi_show_nat Let_def unat_of_nat)

section \<open>Stopping\<close>

definition quiet :: "AmqpServer \<Rightarrow> bool" where
  "quiet s \<longleftrightarrow> \<not> sv_accepting s \<and> \<not> sv_tickTimer s \<and> \<not> sv_compactTimer s"

lemma put_peer_flags:
  "sv_accepting (put_peer a p s) = sv_accepting s" "sv_tickTimer (put_peer a p s) = sv_tickTimer s"
  "sv_compactTimer (put_peer a p s) = sv_compactTimer s"
proof -
  have "sv_accepting (fold removeConnection ids t) = sv_accepting t \<and> sv_tickTimer (fold removeConnection ids t) = sv_tickTimer t \<and>
      sv_compactTimer (fold removeConnection ids t) = sv_compactTimer t" for ids t
    by (induction ids arbitrary: t) (simp_all add: removeConnection_def)
  then show "sv_accepting (put_peer a p s) = sv_accepting s" "sv_tickTimer (put_peer a p s) = sv_tickTimer s"
    "sv_compactTimer (put_peer a p s) = sv_compactTimer s" by (simp_all add: put_peer_def)
qed

lemma quiet_put_peer [simp]: "quiet (put_peer a p s) = quiet s"
  by (simp add: quiet_def put_peer_flags)

lemma quiet_stop: "quiet (stop s)"
proof -
  have all: "quiet (fold (\<lambda>(i, a). on_peer a (on_conn close_connection)) cs t) = quiet t" for cs t
  proof (induction cs arbitrary: t)
    case (Cons c cs)
    have "quiet (on_peer (snd c) (on_conn close_connection) t) = quiet t" unfolding on_peer_def by (rule quiet_put_peer)
    with Cons.IH show ?case by (simp add: split_beta)
  qed simp
  have "quiet (s\<lparr>sv_tickTimer := False, sv_compactTimer := False, sv_accepting := False\<rparr>)" by (simp add: quiet_def)
  then have "quiet (fold (\<lambda>(i, a). on_peer a (on_conn close_connection)) cs
      (s\<lparr>sv_tickTimer := False, sv_compactTimer := False, sv_accepting := False\<rparr>))" for cs
    unfolding all .
  moreover have "quiet (t\<lparr>sv_connections := cs\<rparr>) = quiet t" for t cs by (simp add: quiet_def)
  ultimately show ?thesis by (simp add: stop_def Let_def)
qed

text \<open>A stopped server stays stopped: only its connections still have callbacks.\<close>

lemma quiet_step: "server_step s s' \<Longrightarrow> quiet s \<Longrightarrow> quiet s'"
  by (induction rule: server_step.induct) (auto simp: quiet_put_peer, auto simp: quiet_def)

lemma program_run:
  assumes "program_step\<^sup>*\<^sup>* b0 b" "sw_running (br_stats b0)" "br_signals b0"
  shows "sw_running (br_stats b) \<and> (\<not> br_signals b \<longrightarrow> \<not> br_workGuard b \<and> quiet (br_server b))"
  using assms
proof (induction rule: rtranclp_induct)
  case (step b b')
  from step(2) step(3) [OF step(4,5)] show ?case
    by (induction rule: program_step.induct) (auto simp: onSignal_def quiet_stop quiet_step)
qed simp

section \<open>Properties\<close>

text \<open>
  (C40) The broker does not end on SIGINT or SIGTERM. The signal stops the server - no accept, no tick,
  no compaction, and the work guard is released - but nothing stops the statistics timer: in every
  state the program reaches it is still running, so \<open>ioContext.run()\<close> has work and never returns.
\<close>

theorem signal_does_not_end_the_program:
  assumes "start_broker cf wal users h nowMs fs = Some b0" "program_step\<^sup>*\<^sup>* b0 b"
  shows "outstanding b \<and> sw_running (br_stats b) \<and>
    (br_signals b \<or> \<not> br_workGuard b \<and> \<not> sv_accepting (br_server b) \<and> \<not> sv_tickTimer (br_server b) \<and>
       \<not> sv_compactTimer (br_server b))"
proof -
  have "sw_running (br_stats b0)" "br_signals b0"
    using assms(1) by (auto simp: start_broker_def start_stats_def)
  from program_run [OF assms(2) this] show ?thesis by (auto simp: outstanding_def quiet_def)
qed

theorem signal_does_not_end_the_program_witness:
  "\<exists>b0. start_broker \<lparr>cf_port = 5672, cf_dataDir = [], cf_usersFile = [], cf_statsFile = []\<rparr> [] None (sample_heap 0) 0
       \<lparr>sf_file = None, sf_tmp = None\<rparr> = Some b0 \<and> \<not> br_signals (onSignal b0) \<and> outstanding (onSignal b0)"
proof -
  let ?cf = "\<lparr>cf_port = 5672, cf_dataDir = [], cf_usersFile = [], cf_statsFile = []\<rparr>" and ?fs = "\<lparr>sf_file = None, sf_tmp = None\<rparr>"
  obtain s where "new_AmqpServer None None (sample_heap 0) = Some s" using sample_server by blast
  then obtain b0 where b0: "start_broker ?cf [] None (sample_heap 0) 0 ?fs = Some b0" "br_signals b0"
    by (auto simp: start_broker_def)
  then have "program_step\<^sup>*\<^sup>* b0 (onSignal b0)" by (intro r_into_rtranclp program_step.signal)
  from signal_does_not_end_the_program [OF b0(1) this] b0 show ?thesis by (auto simp: onSignal_def)
qed

end
