(* ===== verification/Spec2Isabelle.thy ===== *)
theory Spec2Isabelle
  imports Host_Properties Message_Transfer Channel_Closing Delivery_Tags Connection_Closing Server_Properties Main_Program
begin

text \<open>
  Verification of the broko message broker, an AMQP 0-9-1 server in C++ (\<open>src/src\<close>).

  \<^bold>\<open>The program.\<close> A server (\<open>broker/server\<close>) accepts TCP connections. A connection
  (\<open>broker/connection\<close>) performs the handshake, cuts the byte stream into frames and hands methods
  and content to its channels (\<open>broker/channel\<close>). Channels work on the one virtual host
  (\<open>broker/vhost.h\<close>) with its exchanges (\<open>broker/exchange.h\<close>) and queues (\<open>broker/queue.h\<close>). Durable
  declarations and persistent messages go to a write-ahead log (\<open>storage/message_store.h\<close>), from which
  the host is rebuilt at start-up. A users file (\<open>broker/auth.h\<close>) decides about logins, and a statistics
  file (\<open>broker/stats_writer.h\<close>) serves a web interface.

  \<^bold>\<open>Theories and sources.\<close>
  \<^item> \<open>Prelude\<close>: words, bytes and strings, decimal numerals, the error type, association lists.
  \<^item> \<open>Wire_Buffer\<close>, \<open>Float_Bits\<close>, \<open>Field_Table\<close>, \<open>Field_Table_Roundtrip\<close> (\<open>amqp/types.h\<close>): the class
    \<open>Buffer\<close>, one function per read and write; floats as bit patterns; the recursive field tables. The
    locale \<open>codec\<close> is the contract of a write and read pair, the locale \<open>reader\<close> that of a read on
    arbitrary input; both are interpreted on every pair of the class. Round trips, re-encoding of what
    was accepted, and the outcomes of reading any bytes.
  \<^item> \<open>Basic_Properties\<close> (\<open>amqp/content.h\<close>): the fourteen optional properties, again a \<open>codec\<close>.
  \<^item> \<open>Exchange\<close> (\<open>broker/exchange.h\<close>): the four routing algorithms. The locale \<open>router\<close> says that a
    routing algorithm returns the queues of the accepting bindings; for topics the matcher's dynamic
    programming is shown equal to the inductive meaning of the wildcards.
  \<^item> \<open>Broker_Objects\<close>, \<open>Message_Queue\<close> (\<open>broker/message.h\<close>, \<open>broker/consumer.h\<close>, \<open>broker/queue.h\<close>):
    messages and consumers are shared objects, so they live in an explicit store with addresses; queue
    operations are functions on the store and the queue. \<open>Queue_Delivery\<close> and \<open>Queue_Properties\<close> show
    that no message is lost, duplicated or overtaken, that prefetch limits hold, that dispatch stops only
    when nothing can be delivered, and round robin.
  \<^item> \<open>Message_Store\<close>, \<open>Store_Entries\<close>, \<open>Store_Recovery\<close> (\<open>storage/message_store.h\<close>): the log file as
    bytes, with the checksum. Recovery refines a declarative reading of the log, however the file is cut;
    compaction keeps what recovery returns.
  \<^item> \<open>Virtual_Host\<close> (\<open>broker/vhost.h\<close>), with \<open>Dead_Lettering\<close> (the mutual recursion of queues through
    dead-letter exchanges terminates), \<open>Host_Invariants\<close> and \<open>Host_Properties\<close> (names and bindings under
    every sequence of operations, deletion, clean-up after a connection) and \<open>Restart\<close> (the host that a
    log gives).
  \<^item> \<open>Frames\<close> (\<open>amqp/frame.h\<close>, \<open>amqp/methods.h\<close>) and \<open>Channel\<close> (\<open>broker/channel.*\<close>): a handler takes
    the channel, the host and the frames sent so far, and returns them with the exception it threw, if
    any. \<open>Channel_Properties\<close>, \<open>Delivery_Tags\<close>, \<open>Publishing\<close>, \<open>Channel_Progress\<close> and \<open>Channel_Closing\<close>:
    content frames, acknowledgements, delivery tags, publishing with confirms and log, that every
    handler returns, and the end of a channel.
  \<^item> \<open>User_Store\<close> (\<open>broker/auth.h\<close>) and \<open>Connection\<close> (\<open>broker/connection.*\<close>): one function per callback
    of the asynchronous reads, writes and timers; \<open>co_read\<close>, \<open>co_inflight\<close> and the timer flags record
    what is outstanding. \<open>Connection_Properties\<close> (the write queue as an instance of the locale
    \<open>output_log\<close>, frames out of a byte stream, callbacks as the relation \<open>conn_step\<close>), \<open>Handshake\<close> (the
    login seen from the client) and \<open>Connection_Closing\<close> (what remains after \<open>shutdown\<close>).
  \<^item> \<open>Message_Transfer\<close> composes the parts: the bytes of a publication, through connection, channel, exchange
    and log, to the acknowledgement, and from the log into the queues of a restarted broker.
  \<^item> \<open>Server\<close> and \<open>Server_Properties\<close> (\<open>broker/server.*\<close>): connections by address, sharing the host,
    under the relation \<open>server_step\<close>: who is past the login and which connections are registered.
  \<^item> \<open>Stats_Writer\<close> (\<open>broker/stats_writer.h\<close>): the snapshot's text against a grammar of JSON;
    \<open>Main_Program\<close> (\<open>main.cpp\<close>): arguments, start, signals and the end of the event loop, over the relation
    \<open>program_step\<close>.

  \<^bold>\<open>Machine integers.\<close> Fields keep their width as words: message ids, delivery tags, counters and sizes
  wrap as in C++, and the theorems name the bounds they need.

  \<^bold>\<open>Loops and fuel.\<close> Loops are structural or have a measure (\<open>bodyLoop\<close>: bytes left; \<open>feed\<close>: bytes
  unread; \<open>getlines\<close>: text left; \<open>recoverLoop\<close>: bytes of the log left). Two recursions have fuel. Reading
  a field table consumes a byte per level, so the length of the buffer and two is enough; that the fuel
  never runs out is part of the theorem on its outcomes. Dead-lettering between queues has the fuel
  \<open>dlx_fuel\<close>: a call of the handler uses up a message reference held by a queue or one of the twenty hops
  of a message; \<open>Dead_Lettering\<close> shows that this suffices for one delivery, cycles of exchanges included, and
  \<open>Channel_Progress\<close> for every handler of a channel, as long as the 32-bit hop counters cannot wrap.

  \<^bold>\<open>Parameters.\<close> The clock and the object store are in \<open>Heap\<close>; the contents of log and users file, peer
  addresses, and the success of opening, writing and renaming the statistics file are arguments. Hash maps
  are association lists in order of insertion; no theorem relies on an iteration order except where it
  names it (the order of messages returned by a closed channel).

  \<^bold>\<open>Not modelled.\<close> Mutexes and threads: every locked section is one step, and a connection's callbacks run
  on its strand one at a time. Sockets, timers and the event loop of Boost.Asio: the step relations call
  the callbacks in any order, and \<open>outstanding\<close> says when the loop has no more work. System calls of the
  log (\<open>fsync\<close>, opening, renaming) succeed; a crash cuts the file anywhere. Console output. The JavaScript
  client library, the web interface, the demos, tests and scripts are other programs around the broker.
\<close>

end
